(* ===== verification/P2P_Prelude.thy ===== *)
theory P2P_Prelude
  imports Main "HOL-Library.Multiset" "HOL-Library.Word" "HOL-Library.Monad_Syntax"
begin

section \<open>Prelude: machine types, hash maps, iteration, invariants\<close>

text \<open>
  What the component theories share: names for the machine integers of the Rust code, the
  model of \<open>std::collections::HashMap\<close> and \<open>HashSet\<close> iteration (a map and, per iteration, the
  order in which its keys were visited), the two \<open>Iterator\<close> adaptors the code uses that HOL does
  not have, the facts about lists and maps several components need, and one locale for
  invariants of transition systems.

  \<open>usize\<close> counters that only count live objects (connections, addresses, map entries) are
  \<open>nat\<close>: reaching \<open>2^64\<close> of them would need more memory than the address space. Integers
  whose width the code relies on keep it: \<open>u32\<close> casts and counters, \<open>u64\<close> values parsed from
  text, \<open>u8\<close> octets.
\<close>

type_synonym u8 = "8 word"
type_synonym u16 = "16 word"
type_synonym u32 = "32 word"
type_synonym u64 = "64 word"

text \<open>Facts that unfold a component's handlers down to its data.\<close>

named_theorems handler_defs "definitions of operations and handlers"

text \<open>Facts that an operation leaves a part of the state alone.\<close>

named_theorems frame_simps "what an operation does not change"

subsection \<open>Iterator adaptors\<close>

text \<open>\<open>Iterator::find_map\<close>: the first hit of a partial function.\<close>

fun find_map :: "('a \<Rightarrow> 'b option) \<Rightarrow> 'a list \<Rightarrow> 'b option" where
  "find_map f [] = None"
| "find_map f (x # xs) = (case f x of Some y \<Rightarrow> Some y | None \<Rightarrow> find_map f xs)"

lemma find_map_None_iff: "find_map f xs = None \<longleftrightarrow> (\<forall>x \<in> set xs. f x = None)"
  by (induction xs) (auto split: option.splits)

lemma find_map_SomeD: "find_map f xs = Some y \<Longrightarrow> \<exists>x \<in> set xs. f x = Some y"
  by (induction xs) (auto split: option.splits)

text \<open>\<open>Iterator::filter_map\<close> is \<^const>\<open>List.map_filter\<close>.\<close>

lemma map_filter_Nil [simp]: "List.map_filter f [] = []"
  by (simp add: List.map_filter_def)

lemma map_filter_Cons [simp]:
  "List.map_filter f (x # xs) =
     (case f x of None \<Rightarrow> List.map_filter f xs | Some y \<Rightarrow> y # List.map_filter f xs)"
  by (simp add: List.map_filter_def split: option.splits)

lemma map_filter_append [simp]:
  "List.map_filter f (xs @ ys) = List.map_filter f xs @ List.map_filter f ys"
  by (simp add: List.map_filter_def)

lemma set_map_filter: "set (List.map_filter f xs) = {y. \<exists>x \<in> set xs. f x = Some y}"
  by (induction xs) (auto split: option.splits)

lemma length_map_filter_le: "length (List.map_filter f xs) \<le> length xs"
  by (induction xs) (auto split: option.splits)

lemma in_concat_map_pair:
  "x \<in> set (concat (map f es)) \<longleftrightarrow> (\<exists>k v. (k, v) \<in> set es \<and> x \<in> set (f (k, v)))"
  by (auto simp: split_paired_all)

text \<open>Removing one occurrence.\<close>

lemma set_subset_insert_remove1: "set xs \<subseteq> insert c (set (remove1 c xs))"
  by (induction xs) auto

lemma distinct_map_remove1: "distinct (map f xs) \<Longrightarrow> distinct (map f (remove1 x xs))"
proof (induction xs)
  case (Cons y ys)
  then show ?case using set_remove1_subset [of x ys] by auto
qed simp

lemma length_remove1_Suc: "x \<in> set xs \<Longrightarrow> Suc (length (remove1 x xs)) = length xs"
  by (induction xs) auto

subsection \<open>Words\<close>

lemma sint_small: "n < 2 ^ 63 \<Longrightarrow> sint (of_nat n :: u64) = int n"
  by (simp add: sint_uint uint_nat unat_of_nat take_bit_int_eq_self signed_take_bit_int_eq_self)

subsection \<open>Hash maps and the order of an iteration\<close>

text \<open>
  A \<open>HashMap<K, V>\<close> is a partial map. Iterating it visits every key once, in an order the
  program cannot predict and that may differ between two iterations of the same map: an operation
  that iterates takes the order of that iteration as an argument, and the theorems hold
  for every order that \<open>iterates\<close> the map.
\<close>

definition iterates :: "'k set \<Rightarrow> 'k list \<Rightarrow> bool" where
  "iterates K ks \<longleftrightarrow> distinct ks \<and> set ks = K"

lemma iterates_set: "iterates K ks \<Longrightarrow> set ks = K"
  by (simp add: iterates_def)

lemma iterates_distinct: "iterates K ks \<Longrightarrow> distinct ks"
  by (simp add: iterates_def)

lemma iterates_length: "iterates K ks \<Longrightarrow> length ks = card K"
  by (auto simp: iterates_def distinct_card)

definition entries :: "('k \<rightharpoonup> 'v) \<Rightarrow> 'k list \<Rightarrow> ('k \<times> 'v) list" where
  "entries m ks = List.map_filter (\<lambda>k. map_option (Pair k) (m k)) ks"

lemma set_entries: "set (entries m ks) = {(k, v). k \<in> set ks \<and> m k = Some v}"
  by (auto simp: entries_def set_map_filter)

lemma map_fst_entries: "set ks \<subseteq> dom m \<Longrightarrow> map fst (entries m ks) = ks"
  by (induction ks) (auto simp: entries_def)

text \<open>Collecting pairs into a map, the last pair for a key winning (\<open>HashMap::insert\<close>).\<close>

definition insert_all :: "('k \<times> 'v) list \<Rightarrow> ('k \<rightharpoonup> 'v) \<Rightarrow> ('k \<rightharpoonup> 'v)" where
  "insert_all kvs m = foldl (\<lambda>m (k, v). m(k \<mapsto> v)) m kvs"

lemma insert_all_simps [simp]:
  "insert_all [] m = m"
  "insert_all ((k, v) # kvs) m = insert_all kvs (m(k \<mapsto> v))"
  by (simp_all add: insert_all_def)

lemma dom_insert_all: "dom (insert_all kvs m) = fst ` set kvs \<union> dom m"
proof (induction kvs arbitrary: m)
  case (Cons kv kvs)
  obtain k v where kv: "kv = (k, v)" by fastforce
  have "dom (insert_all (kv # kvs) m) = fst ` set kvs \<union> dom (m(k \<mapsto> v))"
    unfolding kv insert_all_simps by (rule Cons.IH)
  then show ?case by (simp add: kv)
qed simp

lemma insert_all_notin: "k \<notin> fst ` set kvs \<Longrightarrow> insert_all kvs m k = m k"
  by (induction kvs arbitrary: m) auto

lemma insert_all_distinct:
  "distinct (map fst kvs) \<Longrightarrow> (k, v) \<in> set kvs \<Longrightarrow> insert_all kvs m k = Some v"
proof (induction kvs arbitrary: m)
  case (Cons kv kvs)
  then show ?case by (cases kv) (auto simp: insert_all_notin)
qed simp

subsection \<open>Invariants of transition systems\<close>

text \<open>
  A transition system and a predicate that holds initially and that every step keeps. The
  stateful components interpret it once per invariant.
\<close>

locale invariant_system =
  fixes initial :: "'s \<Rightarrow> bool"
    and step :: "'s \<Rightarrow> 's \<Rightarrow> bool"
    and invar :: "'s \<Rightarrow> bool"
  assumes invar_initial: "initial s \<Longrightarrow> invar s"
    and invar_step: "invar s \<Longrightarrow> step s t \<Longrightarrow> invar t"
begin

lemma invar_steps: "step\<^sup>*\<^sup>* s t \<Longrightarrow> invar s \<Longrightarrow> invar t"
  by (induction rule: rtranclp_induct) (auto intro: invar_step)

lemma reachable_invar: "initial s \<Longrightarrow> step\<^sup>*\<^sup>* s t \<Longrightarrow> invar t"
  by (blast intro: invar_steps invar_initial)

end

end
