(* ===== verification/Multiaddr.thy ===== *)
theory Multiaddr
  imports P2P_Prelude
begin

section \<open>Multiaddresses as the service reads them\<close>

text \<open>
  A \<open>libp2p::Multiaddr\<close> is a sequence of protocol components; the service reads it through
  \<open>Multiaddr::iter\<close>, \<open>pop\<close>, \<open>push\<close> and \<open>with\<close> only, and matches the components
  \<open>Protocol::Ip4\<close>, \<open>Ip6\<close>, \<open>Tcp\<close> and \<open>P2p\<close>. Every other component is \<open>OtherProtocol\<close> with
  its text. Peer ids are opaque to the service: they are the type variable \<open>'p\<close>. Parsing
  and printing of both are libp2p's and stay parameters of the operations that use them.
\<close>

datatype ipv4 = Ipv4 u8 u8 u8 u8

text \<open>\<open>Ipv4Addr::octets\<close>, \<open>is_loopback\<close> (127.0.0.0/8), \<open>is_unspecified\<close> (0.0.0.0).\<close>

fun ipv4_octets :: "ipv4 \<Rightarrow> u8 \<times> u8 \<times> u8 \<times> u8" where
  "ipv4_octets (Ipv4 a b c d) = (a, b, c, d)"

fun ipv4_is_loopback :: "ipv4 \<Rightarrow> bool" where
  "ipv4_is_loopback (Ipv4 a _ _ _) \<longleftrightarrow> a = 127"

fun ipv4_is_unspecified :: "ipv4 \<Rightarrow> bool" where
  "ipv4_is_unspecified (Ipv4 a b c d) \<longleftrightarrow> a = 0 \<and> b = 0 \<and> c = 0 \<and> d = 0"

text \<open>An \<open>Ipv6Addr\<close> is its 128-bit value; loopback is \<open>::1\<close>, unspecified is \<open>::\<close>.\<close>

type_synonym ipv6 = "128 word"

definition ipv6_is_loopback :: "ipv6 \<Rightarrow> bool" where
  "ipv6_is_loopback ip \<longleftrightarrow> ip = 1"

definition ipv6_is_unspecified :: "ipv6 \<Rightarrow> bool" where
  "ipv6_is_unspecified ip \<longleftrightarrow> ip = 0"

datatype 'p protocol =
    Ip4 ipv4
  | Ip6 ipv6
  | Tcp u16
  | P2p 'p
  | OtherProtocol string

type_synonym 'p multiaddr = "'p protocol list"

text \<open>
  \<open>Multiaddr::pop\<close>: the last component, if any, and the address without it.
\<close>

definition multiaddr_pop :: "'p multiaddr \<Rightarrow> 'p protocol option \<times> 'p multiaddr" where
  "multiaddr_pop a = (if a = [] then (None, []) else (Some (last a), butlast a))"

lemma multiaddr_pop_snoc [simp]: "multiaddr_pop (a @ [p]) = (Some p, a)"
  by (simp add: multiaddr_pop_def)

lemma multiaddr_pop_Nil [simp]: "multiaddr_pop [] = (None, [])"
  by (simp add: multiaddr_pop_def)

end
