(* ===== verification/Subnet_Limits.thy ===== *)
theory Subnet_Limits
  imports Multiaddr
begin

section \<open>Per-subnet connection limits (src/p2p/subnet.rs)\<close>

text \<open>
  \<open>SubnetLimits\<close> counts the open connections of every IPv4 /24 subnet and gives a verdict on
  each new one. The state is the cap and a hash map from the three leading octets to a count.
  Below: the operations as the code has them, the abstract counter (a multiset of subnets)
  they implement, the interface \<open>connection_limiter\<close> the event loop relies on with what
  follows from it for any sequence of connections, and its interpretation on the code's model.
\<close>

type_synonym subnet_key = "u8 \<times> u8 \<times> u8"

datatype verdict = Allow | Reject

record subnet_limits =
  subnet_cap :: nat
  subnet_counts :: "subnet_key \<rightharpoonup> nat"

definition subnet_limits_new :: "nat \<Rightarrow> subnet_limits" where
  "subnet_limits_new c = \<lparr>subnet_cap = c, subnet_counts = Map.empty\<rparr>"

text \<open>\<open>SubnetLimits::subnet\<close>: the /24 of the first IPv4 component.\<close>

definition subnet :: "'p multiaddr \<Rightarrow> subnet_key option" where
  "subnet addr = find_map (\<lambda>p. case p of
       Ip4 ip \<Rightarrow> (case ipv4_octets ip of (a, b, c, d) \<Rightarrow> Some (a, b, c))
     | _ \<Rightarrow> None) addr"

definition on_connection :: "'p multiaddr \<Rightarrow> bool \<Rightarrow> subnet_limits \<Rightarrow> verdict \<times> subnet_limits" where
  "on_connection addr exempt l =
     (case subnet addr of
        None \<Rightarrow> (Allow, l)
      | Some sn \<Rightarrow>
          (let count = (case subnet_counts l sn of None \<Rightarrow> 0 | Some c \<Rightarrow> c);
               verdict = (if \<not> exempt \<and> count \<ge> subnet_cap l then Reject else Allow)
           in (verdict, l\<lparr>subnet_counts := (subnet_counts l)(sn \<mapsto> count + 1)\<rparr>)))"

definition on_disconnection :: "'p multiaddr \<Rightarrow> subnet_limits \<Rightarrow> subnet_limits" where
  "on_disconnection addr l =
     (case subnet addr of
        None \<Rightarrow> l
      | Some sn \<Rightarrow>
          (case subnet_counts l sn of
             None \<Rightarrow> l
           | Some c \<Rightarrow>
               (let c' = c - 1
                in if c' = 0 then l\<lparr>subnet_counts := (subnet_counts l)(sn := None)\<rparr>
                   else l\<lparr>subnet_counts := (subnet_counts l)(sn \<mapsto> c')\<rparr>)))"

subsection \<open>The abstract counter\<close>

text \<open>
  What the component promises: a multiset of the subnets of the open connections. A
  connection adds its subnet, a disconnection removes one occurrence, and a non-exempt
  connection is rejected exactly when its subnet already has \<open>cap\<close> open connections.
\<close>

definition open_count :: "subnet_limits \<Rightarrow> subnet_key \<Rightarrow> nat" where
  "open_count l sn = (case subnet_counts l sn of None \<Rightarrow> 0 | Some c \<Rightarrow> c)"

definition subnets_of :: "'p multiaddr \<Rightarrow> subnet_key multiset" where
  "subnets_of addr = (case subnet addr of None \<Rightarrow> {#} | Some sn \<Rightarrow> {#sn#})"

definition spec_verdict :: "nat \<Rightarrow> subnet_key multiset \<Rightarrow> 'p multiaddr \<Rightarrow> bool \<Rightarrow> verdict" where
  "spec_verdict cap M addr exempt =
     (case subnet addr of
        None \<Rightarrow> Allow
      | Some sn \<Rightarrow> if \<not> exempt \<and> cap \<le> count M sn then Reject else Allow)"

text \<open>The refinement relation: the counts agree and no entry of the map is zero.\<close>

definition limits_refine :: "subnet_limits \<Rightarrow> subnet_key multiset \<Rightarrow> bool" where
  "limits_refine l M \<longleftrightarrow>
     (\<forall>sn. open_count l sn = count M sn) \<and> (\<forall>sn. subnet_counts l sn \<noteq> Some 0)"

lemma limits_refine_new: "limits_refine (subnet_limits_new c) {#}"
  by (simp add: limits_refine_def subnet_limits_new_def open_count_def)

lemma on_connection_cap [frame_simps, simp]:
  "subnet_cap (snd (on_connection a e l)) = subnet_cap l"
  by (simp add: on_connection_def Let_def split: option.split)

lemma on_disconnection_cap [frame_simps, simp]:
  "subnet_cap (on_disconnection a l) = subnet_cap l"
  by (simp add: on_disconnection_def Let_def split: option.split)

lemma open_count_on_connection:
  "open_count (snd (on_connection a e l)) sn =
     open_count l sn + count (subnets_of a) sn"
  by (simp add: on_connection_def open_count_def subnets_of_def Let_def split: option.split)

lemma open_count_on_disconnection:
  "open_count (on_disconnection a l) sn = open_count l sn - count (subnets_of a) sn"
  by (auto simp: on_disconnection_def open_count_def subnets_of_def Let_def split: option.splits)

lemma limits_refine_connection:
  assumes "limits_refine l M"
  shows "limits_refine (snd (on_connection a e l)) (M + subnets_of a)"
  using assms
  by (auto simp: limits_refine_def open_count_on_connection)
    (auto simp: on_connection_def Let_def split: option.splits if_splits)

lemma limits_refine_disconnection:
  assumes "limits_refine l M"
  shows "limits_refine (on_disconnection a l) (M - subnets_of a)"
  using assms
  by (auto simp: limits_refine_def open_count_on_disconnection)
    (auto simp: on_disconnection_def Let_def split: option.splits if_splits)

lemma on_connection_verdict:
  assumes "limits_refine l M"
  shows "fst (on_connection a e l) = spec_verdict (subnet_cap l) M a e"
  using assms
  by (auto simp: limits_refine_def on_connection_def spec_verdict_def open_count_def Let_def
      split: option.splits)

lemma limits_refine_empty_iff:
  "limits_refine l {#} \<longleftrightarrow> subnet_counts l = Map.empty"
proof
  assume "limits_refine l {#}"
  then show "subnet_counts l = Map.empty"
    by (auto simp: limits_refine_def open_count_def fun_eq_iff split: option.splits)
      (metis not_None_eq)
next
  assume "subnet_counts l = Map.empty"
  then show "limits_refine l {#}"
    by (simp add: limits_refine_def open_count_def)
qed

subsection \<open>The interface the event loop relies on\<close>

text \<open>
  A limiter with an abstraction to the multiset of open subnets. The locale's runs are
  sequences of openings and closings of numbered connections, each closing naming one that is
  open; \<open>live\<close> is the list of the open ones with the verdict each got.
\<close>

locale connection_limiter =
  fixes connect :: "'p multiaddr \<Rightarrow> bool \<Rightarrow> 'l \<Rightarrow> verdict \<times> 'l"
    and disconnect :: "'p multiaddr \<Rightarrow> 'l \<Rightarrow> 'l"
    and cap_of :: "'l \<Rightarrow> nat"
    and refine :: "'l \<Rightarrow> subnet_key multiset \<Rightarrow> bool"
  assumes connect_refine: "refine l M \<Longrightarrow> refine (snd (connect a e l)) (M + subnets_of a)"
    and disconnect_refine: "refine l M \<Longrightarrow> refine (disconnect a l) (M - subnets_of a)"
    and verdict_spec: "refine l M \<Longrightarrow> fst (connect a e l) = spec_verdict (cap_of l) M a e"
    and connect_cap: "cap_of (snd (connect a e l)) = cap_of l"
    and disconnect_cap: "cap_of (disconnect a l) = cap_of l"
begin

lemma connect_refine_add:
  "refine l M \<Longrightarrow> refine (snd (connect a e l)) (subnets_of a + M)"
  by (metis connect_refine add.commute)

lemma disconnect_refine_remove:
  "refine l (subnets_of a + M) \<Longrightarrow> refine (disconnect a l) M"
  using disconnect_refine [of l "subnets_of a + M" a] by simp

lemma reconnect_refine:
  "refine l M \<Longrightarrow> refine (disconnect a (snd (connect a e l))) M"
  by (blast intro: disconnect_refine_remove connect_refine_add)

lemma exempt_allowed: "refine l M \<Longrightarrow> fst (connect a True l) = Allow"
  by (simp add: verdict_spec spec_verdict_def split: option.split)

lemma allowed_below_cap:
  "\<lbrakk>refine l M; fst (connect a False l) = Allow; subnet a = Some sn\<rbrakk> \<Longrightarrow> count M sn < cap_of l"
  by (auto simp: verdict_spec spec_verdict_def split: if_splits)

end

interpretation limiter: connection_limiter on_connection on_disconnection subnet_cap limits_refine
  by unfold_locales
    (simp_all add: limits_refine_connection limits_refine_disconnection on_connection_verdict)

subsection \<open>Runs of connections\<close>

text \<open>
  A run opens and closes numbered connections. An opening adds an entry with its address,
  exemption and verdict; a closing of an open number removes it and reports it to the limiter,
  as the event loop does for every closed connection, rejected ones included.
\<close>

datatype 'p conn_event = Open nat "'p multiaddr" bool | Close nat

type_synonym 'p live_conn = "nat \<times> 'p multiaddr \<times> bool \<times> verdict"

fun limits_step :: "'p conn_event \<Rightarrow> subnet_limits \<times> 'p live_conn list
    \<Rightarrow> subnet_limits \<times> 'p live_conn list" where
  "limits_step (Open i a e) (l, live) =
     (case on_connection a e l of (v, l') \<Rightarrow> (l', (i, a, e, v) # live))"
| "limits_step (Close i) (l, live) =
     (case find (\<lambda>c. fst c = i) live of
        None \<Rightarrow> (l, live)
      | Some c \<Rightarrow> (on_disconnection (fst (snd c)) l, remove1 c live))"

definition limits_run :: "nat \<Rightarrow> 'p conn_event list \<Rightarrow> subnet_limits \<times> 'p live_conn list" where
  "limits_run c evs = fold limits_step evs (subnet_limits_new c, [])"

definition live_subnets :: "'p live_conn list \<Rightarrow> subnet_key multiset" where
  "live_subnets live = (\<Sum>c \<in># mset live. subnets_of (fst (snd c)))"

text \<open>The open connections of a subnet that were let in although not exempt.\<close>

definition admitted :: "subnet_key \<Rightarrow> 'p live_conn list \<Rightarrow> 'p live_conn list" where
  "admitted sn live =
     filter (\<lambda>(i, a, e, v). \<not> e \<and> v = Allow \<and> subnet a = Some sn) live"

definition limits_inv :: "nat \<Rightarrow> subnet_limits \<times> 'p live_conn list \<Rightarrow> bool" where
  "limits_inv c s \<longleftrightarrow>
     subnet_cap (fst s) = c \<and> limits_refine (fst s) (live_subnets (snd s)) \<and>
     (\<forall>sn. length (admitted sn (snd s)) \<le> c)"

lemma live_subnets_Nil [simp]: "live_subnets [] = {#}"
  by (simp add: live_subnets_def)

lemma live_subnets_Cons [simp]:
  "live_subnets (c # live) = subnets_of (fst (snd c)) + live_subnets live"
  by (simp add: live_subnets_def)

lemma live_subnets_remove1:
  "c \<in> set live \<Longrightarrow> live_subnets live = subnets_of (fst (snd c)) + live_subnets (remove1 c live)"
  by (induction live) (auto simp: ac_simps)

lemma admitted_remove1: "length (admitted sn (remove1 c live)) \<le> length (admitted sn live)"
  unfolding admitted_def by (induction live) auto

lemma admitted_le_live: "length (admitted sn live) \<le> count (live_subnets live) sn"
proof (induction live)
  case (Cons c live)
  then show ?case
    by (cases c) (auto simp: admitted_def subnets_of_def split: option.splits)
qed (simp add: admitted_def)

lemma find_SomeD: "find P xs = Some x \<Longrightarrow> x \<in> set xs \<and> P x"
  by (auto simp: find_Some_iff)

lemma limits_inv_open:
  assumes inv: "limits_inv c (l, live)"
  shows "limits_inv c (limits_step (Open i a e) (l, live))"
proof -
  obtain v l' where step: "on_connection a e l = (v, l')" by fastforce
  from inv have cap: "subnet_cap l = c" and ref: "limits_refine l (live_subnets live)"
    and adm: "\<And>sn. length (admitted sn live) \<le> c"
    by (auto simp: limits_inv_def)
  have "subnet_cap l' = c" using on_connection_cap [of a e l] step cap by simp
  moreover have "limits_refine l' (subnets_of a + live_subnets live)"
    using limiter.connect_refine_add [OF ref, of a e] step by simp
  moreover have "length (admitted sn ((i, a, e, v) # live)) \<le> c" for sn
  proof (cases "\<not> e \<and> v = Allow \<and> subnet a = Some sn")
    case True
    then have "count (live_subnets live) sn < c"
      using limiter.allowed_below_cap [OF ref, of a sn] step cap by simp
    with admitted_le_live [of sn live] True show ?thesis
      by (simp add: admitted_def)
  next
    case False
    then have "admitted sn ((i, a, e, v) # live) = admitted sn live"
      by (simp add: admitted_def)
    with adm show ?thesis by simp
  qed
  ultimately show ?thesis using step by (simp add: limits_inv_def)
qed

lemma limits_inv_close:
  assumes inv: "limits_inv c (l, live)"
  shows "limits_inv c (limits_step (Close i) (l, live))"
proof (cases "find (\<lambda>c. fst c = i) live")
  case (Some d)
  then have d: "d \<in> set live" by (blast dest: find_SomeD)
  with inv have "limits_refine l (subnets_of (fst (snd d)) + live_subnets (remove1 d live))"
    by (simp add: limits_inv_def live_subnets_remove1 [symmetric])
  then have "limits_refine (on_disconnection (fst (snd d)) l) (live_subnets (remove1 d live))"
    by (rule limiter.disconnect_refine_remove)
  with inv Some show ?thesis
    by (auto simp: limits_inv_def intro: le_trans [OF admitted_remove1])
qed (use inv in simp)

lemma limits_inv_step: "limits_inv c s \<Longrightarrow> limits_inv c (limits_step ev s)"
  by (cases s; cases ev) (simp_all only: limits_inv_open limits_inv_close)

lemma limits_inv_run: "limits_inv c (limits_run c evs)"
proof -
  have "limits_inv c s \<Longrightarrow> limits_inv c (fold limits_step evs s)" for s
    by (induction evs arbitrary: s) (simp_all add: limits_inv_step del: split_paired_All)
  moreover have "limits_inv c (subnet_limits_new c, [])"
    by (simp add: limits_inv_def limits_refine_new admitted_def subnet_limits_new_def
        limits_refine_new [unfolded subnet_limits_new_def])
  ultimately show ?thesis by (simp add: limits_run_def)
qed

end
