(* ===== verification/Peer_Store.thy ===== *)
theory Peer_Store
  imports Multiaddr
begin

section \<open>The persisted peer store (src/p2p/peerstore.rs)\<close>

text \<open>
  \<open>PeerStore\<close> maps the text of a peer id to the texts of its known addresses (at most
  eight, oldest first) and the Unix second it was last seen. Peer ids and addresses are
  printed and parsed by libp2p: the printers and parsers are arguments. So are
  serde\_json's printer and parser of the store, and the file system's answers: an operation
  on the file system takes the fault that strikes it, if any.

  Unix times are \<open>u64\<close> seconds; the code only compares them and subtracts with saturation,
  which is the subtraction of \<open>nat\<close>.
\<close>

record peer_record =
  addrs :: "string list"
  last_seen_unix :: nat

record peer_store =
  peers :: "string \<rightharpoonup> peer_record"

definition peer_store_default :: peer_store where
  "peer_store_default = \<lparr>peers = Map.empty\<rparr>"

definition max_addrs_per_peer :: nat where
  "max_addrs_per_peer = 8"

subsection \<open>Recording addresses\<close>

definition push_addr :: "string \<Rightarrow> string list \<Rightarrow> string list" where
  "push_addr addr known =
     (if addr \<in> set known then known
      else let known' = known @ [addr]
           in if length known' > max_addrs_per_peer then tl known' else known')"

definition record_peer ::
    "('p \<Rightarrow> string) \<Rightarrow> ('a \<Rightarrow> string) \<Rightarrow> 'p \<Rightarrow> 'a list \<Rightarrow> nat \<Rightarrow> peer_store \<Rightarrow> peer_store" where
  "record_peer peer_to_string addr_to_string peer_id new_addrs now st =
     (let key = peer_to_string peer_id;
          record0 = (case peers st key of
                       None \<Rightarrow> \<lparr>addrs = [], last_seen_unix = now\<rparr>
                     | Some r \<Rightarrow> r);
          record1 = record0\<lparr>last_seen_unix := now\<rparr>;
          record2 = record1\<lparr>addrs := fold (\<lambda>a. push_addr (addr_to_string a)) new_addrs (addrs record1)\<rparr>
      in st\<lparr>peers := (peers st)(key \<mapsto> record2)\<rparr>)"

text \<open>\<open>dial_candidates\<close> visits the map in the order \<open>ord\<close>.\<close>

definition dial_candidates ::
    "(string \<Rightarrow> 'p option) \<Rightarrow> (string \<Rightarrow> 'a option) \<Rightarrow> string list \<Rightarrow> nat \<Rightarrow> nat \<Rightarrow> peer_store
      \<Rightarrow> ('p \<times> 'a) list" where
  "dial_candidates parse_peer parse_addr ord max_age_secs now st =
     concat (map (\<lambda>(key, r).
       if now - last_seen_unix r > max_age_secs then []
       else case parse_peer key of
              None \<Rightarrow> []
            | Some peer_id \<Rightarrow> map (Pair peer_id) (List.map_filter parse_addr (addrs r)))
     (entries (peers st) ord))"

subsection \<open>Loading and saving\<close>

text \<open>
  A path is the text of its directory part and its file name, if it has one;
  \<open>Path::file_stem\<close> cuts the last dot and what follows, unless the name has no dot or only a
  leading one.
\<close>

type_synonym path = "string \<times> string option"

definition file_stem :: "string \<Rightarrow> string" where
  "file_stem name =
     (let before = rev (tl (dropWhile (\<lambda>c. c \<noteq> CHR ''.'') (rev name)))
      in if CHR ''.'' \<notin> set name \<or> before = [] then name else before)"

definition with_extension :: "path \<Rightarrow> string \<Rightarrow> path" where
  "with_extension p ext =
     (case snd p of
        None \<Rightarrow> p
      | Some name \<Rightarrow> (fst p, Some (file_stem name @ ''.'' @ ext)))"

type_synonym filesystem = "path \<rightharpoonup> string"

datatype io_error = NotFound | OtherIo string

text \<open>
  A write that fails (or during which the process dies) leaves arbitrary contents, or nothing,
  at the path it wrote to. A failing rename changes nothing, and a rename is atomic.
\<close>

datatype write_fault = WriteFault io_error "string option"

definition fs_read :: "io_error option \<Rightarrow> path \<Rightarrow> filesystem \<Rightarrow> io_error + string" where
  "fs_read fault p fs =
     (case fault of
        Some e \<Rightarrow> Inl e
      | None \<Rightarrow> (case fs p of None \<Rightarrow> Inl NotFound | Some c \<Rightarrow> Inr c))"

definition fs_write ::
    "write_fault option \<Rightarrow> path \<Rightarrow> string \<Rightarrow> filesystem \<Rightarrow> (io_error + unit) \<times> filesystem" where
  "fs_write fault p contents fs =
     (case fault of
        Some (WriteFault e left) \<Rightarrow> (Inl e, fs(p := left))
      | None \<Rightarrow> (Inr (), fs(p \<mapsto> contents)))"

definition fs_rename ::
    "io_error option \<Rightarrow> path \<Rightarrow> path \<Rightarrow> filesystem \<Rightarrow> (io_error + unit) \<times> filesystem" where
  "fs_rename fault p q fs =
     (case fault of
        Some e \<Rightarrow> (Inl e, fs)
      | None \<Rightarrow>
          (case fs p of
             None \<Rightarrow> (Inl NotFound, fs)
           | Some c \<Rightarrow> (Inr (), (fs(p := None))(q \<mapsto> c))))"

text \<open>The store is empty when the file cannot be read or is not a store.\<close>

definition load :: "(string \<Rightarrow> peer_store option) \<Rightarrow> io_error + string \<Rightarrow> peer_store" where
  "load from_json read =
     (case read of
        Inr contents \<Rightarrow>
          (case from_json contents of Some st \<Rightarrow> st | None \<Rightarrow> peer_store_default)
      | Inl _ \<Rightarrow> peer_store_default)"

definition save ::
    "(peer_store \<Rightarrow> io_error + string) \<Rightarrow> write_fault option \<Rightarrow> io_error option \<Rightarrow> path
      \<Rightarrow> peer_store \<Rightarrow> filesystem \<Rightarrow> (io_error + unit) \<times> filesystem" where
  "save to_json wfault rfault p st fs =
     (let tmp_path = with_extension p ''json.tmp''
      in case to_json st of
           Inl e \<Rightarrow> (Inl e, fs)
         | Inr contents \<Rightarrow>
             (case fs_write wfault tmp_path contents fs of
                (Inl e, fs1) \<Rightarrow> (Inl e, fs1)
              | (Inr _, fs1) \<Rightarrow> fs_rename rfault tmp_path p fs1))"

subsection \<open>What recording does\<close>

lemma push_addr_distinct: "distinct known \<Longrightarrow> distinct (push_addr a known)"
  by (auto simp: push_addr_def Let_def distinct_tl)

lemma push_addr_length:
  "length known \<le> max_addrs_per_peer \<Longrightarrow> length (push_addr a known) \<le> max_addrs_per_peer"
  by (auto simp: push_addr_def Let_def)

lemma push_addr_mem: "a \<in> set (push_addr a known)"
  by (cases known) (auto simp: push_addr_def Let_def max_addrs_per_peer_def)

lemma push_addr_subset: "set (push_addr a known) \<subseteq> insert a (set known)"
  by (cases known) (auto simp: push_addr_def Let_def)

lemma push_addr_known: "a \<in> set known \<Longrightarrow> push_addr a known = known"
  by (simp add: push_addr_def)

lemma fold_push_distinct: "distinct known \<Longrightarrow> distinct (fold push_addr as known)"
  by (induction as arbitrary: known) (simp_all add: push_addr_distinct)

lemma fold_push_length:
  "length known \<le> max_addrs_per_peer \<Longrightarrow> length (fold push_addr as known) \<le> max_addrs_per_peer"
  by (induction as arbitrary: known) (simp_all add: push_addr_length)

lemma fold_push_subset: "set (fold push_addr as known) \<subseteq> set as \<union> set known"
proof (induction as arbitrary: known)
  case (Cons a as)
  have "set (fold push_addr (a # as) known) \<subseteq> set as \<union> set (push_addr a known)"
    using Cons.IH by simp
  also have "\<dots> \<subseteq> set (a # as) \<union> set known" using push_addr_subset [of a known] by auto
  finally show ?case .
qed simp

lemma fold_push_last: "as \<noteq> [] \<Longrightarrow> last as \<in> set (fold push_addr as known)"
  by (cases as rule: rev_cases) (simp_all add: push_addr_mem)

definition known_addrs :: "peer_store \<Rightarrow> string \<Rightarrow> string list" where
  "known_addrs st key = (case peers st key of None \<Rightarrow> [] | Some r \<Rightarrow> addrs r)"

definition seen_at :: "peer_store \<Rightarrow> string \<Rightarrow> nat option" where
  "seen_at st key = map_option last_seen_unix (peers st key)"

lemma fold_map_fun: "fold (\<lambda>a. f (g a)) xs = fold f (map g xs)"
  by (simp add: fold_map comp_def)

lemma known_record:
  "known_addrs (record_peer ps as p xs now st) key =
     (if key = ps p then fold push_addr (map as xs) (known_addrs st key) else known_addrs st key)"
  by (auto simp: record_peer_def known_addrs_def Let_def fold_map_fun split: option.split)

lemma seen_record:
  "seen_at (record_peer ps as p xs now st) key = (if key = ps p then Some now else seen_at st key)"
  by (simp add: record_peer_def seen_at_def Let_def split: option.split)

lemma record_peer_text:
  "record_peer ps as p xs now st = record_peer id id (ps p) (map as xs) now st"
  by (simp add: record_peer_def Let_def fold_map_fun comp_def id_def)

lemma peers_known_seen:
  "peers st key = None \<longleftrightarrow> seen_at st key = None"
  "peers st key = Some r \<longleftrightarrow>
     seen_at st key = Some (last_seen_unix r) \<and> known_addrs st key = addrs r"
  by (auto simp: seen_at_def known_addrs_def split: option.splits)

subsection \<open>The interface its clients rely on\<close>

text \<open>
  An address book holds, per key, a bounded list of distinct addresses and the time of the last
  recording. The event loop records; the maintenance loop reads what is known. Inside the
  locale: what holds after any history of recordings.
\<close>

locale address_book =
  fixes insert_at :: "string \<Rightarrow> string list \<Rightarrow> nat \<Rightarrow> 's \<Rightarrow> 's"
    and known :: "'s \<Rightarrow> string \<Rightarrow> string list"
    and seen :: "'s \<Rightarrow> string \<Rightarrow> nat option"
    and bound :: nat
  assumes known_other: "k \<noteq> key \<Longrightarrow> known (insert_at key xs t s) k = known s k"
    and known_last: "xs \<noteq> [] \<Longrightarrow> last xs \<in> set (known (insert_at key xs t s) key)"
    and known_subset: "set (known (insert_at key xs t s) key) \<subseteq> set xs \<union> set (known s key)"
    and known_distinct: "distinct (known s key) \<Longrightarrow> distinct (known (insert_at key xs t s) key)"
    and known_bound:
      "length (known s key) \<le> bound \<Longrightarrow> length (known (insert_at key xs t s) key) \<le> bound"
    and seen_insert: "seen (insert_at key xs t s) k = (if k = key then Some t else seen s k)"
begin

text \<open>A history is a list of recordings, the oldest first.\<close>

lemma history_bound:
  "\<forall>k. distinct (known s k) \<and> length (known s k) \<le> bound \<Longrightarrow>
   \<forall>k. distinct (known (fold (\<lambda>(key, xs, t). insert_at key xs t) h s) k) \<and>
       length (known (fold (\<lambda>(key, xs, t). insert_at key xs t) h s) k) \<le> bound"
proof (induction h arbitrary: s)
  case (Cons e h)
  obtain key xs t where e: "e = (key, xs, t)" by (cases e)
  have "distinct (known (insert_at key xs t s) k) \<and> length (known (insert_at key xs t s) k) \<le> bound"
    for k
    using Cons.prems known_other known_distinct known_bound by (cases "k = key") auto
  with Cons.IH [of "insert_at key xs t s"] show ?case by (simp add: e)
qed simp

lemma history_source:
  "x \<in> set (known (fold (\<lambda>(key, xs, t). insert_at key xs t) h s) k) \<Longrightarrow>
     x \<in> set (known s k) \<or> (\<exists>xs t. (k, xs, t) \<in> set h \<and> x \<in> set xs)"
proof (induction h arbitrary: s)
  case (Cons e h)
  obtain key xs t where e: "e = (key, xs, t)" by (cases e)
  have "x \<in> set (known (insert_at key xs t s) k) \<Longrightarrow>
      x \<in> set (known s k) \<or> (k = key \<and> x \<in> set xs)"
    using known_subset [of key xs t s] known_other [of k key xs t s] by (cases "k = key") auto
  moreover have "x \<in> set (known (insert_at key xs t s) k) \<or>
      (\<exists>xs t. (k, xs, t) \<in> set h \<and> x \<in> set xs)"
    using Cons.prems by (intro Cons.IH) (simp add: e)
  ultimately show ?case by (auto simp: e)
qed simp

lemma history_latest:
  assumes "xs \<noteq> []"
  shows "last xs \<in> set (known (fold (\<lambda>(key, xs, t). insert_at key xs t) (h @ [(k, xs, t)]) s) k)"
    "seen (fold (\<lambda>(key, xs, t). insert_at key xs t) (h @ [(k, xs, t)]) s) k = Some t"
  using assms by (simp_all add: known_last seen_insert)

end

interpretation book: address_book "record_peer id id" known_addrs seen_at max_addrs_per_peer
proof unfold_locales
  fix xs :: "string list" and key t s
  show "set (known_addrs (record_peer id id key xs t s) key) \<subseteq> set xs \<union> set (known_addrs s key)"
    using fold_push_subset [of xs "known_addrs s key"] by (simp add: known_record)
qed (simp_all add: known_record seen_record fold_push_last fold_push_distinct fold_push_length)

subsection \<open>Candidates, loading, saving\<close>

lemma set_dial_candidates:
  assumes "iterates (dom (peers st)) ord"
  shows "(p, a) \<in> set (dial_candidates pp pa ord age now st) \<longleftrightarrow>
    (\<exists>key seen x. seen_at st key = Some seen \<and> now - seen \<le> age \<and> pp key = Some p \<and>
       x \<in> set (known_addrs st key) \<and> pa x = Some a)"
proof -
  let ?from = "\<lambda>(key, r). if now - last_seen_unix r > age then []
    else case pp key of None \<Rightarrow> [] | Some p \<Rightarrow> map (Pair p) (List.map_filter pa (addrs r))"
  have from_iff: "(p, a) \<in> set (?from (key, r)) \<longleftrightarrow>
      now - last_seen_unix r \<le> age \<and> pp key = Some p \<and> (\<exists>x \<in> set (addrs r). pa x = Some a)" for key r
    by (auto simp: set_map_filter image_iff split: option.split)
  have "(key, r) \<in> set (entries (peers st) ord) \<longleftrightarrow> peers st key = Some r" for key r
    using iterates_set [OF assms] by (auto simp: set_entries)
  then have "(p, a) \<in> set (dial_candidates pp pa ord age now st) \<longleftrightarrow>
      (\<exists>key r. peers st key = Some r \<and> (p, a) \<in> set (?from (key, r)))"
    unfolding dial_candidates_def in_concat_map_pair by simp
  also have "\<dots> \<longleftrightarrow> (\<exists>key seen x. seen_at st key = Some seen \<and> now - seen \<le> age \<and>
      pp key = Some p \<and> x \<in> set (known_addrs st key) \<and> pa x = Some a)"
    unfolding from_iff by (force simp: seen_at_def known_addrs_def)
  finally show ?thesis .
qed

lemma file_stem_no_dot: "CHR ''.'' \<notin> set name \<Longrightarrow> file_stem name = name"
  by (simp add: file_stem_def)

lemma drop_after_last_dot:
  assumes "CHR ''.'' \<in> set name"
  shows "\<exists>ext. name = rev (tl (dropWhile (\<lambda>c. c \<noteq> CHR ''.'') (rev name))) @ ''.'' @ ext \<and>
    CHR ''.'' \<notin> set ext"
proof -
  from split_list_last [OF assms] obtain ys zs where
    "name = ys @ CHR ''.'' # zs" "CHR ''.'' \<notin> set zs" by blast
  moreover have "dropWhile (\<lambda>c. c \<noteq> CHR ''.'') (rev zs @ CHR ''.'' # rev ys) = CHR ''.'' # rev ys"
    using \<open>CHR ''.'' \<notin> set zs\<close> by (subst dropWhile_append2) auto
  ultimately show ?thesis by auto
qed

lemma with_extension_neq:
  assumes "CHR ''.'' \<in> set ext"
  shows "file_stem name @ ''.'' @ ext \<noteq> name"
proof (cases "file_stem name = name")
  case False
  then have dot: "CHR ''.'' \<in> set name"
    and stem: "file_stem name = rev (tl (dropWhile (\<lambda>c. c \<noteq> CHR ''.'') (rev name)))"
    by (auto simp: file_stem_def Let_def split: if_splits)
  from drop_after_last_dot [OF dot] obtain ext' where
    name: "name = file_stem name @ ''.'' @ ext'" and ext': "CHR ''.'' \<notin> set ext'"
    unfolding stem by blast
  show ?thesis
  proof
    assume "file_stem name @ ''.'' @ ext = name"
    then have "ext = ext'" using name by (metis append.assoc append_same_eq same_append_eq)
    with assms ext' show False by simp
  qed
qed simp

lemma tmp_path_neq: "with_extension (d, Some name) ''json.tmp'' \<noteq> (d, Some name)"
  using with_extension_neq [of "''json.tmp''" name] by (simp add: with_extension_def)

end
