(* ===== verification/Subscription_Fanout.thy ===== *)
theory Subscription_Fanout
  imports P2P_Prelude
begin

section \<open>Fan-out of pubsub messages to local consumers (src/subscriptions.rs)\<close>

text \<open>
  \<open>Subscriptions\<close> keeps one \<open>tokio::sync::broadcast\<close> channel per topic, created by the
  first subscription with the registry's capacity and never removed. The channel is tokio's:
  its operations are a parameter (\<open>broadcast_ops\<close>), over an abstract channel state \<open>'c\<close>
  and receiver handle \<open>'r\<close>; what the service relies on of them is \<open>broadcast_ok\<close>, the
  documented behaviour of the channel.
\<close>

record envelope =
  topic :: string
  source_peer_id :: string
  data :: "u8 list"
  received_at_millis :: nat

text \<open>\<open>broadcast::error::RecvError\<close>, a received value, or nothing to receive yet.\<close>

datatype recv_result = Received envelope | Lagged nat | Closed | Pending

record ('c, 'r) broadcast_ops =
  bc_channel :: "nat \<Rightarrow> 'c"
  bc_subscribe :: "'c \<Rightarrow> 'c \<times> 'r"
  bc_send :: "envelope \<Rightarrow> 'c \<Rightarrow> nat option \<times> 'c"
  bc_recv :: "'r \<Rightarrow> 'c \<Rightarrow> recv_result \<times> 'c"
  bc_drop :: "'r \<Rightarrow> 'c \<Rightarrow> 'c"

record 'c subscriptions =
  capacity :: nat
  senders :: "string \<rightharpoonup> 'c"

definition subscriptions_new :: "nat \<Rightarrow> 'c subscriptions" where
  "subscriptions_new n = \<lparr>capacity = n, senders = Map.empty\<rparr>"

definition subscribe ::
    "('c, 'r) broadcast_ops \<Rightarrow> string \<Rightarrow> 'c subscriptions \<Rightarrow> 'r \<times> 'c subscriptions" where
  "subscribe ops t s =
     (let sender = (case senders s t of
                      None \<Rightarrow> bc_channel ops (capacity s)
                    | Some ch \<Rightarrow> ch);
          (sender', receiver) = bc_subscribe ops sender
      in (receiver, s\<lparr>senders := (senders s)(t \<mapsto> sender')\<rparr>))"

text \<open>
  A receiver handle names its channel: receiving and dropping act on the topic's channel, which
  exists as long as the registry does.
\<close>

definition receive ::
    "('c, 'r) broadcast_ops \<Rightarrow> string \<Rightarrow> 'r \<Rightarrow> 'c subscriptions \<Rightarrow> recv_result \<times> 'c subscriptions" where
  "receive ops t r s =
     (case senders s t of
        None \<Rightarrow> (Closed, s)
      | Some ch \<Rightarrow>
          (case bc_recv ops r ch of
             (res, ch') \<Rightarrow> (res, s\<lparr>senders := (senders s)(t \<mapsto> ch')\<rparr>)))"

definition drop_receiver ::
    "('c, 'r) broadcast_ops \<Rightarrow> string \<Rightarrow> 'r \<Rightarrow> 'c subscriptions \<Rightarrow> 'c subscriptions" where
  "drop_receiver ops t r s =
     (case senders s t of
        None \<Rightarrow> s
      | Some ch \<Rightarrow> s\<lparr>senders := (senders s)(t \<mapsto> bc_drop ops r ch)\<rparr>)"

text \<open>\<open>sender.send(..).unwrap_or(0)\<close>: a send without receivers fails and counts as 0.\<close>

definition publish ::
    "('c, 'r) broadcast_ops \<Rightarrow> envelope \<Rightarrow> 'c subscriptions \<Rightarrow> nat \<times> 'c subscriptions" where
  "publish ops env s =
     (case senders s (topic env) of
        Some sender \<Rightarrow>
          (case bc_send ops env sender of
             (r, sender') \<Rightarrow>
               (case r of Some n \<Rightarrow> n | None \<Rightarrow> 0,
                s\<lparr>senders := (senders s)(topic env \<mapsto> sender')\<rparr>))
      | None \<Rightarrow> (0, s))"

subsection \<open>What is relied on of the broadcast channel\<close>

text \<open>
  A channel has a set of active receivers, a room (the messages it retains), and for each
  active receiver the queue of retained messages it has not received and the number of messages
  it missed since it was last told. A new channel has no receiver (the service drops the first)
  and retains at least the requested number of messages; a new receiver starts with nothing and
  disturbs no other; a send appends to every active receiver's queue, dropping the oldest beyond
  the room, and reports how many receivers there are, failing when there is none. Receiving
  reports the missed messages first, then the queue in order; dropping a receiver removes it.
\<close>

definition newest :: "nat \<Rightarrow> 'a list \<Rightarrow> 'a list" where
  "newest n xs = drop (length xs - n) xs"

record ('c, 'r) broadcast_view =
  active :: "'c \<Rightarrow> 'r set"
  room :: "'c \<Rightarrow> nat"
  queued :: "'c \<Rightarrow> 'r \<Rightarrow> envelope list"
  missed :: "'c \<Rightarrow> 'r \<Rightarrow> nat"

definition channel_law :: "('c, 'r) broadcast_ops \<Rightarrow> ('c, 'r) broadcast_view \<Rightarrow> bool" where
  "channel_law ops v \<longleftrightarrow>
     (\<forall>n. n \<le> room v (bc_channel ops n) \<and> active v (bc_channel ops n) = {})"

definition subscribe_law :: "('c, 'r) broadcast_ops \<Rightarrow> ('c, 'r) broadcast_view \<Rightarrow> bool" where
  "subscribe_law ops v \<longleftrightarrow>
     (\<forall>ch ch' r. bc_subscribe ops ch = (ch', r) \<longrightarrow>
        r \<notin> active v ch \<and> active v ch' = insert r (active v ch) \<and> room v ch' = room v ch \<and>
        queued v ch' r = [] \<and> missed v ch' r = 0 \<and>
        (\<forall>q \<in> active v ch. queued v ch' q = queued v ch q \<and> missed v ch' q = missed v ch q))"

definition send_law :: "('c, 'r) broadcast_ops \<Rightarrow> ('c, 'r) broadcast_view \<Rightarrow> bool" where
  "send_law ops v \<longleftrightarrow>
     (\<forall>ch ch' env res. bc_send ops env ch = (res, ch') \<longrightarrow>
        active v ch' = active v ch \<and> room v ch' = room v ch \<and>
        res = (if active v ch = {} then None else Some (card (active v ch))) \<and>
        (\<forall>q \<in> active v ch. queued v ch' q = newest (room v ch) (queued v ch q @ [env]) \<and>
           missed v ch' q = missed v ch q + (length (queued v ch q) + 1 - room v ch)))"

definition recv_law :: "('c, 'r) broadcast_ops \<Rightarrow> ('c, 'r) broadcast_view \<Rightarrow> bool" where
  "recv_law ops v \<longleftrightarrow>
     (\<forall>ch ch' r res. r \<in> active v ch \<longrightarrow> bc_recv ops r ch = (res, ch') \<longrightarrow>
        active v ch' = active v ch \<and> room v ch' = room v ch \<and>
        res = (if missed v ch r > 0 then Lagged (missed v ch r)
               else case queued v ch r of [] \<Rightarrow> Pending | env # _ \<Rightarrow> Received env) \<and>
        queued v ch' r = (if missed v ch r > 0 then queued v ch r else tl (queued v ch r)) \<and>
        missed v ch' r = 0 \<and>
        (\<forall>q \<in> active v ch - {r}. queued v ch' q = queued v ch q \<and> missed v ch' q = missed v ch q))"

definition drop_law :: "('c, 'r) broadcast_ops \<Rightarrow> ('c, 'r) broadcast_view \<Rightarrow> bool" where
  "drop_law ops v \<longleftrightarrow>
     (\<forall>ch r. active v (bc_drop ops r ch) = active v ch - {r} \<and> room v (bc_drop ops r ch) = room v ch \<and>
        (\<forall>q \<in> active v ch - {r}. queued v (bc_drop ops r ch) q = queued v ch q \<and>
           missed v (bc_drop ops r ch) q = missed v ch q))"

definition broadcast_ok :: "('c, 'r) broadcast_ops \<Rightarrow> ('c, 'r) broadcast_view \<Rightarrow> bool" where
  "broadcast_ok ops v \<longleftrightarrow>
     channel_law ops v \<and> subscribe_law ops v \<and> send_law ops v \<and> recv_law ops v \<and> drop_law ops v"

lemma broadcast_ok_channel:
  assumes "broadcast_ok ops v"
  shows "n \<le> room v (bc_channel ops n)" "active v (bc_channel ops n) = {}"
  using assms by (simp_all add: broadcast_ok_def channel_law_def)

lemma broadcast_ok_subscribe:
  assumes "broadcast_ok ops v" "bc_subscribe ops ch = (ch', r)"
  shows "r \<notin> active v ch" "active v ch' = insert r (active v ch)" "room v ch' = room v ch"
    "queued v ch' r = []" "q \<in> active v ch \<Longrightarrow> queued v ch' q = queued v ch q"
    "missed v ch' r = 0" "q \<in> active v ch \<Longrightarrow> missed v ch' q = missed v ch q"
proof -
  have "subscribe_law ops v" using assms(1) by (simp add: broadcast_ok_def)
  note law = this [unfolded subscribe_law_def, rule_format, OF assms(2)]
  from law show "r \<notin> active v ch" "active v ch' = insert r (active v ch)" "room v ch' = room v ch"
    "queued v ch' r = []" "q \<in> active v ch \<Longrightarrow> queued v ch' q = queued v ch q"
    "missed v ch' r = 0" "q \<in> active v ch \<Longrightarrow> missed v ch' q = missed v ch q" by simp_all
qed

lemma broadcast_ok_send:
  assumes "broadcast_ok ops v" "bc_send ops env ch = (res, ch')"
  shows "active v ch' = active v ch" "room v ch' = room v ch"
    "res = (if active v ch = {} then None else Some (card (active v ch)))"
    "q \<in> active v ch \<Longrightarrow> queued v ch' q = newest (room v ch) (queued v ch q @ [env])"
    "q \<in> active v ch \<Longrightarrow>
       missed v ch' q = missed v ch q + (length (queued v ch q) + 1 - room v ch)"
proof -
  have "send_law ops v" using assms(1) by (simp add: broadcast_ok_def)
  note law = this [unfolded send_law_def, rule_format, OF assms(2)]
  from law show "active v ch' = active v ch" "room v ch' = room v ch"
    "res = (if active v ch = {} then None else Some (card (active v ch)))"
    "q \<in> active v ch \<Longrightarrow> queued v ch' q = newest (room v ch) (queued v ch q @ [env])"
    "q \<in> active v ch \<Longrightarrow>
       missed v ch' q = missed v ch q + (length (queued v ch q) + 1 - room v ch)" by blast+
qed

lemma broadcast_ok_recv:
  assumes "broadcast_ok ops v" "bc_recv ops r ch = (res, ch')" "r \<in> active v ch"
  shows "active v ch' = active v ch" "room v ch' = room v ch"
    "res = (if missed v ch r > 0 then Lagged (missed v ch r)
               else case queued v ch r of [] \<Rightarrow> Pending | env # _ \<Rightarrow> Received env)"
    "queued v ch' r = (if missed v ch r > 0 then queued v ch r else tl (queued v ch r))"
    "missed v ch' r = 0"
proof -
  have "recv_law ops v" using assms(1) by (simp add: broadcast_ok_def)
  note law = this [unfolded recv_law_def, rule_format, OF assms(3,2)]
  from law show "active v ch' = active v ch" "room v ch' = room v ch"
    "res = (if missed v ch r > 0 then Lagged (missed v ch r)
               else case queued v ch r of [] \<Rightarrow> Pending | env # _ \<Rightarrow> Received env)"
    "queued v ch' r = (if missed v ch r > 0 then queued v ch r else tl (queued v ch r))"
    "missed v ch' r = 0" by blast+
qed

lemma newest_all: "length xs \<le> n \<Longrightarrow> newest n xs = xs"
  by (simp add: newest_def)

lemma newest_newest_snoc: "newest n (newest n xs @ ys) = newest n (xs @ ys)"
  by (cases "length xs \<le> n") (simp_all add: newest_def drop_drop add.commute)

subsection \<open>Receivers of a topic\<close>

text \<open>The queue of a receiver of a topic, and the receivers of a topic.\<close>

definition topic_queue ::
    "('c, 'r) broadcast_view \<Rightarrow> 'c subscriptions \<Rightarrow> string \<Rightarrow> 'r \<Rightarrow> envelope list" where
  "topic_queue v s t r = (case senders s t of None \<Rightarrow> [] | Some ch \<Rightarrow> queued v ch r)"

definition topic_missed ::
    "('c, 'r) broadcast_view \<Rightarrow> 'c subscriptions \<Rightarrow> string \<Rightarrow> 'r \<Rightarrow> nat" where
  "topic_missed v s t r = (case senders s t of None \<Rightarrow> 0 | Some ch \<Rightarrow> missed v ch r)"

definition topic_receivers :: "('c, 'r) broadcast_view \<Rightarrow> 'c subscriptions \<Rightarrow> string \<Rightarrow> 'r set" where
  "topic_receivers v s t = (case senders s t of None \<Rightarrow> {} | Some ch \<Rightarrow> active v ch)"

definition topic_room :: "('c, 'r) broadcast_view \<Rightarrow> 'c subscriptions \<Rightarrow> string \<Rightarrow> nat" where
  "topic_room v s t = (case senders s t of None \<Rightarrow> 0 | Some ch \<Rightarrow> room v ch)"

lemma publish_other_topic:
  "t \<noteq> topic env \<Longrightarrow> senders (snd (publish ops env s)) t = senders s t"
  by (simp add: publish_def split: option.split prod.split)

lemma publish_senders:
  "senders (snd (publish ops env s)) t =
     (if t = topic env then map_option (\<lambda>ch. snd (bc_send ops env ch)) (senders s t) else senders s t)"
  by (simp add: publish_def split: option.split prod.split)

lemmas topic_view_defs = topic_receivers_def topic_room_def topic_queue_def topic_missed_def

lemma publish_view:
  assumes ok: "broadcast_ok ops v"
  shows "topic_receivers v (snd (publish ops env s)) t = topic_receivers v s t"
    "topic_room v (snd (publish ops env s)) t = topic_room v s t"
    "r \<in> topic_receivers v s t \<Longrightarrow> topic_queue v (snd (publish ops env s)) t r =
       (if t = topic env then newest (topic_room v s t) (topic_queue v s t r @ [env])
        else topic_queue v s t r)"
    "r \<in> topic_receivers v s t \<Longrightarrow> topic_missed v (snd (publish ops env s)) t r =
       topic_missed v s t r +
         (if t = topic env then length (topic_queue v s t r) + 1 - topic_room v s t else 0)"
proof -
  have law: "active v (snd (bc_send ops env ch)) = active v ch \<and> room v (snd (bc_send ops env ch)) = room v ch"
    "r \<in> active v ch \<Longrightarrow>
      queued v (snd (bc_send ops env ch)) r = newest (room v ch) (queued v ch r @ [env]) \<and>
      missed v (snd (bc_send ops env ch)) r =
        missed v ch r + (length (queued v ch r) + 1 - room v ch)" for ch
    using broadcast_ok_send [OF ok prod.collapse [symmetric]] by blast+
  show "topic_receivers v (snd (publish ops env s)) t = topic_receivers v s t"
    by (auto simp: publish_senders topic_receivers_def law(1) split: option.splits)
  show "topic_room v (snd (publish ops env s)) t = topic_room v s t"
    by (auto simp: publish_senders topic_room_def law(1) split: option.splits)
  assume r: "r \<in> topic_receivers v s t"
  then obtain ch where ch: "senders s t = Some ch" and act: "r \<in> active v ch"
    by (auto simp: topic_receivers_def split: option.splits)
  show "topic_queue v (snd (publish ops env s)) t r =
       (if t = topic env then newest (topic_room v s t) (topic_queue v s t r @ [env])
        else topic_queue v s t r)"
    using ch by (auto simp: publish_senders topic_queue_def topic_room_def law(2) [OF act])
  show "topic_missed v (snd (publish ops env s)) t r =
       topic_missed v s t r +
         (if t = topic env then length (topic_queue v s t r) + 1 - topic_room v s t else 0)"
    using ch
    by (auto simp: publish_senders topic_queue_def topic_room_def topic_missed_def law(2) [OF act])
qed

lemma receive_view:
  assumes ok: "broadcast_ok ops v" and r: "r \<in> topic_receivers v s t"
    and recv: "receive ops t r s = (res, s')"
  shows "topic_receivers v s' t = topic_receivers v s t" "topic_room v s' t = topic_room v s t"
    "res = (if topic_missed v s t r > 0 then Lagged (topic_missed v s t r)
            else case topic_queue v s t r of [] \<Rightarrow> Pending | env # _ \<Rightarrow> Received env)"
    "topic_queue v s' t r =
       (if topic_missed v s t r > 0 then topic_queue v s t r else tl (topic_queue v s t r))"
    "topic_missed v s' t r = 0"
proof -
  from r obtain ch where ch: "senders s t = Some ch" and act: "r \<in> active v ch"
    by (auto simp: topic_receivers_def split: option.splits)
  obtain res0 ch' where rc: "bc_recv ops r ch = (res0, ch')" by fastforce
  with recv ch have eq: "res = res0" "s' = s\<lparr>senders := (senders s)(t \<mapsto> ch')\<rparr>"
    by (auto simp: receive_def)
  have v: "topic_receivers v s t = active v ch" "topic_room v s t = room v ch"
    "topic_missed v s t r = missed v ch r" "topic_queue v s t r = queued v ch r"
    "topic_receivers v s' t = active v ch'" "topic_room v s' t = room v ch'"
    "topic_missed v s' t r = missed v ch' r" "topic_queue v s' t r = queued v ch' r"
    using ch eq(2)
    by (simp_all add: topic_receivers_def topic_room_def topic_queue_def topic_missed_def)
  note law = broadcast_ok_recv [OF ok rc act]
  show "topic_receivers v s' t = topic_receivers v s t" "topic_room v s' t = topic_room v s t"
    "topic_queue v s' t r =
       (if topic_missed v s t r > 0 then topic_queue v s t r else tl (topic_queue v s t r))"
    "topic_missed v s' t r = 0"
    unfolding v using law by simp_all
  show "res = (if topic_missed v s t r > 0 then Lagged (topic_missed v s t r)
            else case topic_queue v s t r of [] \<Rightarrow> Pending | env # _ \<Rightarrow> Received env)"
    unfolding v eq(1) by (rule law(3))
qed

lemma publish_count:
  assumes "broadcast_ok ops v"
  shows "fst (publish ops env s) = card (topic_receivers v s (topic env))"
proof (cases "senders s (topic env)")
  case (Some ch)
  obtain res ch' where send: "bc_send ops env ch = (res, ch')" by fastforce
  show ?thesis
    using broadcast_ok_send(3) [OF assms send] send Some
    by (simp add: publish_def topic_receivers_def split: if_splits)
qed (simp add: publish_def topic_receivers_def)

lemma subscribe_view:
  assumes ok: "broadcast_ok ops v" and sub: "subscribe ops t s = (r, s')"
  shows "topic_receivers v s' t = insert r (topic_receivers v s t)" "r \<notin> topic_receivers v s t"
    "topic_queue v s' t r = []" "t' \<noteq> t \<Longrightarrow> senders s' t' = senders s t'"
    "(if senders s t = None then capacity s else topic_room v s t) \<le> topic_room v s' t"
proof -
  define ch where "ch = (case senders s t of None \<Rightarrow> bc_channel ops (capacity s) | Some ch \<Rightarrow> ch)"
  obtain ch' r' where bc: "bc_subscribe ops ch = (ch', r')" by fastforce
  with sub have r: "r' = r" and s': "s' = s\<lparr>senders := (senders s)(t \<mapsto> ch')\<rparr>"
    by (auto simp: subscribe_def ch_def)
  have recv: "topic_receivers v s t = active v ch"
    by (simp add: topic_receivers_def ch_def broadcast_ok_channel(2) [OF ok] split: option.split)
  show "topic_receivers v s' t = insert r (topic_receivers v s t)" "r \<notin> topic_receivers v s t"
    "topic_queue v s' t r = []"
    unfolding recv using broadcast_ok_subscribe [OF ok bc]
    by (simp_all add: s' r topic_receivers_def topic_queue_def)
  show "t' \<noteq> t \<Longrightarrow> senders s' t' = senders s t'" by (simp add: s')
  show "(if senders s t = None then capacity s else topic_room v s t) \<le> topic_room v s' t"
    using broadcast_ok_subscribe(3) [OF ok bc] broadcast_ok_channel(1) [OF ok, of "capacity s"]
    by (auto simp: s' topic_room_def ch_def split: option.splits)
qed

lemma subscribe_missed:
  assumes ok: "broadcast_ok ops v" and sub: "subscribe ops t s = (r, s')"
  shows "topic_missed v s' t r = 0"
proof -
  define ch where "ch = (case senders s t of None \<Rightarrow> bc_channel ops (capacity s) | Some ch \<Rightarrow> ch)"
  obtain ch' r' where bc: "bc_subscribe ops ch = (ch', r')" by fastforce
  with sub have "r' = r" "s' = s\<lparr>senders := (senders s)(t \<mapsto> ch')\<rparr>"
    by (auto simp: subscribe_def ch_def)
  with broadcast_ok_subscribe(6) [OF ok bc] show ?thesis by (simp add: topic_missed_def)
qed

text \<open>What the operations on one receiver leave of every other receiver, on its topic or not.\<close>

definition same_place :: "('c, 'r) broadcast_view \<Rightarrow> string \<Rightarrow> 'r \<Rightarrow> 'c subscriptions \<Rightarrow> 'c subscriptions \<Rightarrow> bool" where
  "same_place v t r s s' \<longleftrightarrow>
     (r \<in> topic_receivers v s t \<longrightarrow> r \<in> topic_receivers v s' t) \<and>
     topic_queue v s' t r = topic_queue v s t r \<and> topic_missed v s' t r = topic_missed v s t r"

lemma same_place_senders: "senders s' t = senders s t \<Longrightarrow> same_place v t r s s'"
  by (simp add: same_place_def topic_view_defs)

lemma subscribe_others:
  assumes ok: "broadcast_ok ops v" and sub: "subscribe ops t s = (r, s')"
    and q: "q \<in> topic_receivers v s t'"
  shows "same_place v t' q s s'"
proof (cases "t' = t")
  case True
  with q obtain ch where ch: "senders s t = Some ch" "q \<in> active v ch"
    by (auto simp: topic_receivers_def split: option.splits)
  obtain ch' r' where bc: "bc_subscribe ops ch = (ch', r')" by fastforce
  with sub ch have "s' = s\<lparr>senders := (senders s)(t \<mapsto> ch')\<rparr>" by (auto simp: subscribe_def)
  with True ch show ?thesis
    by (simp add: same_place_def topic_view_defs broadcast_ok_subscribe [OF ok bc])
next
  case False
  with subscribe_view(4) [OF ok sub] show ?thesis by (intro same_place_senders) simp
qed

lemma receive_others:
  assumes ok: "broadcast_ok ops v" and recv: "receive ops t r s = (res, s')"
    and r: "r \<in> topic_receivers v s t" and q: "q \<in> topic_receivers v s t'" and other: "t' \<noteq> t \<or> q \<noteq> r"
  shows "same_place v t' q s s'"
proof -
  from r obtain ch where ch: "senders s t = Some ch" and act: "r \<in> active v ch"
    by (auto simp: topic_receivers_def split: option.splits)
  obtain res0 ch' where rc: "bc_recv ops r ch = (res0, ch')" by fastforce
  with recv ch have s': "s' = s\<lparr>senders := (senders s)(t \<mapsto> ch')\<rparr>" by (auto simp: receive_def)
  show ?thesis
  proof (cases "t' = t")
    case True
    have "recv_law ops v" using ok by (simp add: broadcast_ok_def)
    note law = this [unfolded recv_law_def, rule_format, OF act rc]
    from True q ch other have "q \<in> active v ch - {r}" by (simp add: topic_receivers_def)
    with law True ch show ?thesis by (simp add: s' same_place_def topic_view_defs)
  qed (simp add: s' same_place_senders)
qed

lemma drop_others:
  assumes ok: "broadcast_ok ops v" and q: "q \<in> topic_receivers v s t'" and other: "t' \<noteq> t \<or> q \<noteq> r"
  shows "same_place v t' q s (drop_receiver ops t r s)"
proof (cases "t' = t")
  case True
  from q True obtain ch where ch: "senders s t = Some ch" "q \<in> active v ch"
    by (auto simp: topic_receivers_def split: option.splits)
  have "drop_law ops v" using ok by (simp add: broadcast_ok_def)
  then have "q \<in> active v (bc_drop ops r ch) \<and> queued v (bc_drop ops r ch) q = queued v ch q \<and>
      missed v (bc_drop ops r ch) q = missed v ch q" if "q \<in> active v ch - {r}"
    using that unfolding drop_law_def by blast
  with True ch other show ?thesis by (simp add: drop_receiver_def same_place_def topic_view_defs)
next
  case False
  then show ?thesis by (intro same_place_senders) (simp add: drop_receiver_def split: option.split)
qed

text \<open>Publishing a list of messages, the first one first.\<close>

definition publish_all :: "('c, 'r) broadcast_ops \<Rightarrow> envelope list \<Rightarrow> 'c subscriptions
    \<Rightarrow> 'c subscriptions" where
  "publish_all ops envs s = fold (\<lambda>env s. snd (publish ops env s)) envs s"

lemma publish_all_queue:
  assumes ok: "broadcast_ok ops v" and r: "r \<in> topic_receivers v s t"
  shows "topic_queue v (publish_all ops envs s) t r =
    (if filter (\<lambda>e. topic e = t) envs = [] then topic_queue v s t r
     else newest (topic_room v s t) (topic_queue v s t r @ filter (\<lambda>e. topic e = t) envs))"
  using r
proof (induction envs arbitrary: s)
  case (Cons env envs)
  let ?s' = "snd (publish ops env s)"
  have "r \<in> topic_receivers v ?s' t" using Cons.prems by (simp add: publish_view [OF ok])
  from Cons.IH [OF this] Cons.prems show ?case
    by (auto simp: publish_all_def publish_view [OF ok] newest_newest_snoc)
qed (simp add: publish_all_def)

end
