(* ===== verification/Std_Text.thy ===== *)
theory Std_Text
  imports P2P_Prelude
begin

section \<open>Texts (str)\<close>

text \<open>
  The string functions of the Rust standard library that the service calls, on texts as lists of
  characters: \<open>lines\<close>, \<open>split_whitespace\<close> (on ASCII), \<open>starts_with\<close>, \<open>parse::<u64>\<close> and the
  decimal \<open>to_string\<close>, with the facts that relate them.
\<close>

subsection \<open>Lines and words\<close>

definition newline :: char where
  "newline = CHR 0x0A"

definition strip_cr :: "string \<Rightarrow> string" where
  "strip_cr cs = (if cs \<noteq> [] \<and> last cs = CHR 0x0D then butlast cs else cs)"

text \<open>\<open>str::lines\<close>: a carriage return is dropped only before a newline.\<close>

function str_lines :: "string \<Rightarrow> string list" where
  "str_lines cs =
     (if cs = [] then []
      else if newline \<in> set cs
      then strip_cr (takeWhile (\<lambda>c. c \<noteq> newline) cs) #
             str_lines (tl (dropWhile (\<lambda>c. c \<noteq> newline) cs))
      else [cs])"
  by pat_completeness auto

lemma length_tl_dropWhile: "cs \<noteq> [] \<Longrightarrow> length (tl (dropWhile P cs)) < length cs"
  using length_dropWhile_le [of P cs] by (cases cs) (auto simp: diff_less_Suc le_imp_less_Suc less_Suc_eq_le intro: le_trans [OF diff_le_self])

termination str_lines
  by (relation "measure length") (simp_all add: length_tl_dropWhile del: length_tl)

declare str_lines.simps [simp del]

definition is_whitespace :: "char \<Rightarrow> bool" where
  "is_whitespace c \<longleftrightarrow> c \<in> set [CHR '' '', CHR 0x09, CHR 0x0A, CHR 0x0B, CHR 0x0C, CHR 0x0D]"

function split_whitespace :: "string \<Rightarrow> string list" where
  "split_whitespace cs =
     (if dropWhile is_whitespace cs = [] then []
      else takeWhile (\<lambda>c. \<not> is_whitespace c) (dropWhile is_whitespace cs) #
             split_whitespace (dropWhile (\<lambda>c. \<not> is_whitespace c) (dropWhile is_whitespace cs)))"
  by pat_completeness auto

lemma split_whitespace_decreases:
  assumes "dropWhile is_whitespace cs \<noteq> []"
  shows "length (dropWhile (\<lambda>c. \<not> is_whitespace c) (dropWhile is_whitespace cs)) < length cs"
proof -
  from assms obtain d ds where d: "dropWhile is_whitespace cs = d # ds" by (meson neq_Nil_conv)
  then have "\<not> is_whitespace d" by (metis dropWhile_eq_Cons_conv)
  then have "length (dropWhile (\<lambda>c. \<not> is_whitespace c) (d # ds)) \<le> length ds"
    by (simp add: length_dropWhile_le)
  also have "\<dots> < length cs"
    using length_dropWhile_le [of is_whitespace cs] d by simp
  finally show ?thesis by (simp only: d)
qed

termination split_whitespace
  by (relation "measure length") (simp_all add: split_whitespace_decreases)

declare split_whitespace.simps [simp del]

definition starts_with :: "string \<Rightarrow> string \<Rightarrow> bool" where
  "starts_with prefix cs \<longleftrightarrow> take (length prefix) cs = prefix"

subsection \<open>Numbers\<close>

text \<open>\<open>str::parse::<u64>\<close>: an optional plus sign, at least one digit, no overflow.\<close>

definition digit_of :: "char \<Rightarrow> nat option" where
  "digit_of c = (let n = of_char c in if 48 \<le> n \<and> n \<le> 57 then Some (n - 48) else None)"

fun digits_value :: "nat \<Rightarrow> string \<Rightarrow> nat option" where
  "digits_value acc [] = Some acc"
| "digits_value acc (c # cs) =
     (case digit_of c of
        None \<Rightarrow> None
      | Some d \<Rightarrow> (let acc' = 10 * acc + d in if acc' < 2 ^ 64 then digits_value acc' cs else None))"

definition parse_u64 :: "string \<Rightarrow> u64 option" where
  "parse_u64 cs =
     (let ds = (if cs \<noteq> [] \<and> hd cs = CHR ''+'' then tl cs else cs)
      in if ds = [] then None else map_option of_nat (digits_value 0 ds))"

text \<open>\<open>u64::to_string\<close>: the decimal digits, the most significant first.\<close>

fun decimal :: "nat \<Rightarrow> string" where
  "decimal n =
     (if n < 10 then [char_of (48 + n)] else decimal (n div 10) @ [char_of (48 + n mod 10)])"

declare decimal.simps [simp del]

definition u64_to_string :: "u64 \<Rightarrow> string" where
  "u64_to_string w = decimal (unat w)"

lemma digit_of_digit [simp]: "d < 10 \<Longrightarrow> digit_of (char_of (48 + d)) = Some d"
  by (simp add: digit_of_def Let_def)

lemma digits_value_append:
  "digits_value acc (xs @ ys) = Option.bind (digits_value acc xs) (\<lambda>acc'. digits_value acc' ys)"
  by (induction acc xs rule: digits_value.induct) (auto simp: Let_def split: option.splits)

lemma digits_value_decimal: "n < 2 ^ 64 \<Longrightarrow> digits_value 0 (decimal n) = Some n"
proof (induction n rule: decimal.induct)
  case (1 n)
  show ?case
  proof (cases "n < 10")
    case False
    with 1 have "digits_value 0 (decimal (n div 10)) = Some (n div 10)" by simp
    with False 1 show ?thesis by (subst decimal.simps) (simp add: digits_value_append)
  qed (simp add: decimal.simps)
qed

lemma decimal_digits: "c \<in> set (decimal n) \<Longrightarrow> \<exists>d. d < (10 :: nat) \<and> c = char_of (48 + d)"
proof (induction n rule: decimal.induct)
  case (1 n)
  have "\<exists>d. d < (10 :: nat) \<and> char_of (48 + n mod 10) = (char_of (48 + d) :: char)"
    by (rule exI [of _ "n mod 10"]) simp
  with 1 show ?case by (cases "n < 10") (auto simp: decimal.simps [of n])
qed

lemma decimal_nonempty [simp]: "decimal n \<noteq> []"
  by (simp add: decimal.simps)

lemma digit_not_special:
  assumes "c \<in> set (decimal n)"
  shows "c \<noteq> CHR ''+''" "\<not> is_whitespace c"
proof -
  from decimal_digits [OF assms] obtain d :: nat
    where "d < 10" "c = char_of (48 + d)" by blast
  then have "of_char c = 48 + d" "d < 10" by simp_all
  then show "c \<noteq> CHR ''+''" "\<not> is_whitespace c"
    by (auto simp: is_whitespace_def)
qed

lemma parse_decimal: "n < 2 ^ 64 \<Longrightarrow> parse_u64 (decimal n) = Some (of_nat n)"
  using digit_not_special(1) [OF hd_in_set, of n]
  by (simp add: parse_u64_def Let_def digits_value_decimal)

lemma parse_u64_to_string: "parse_u64 (u64_to_string w) = Some w"
  by (simp add: u64_to_string_def parse_decimal unsigned_less [of w, simplified])

lemma u64_to_string_inj: "u64_to_string v = u64_to_string w \<longleftrightarrow> v = w"
  using parse_u64_to_string by (metis option.inject)

subsection \<open>Putting texts together\<close>

lemma str_lines_Cons:
  assumes "newline \<notin> set l"
  shows "str_lines (l @ newline # rest) = strip_cr l # str_lines rest"
proof -
  have "\<forall>c \<in> set l. c \<noteq> newline" using assms by auto
  then have "takeWhile (\<lambda>c. c \<noteq> newline) (l @ newline # rest) = l"
    "dropWhile (\<lambda>c. c \<noteq> newline) (l @ newline # rest) = newline # rest"
    by (simp_all add: takeWhile_append2 dropWhile_append2)
  then show ?thesis by (subst str_lines.simps) simp
qed

lemma str_lines_join:
  "\<forall>l \<in> set ls. newline \<notin> set l \<and> CHR 0x0D \<notin> set l \<Longrightarrow>
     str_lines (concat (map (\<lambda>l. l @ [newline]) ls)) = ls"
proof (induction ls)
  case (Cons l ls)
  then have "CHR 0x0D \<notin> set l" by simp
  then have "l \<noteq> [] \<Longrightarrow> last l \<noteq> CHR 0x0D" by (metis last_in_set)
  then have "strip_cr l = l" by (auto simp: strip_cr_def)
  with Cons show ?case by (simp add: str_lines_Cons)
qed (simp add: str_lines.simps)

lemma split_first_word:
  assumes "\<forall>c \<in> set blanks. is_whitespace c" "word \<noteq> []" "\<forall>c \<in> set word. \<not> is_whitespace c"
    and "rest = [] \<or> is_whitespace (hd rest)"
  shows "split_whitespace (blanks @ word @ rest) = word # split_whitespace rest"
proof -
  obtain w ws where word: "word = w # ws" using assms(2) by (cases word) auto
  have "dropWhile is_whitespace (blanks @ word @ rest) = word @ rest"
    using assms(1,3) by (simp add: word dropWhile_append1 dropWhile_append2)
  moreover have "takeWhile (\<lambda>c. \<not> is_whitespace c) (word @ rest) = word"
    "dropWhile (\<lambda>c. \<not> is_whitespace c) (word @ rest) = rest"
    using assms(3,4) by (cases rest; simp add: takeWhile_append2 dropWhile_append2)+
  ultimately show ?thesis using assms(2) by (subst split_whitespace.simps) simp
qed

end
