(* ===== verification/Metrics.thy ===== *)
theory Metrics
  imports Std_Text
begin

section \<open>Metrics (src/metrics.rs)\<close>

text \<open>
  The counters and gauges are prometheus-client's; the service only increments, decrements and
  sets them, so each is the net effect of those calls: a gauge an \<open>int\<close>, a counter a \<open>nat\<close>,
  the event family a map from the event's label to its counter. \<open>get_memory_usage\<close> parses
  the text of \<open>/proc/self/status\<close> with the string functions of \<open>Std_Text\<close>.
\<close>

record metrics =
  connected_peers :: int
  total_messages_sent :: nat
  total_messages_received :: nat
  p2p_events :: "string \<rightharpoonup> nat"
  memory_usage_bytes :: int
  http_requests_total :: nat

definition metrics_new :: metrics where
  "metrics_new = \<lparr>connected_peers = 0, total_messages_sent = 0, total_messages_received = 0,
     p2p_events = Map.empty, memory_usage_bytes = 0, http_requests_total = 0\<rparr>"

text \<open>\<open>Family::get_or_create\<close>: a label seen for the first time starts at 0.\<close>

definition event_count :: "metrics \<Rightarrow> string \<Rightarrow> nat" where
  "event_count m label = (case p2p_events m label of None \<Rightarrow> 0 | Some n \<Rightarrow> n)"

definition increment_event :: "string \<Rightarrow> metrics \<Rightarrow> metrics" where
  "increment_event label m =
     m\<lparr>p2p_events := (p2p_events m)(label \<mapsto> event_count m label + 1)\<rparr>"

subsection \<open>Parsing /proc/self/status\<close>

text \<open>
  The first \<open>VmRSS:\<close> line whose second word is a number decides; the product with 1024 wraps in
  the release profile. \<open>Inl\<close> is the error of reading the file.
\<close>

fun memory_of_lines :: "string list \<Rightarrow> u64" where
  "memory_of_lines [] = 0"
| "memory_of_lines (line # rest) =
     (if starts_with ''VmRSS:'' line
      then let parts = split_whitespace line
           in if length parts \<ge> 2
              then case parse_u64 (parts ! 1) of
                     Some kb \<Rightarrow> kb * 1024
                   | None \<Rightarrow> memory_of_lines rest
              else memory_of_lines rest
      else memory_of_lines rest)"

definition get_memory_usage :: "'e + string \<Rightarrow> 'e + u64" where
  "get_memory_usage status =
     (case status of Inl e \<Rightarrow> Inl e | Inr contents \<Rightarrow> Inr (memory_of_lines (str_lines contents)))"

text \<open>\<open>usage as i64\<close> reinterprets the bits.\<close>

definition update_memory_usage :: "'e + string \<Rightarrow> metrics \<Rightarrow> metrics" where
  "update_memory_usage status m =
     (case get_memory_usage status of
        Inl _ \<Rightarrow> m
      | Inr usage \<Rightarrow> m\<lparr>memory_usage_bytes := sint usage\<rparr>)"

subsection \<open>What is read from a status file\<close>

text \<open>The kernel's layout: the label, blanks, the decimal number, a unit.\<close>

definition status_line :: "string \<Rightarrow> nat \<Rightarrow> string \<Rightarrow> string" where
  "status_line blanks kb unit = ''VmRSS:'' @ blanks @ decimal kb @ unit"

lemma status_line_parts:
  assumes "blanks \<noteq> []" "\<forall>c \<in> set blanks. is_whitespace c" "unit = [] \<or> is_whitespace (hd unit)"
  shows "split_whitespace (status_line blanks kb unit) = ''VmRSS:'' # decimal kb # split_whitespace unit"
proof -
  have "\<forall>c \<in> set (decimal kb). \<not> is_whitespace c" by (simp add: digit_not_special)
  from split_first_word [OF assms(2) decimal_nonempty this assms(3)]
  have number: "split_whitespace (blanks @ decimal kb @ unit) = decimal kb # split_whitespace unit" .
  have "is_whitespace (hd (blanks @ decimal kb @ unit))" using assms(1,2) by simp
  with split_first_word [of "[]" "''VmRSS:''" "blanks @ decimal kb @ unit"] number
  show ?thesis by (simp add: status_line_def is_whitespace_def)
qed

lemma memory_of_status_line:
  assumes "blanks \<noteq> []" "\<forall>c \<in> set blanks. is_whitespace c" "unit = [] \<or> is_whitespace (hd unit)"
    and "kb < 2 ^ 64"
  shows "memory_of_lines (status_line blanks kb unit # rest) = of_nat kb * 1024"
  using status_line_parts [OF assms(1-3), of kb] parse_decimal [OF assms(4)]
  by (simp add: Let_def) (simp add: starts_with_def status_line_def)

lemma memory_of_other_lines:
  "\<forall>l \<in> set pre. \<not> starts_with ''VmRSS:'' l \<Longrightarrow> memory_of_lines (pre @ rest) = memory_of_lines rest"
  by (induction pre) simp_all

end
