(* ===== verification/Ieee_Float.thy ===== *)
theory Ieee_Float
  imports P2P_Prelude Complex_Main "HOL-Library.Log_Nat"
begin

section \<open>The floating-point arithmetic the code uses\<close>

text \<open>
  The service computes with \<open>f32\<close> (the protected share of the connection slots) and with
  \<open>f64\<close> (the jitter of the dial backoff). A non-negative finite float is a pair \<open>(m, e)\<close>
  of a mantissa and an exponent, the value \<open>m * 2 ^ e\<close>; every operation computes the exact
  result and rounds it once, to \<open>p\<close> bits (24 for \<open>f32\<close>, 53 for \<open>f64\<close>), to nearest
  with ties to even, as IEEE 754 and Rust prescribe.

  The exponent is unbounded. This is exact for the values the service meets: no intermediate
  result leaves the range of the format, since every product has a factor that is an integer or
  a duration of at least a nanosecond (no underflow), and results above \<open>2 ^ 64\<close> behave like
  infinity in the conversions that follow (both saturate or panic).

  The lemmas: rounding is monotone, keeps every value that fits, and so keeps every bound that
  fits; this is all the components need.
\<close>

type_synonym dyadic = "nat \<times> int"

definition pow2 :: "int \<Rightarrow> real" where
  "pow2 i = 2 powr real_of_int i"

definition dval :: "dyadic \<Rightarrow> real" where
  "dval x = real (fst x) * pow2 (snd x)"

text \<open>Division of naturals rounded to nearest, ties to even.\<close>

definition rne_div :: "nat \<Rightarrow> nat \<Rightarrow> nat" where
  "rne_div n d =
     (let q = n div d; r = n mod d
      in if 2 * r < d then q else if d < 2 * r then q + 1 else if even q then q else q + 1)"

text \<open>Rounding to \<open>p\<close> bits: what does not fit is divided off.\<close>

definition fl_round :: "nat \<Rightarrow> dyadic \<Rightarrow> dyadic" where
  "fl_round p x =
     (case x of (m, e) \<Rightarrow>
        (let s = floorlog 2 m - p in (rne_div m (2 ^ s), e + int s)))"

definition fl_of_nat :: "nat \<Rightarrow> nat \<Rightarrow> dyadic" where
  "fl_of_nat p n = fl_round p (n, 0)"

definition dyadic_mult :: "dyadic \<Rightarrow> dyadic \<Rightarrow> dyadic" where
  "dyadic_mult x y = (fst x * fst y, snd x + snd y)"

definition dyadic_add :: "dyadic \<Rightarrow> dyadic \<Rightarrow> dyadic" where
  "dyadic_add x y =
     (let e = min (snd x) (snd y)
      in (fst x * 2 ^ nat (snd x - e) + fst y * 2 ^ nat (snd y - e), e))"

definition fl_mult :: "nat \<Rightarrow> dyadic \<Rightarrow> dyadic \<Rightarrow> dyadic" where
  "fl_mult p x y = fl_round p (dyadic_mult x y)"

definition fl_add :: "nat \<Rightarrow> dyadic \<Rightarrow> dyadic \<Rightarrow> dyadic" where
  "fl_add p x y = fl_round p (dyadic_add x y)"

text \<open>
  Division: the quotient to more than \<open>p + 2\<close> bits, and a last bit that says whether the
  remainder is non-zero, decide the rounding of the exact quotient.
\<close>

definition fl_div :: "nat \<Rightarrow> dyadic \<Rightarrow> dyadic \<Rightarrow> dyadic" where
  "fl_div p x y =
     (let k = p + 2 + floorlog 2 (fst y);
          n = fst x * 2 ^ k;
          sticky = (if n mod fst y = 0 then 0 else 1)
      in fl_round p (2 * (n div fst y) + sticky, snd x - snd y - int k - 1))"

subsection \<open>Values\<close>

lemma pow2_pos [simp]: "0 < pow2 i" "0 \<le> pow2 i" "pow2 i \<noteq> 0"
  by (simp_all add: pow2_def)

lemma pow2_0 [simp]: "pow2 0 = 1"
  by (simp add: pow2_def)

lemma pow2_add: "pow2 (i + j) = pow2 i * pow2 j"
  by (simp add: pow2_def powr_add)

lemma pow2_int [simp]: "pow2 (int n) = 2 ^ n"
  by (simp add: pow2_def powr_realpow)

lemma pow2_le_iff [simp]: "pow2 i \<le> pow2 j \<longleftrightarrow> i \<le> j"
  by (simp add: pow2_def)

text \<open>Moving a power between the mantissa and the exponent.\<close>

lemma pow2_shift: "i + int n = j \<Longrightarrow> 2 ^ n * pow2 i = pow2 j"
  using pow2_add [of "int n" i] by (simp add: add.commute)

lemma dval_nonneg [simp]: "0 \<le> dval x"
  by (simp add: dval_def)

lemma dval_zero_iff [simp]: "dval x = 0 \<longleftrightarrow> fst x = 0"
  by (simp add: dval_def)

lemma dval_nat [simp]: "dval (n, 0) = real n"
  by (simp add: dval_def)

lemma dval_mult [simp]: "dval (dyadic_mult x y) = dval x * dval y"
  by (simp add: dval_def dyadic_mult_def pow2_add)

lemma dval_add [simp]: "dval (dyadic_add x y) = dval x + dval y"
proof -
  define e where "e = min (snd x) (snd y)"
  have "dval (dyadic_add x y) =
      real (fst x) * (2 ^ nat (snd x - e) * pow2 e) +
      real (fst y) * (2 ^ nat (snd y - e) * pow2 e)"
    by (simp add: dval_def dyadic_add_def e_def Let_def algebra_simps)
  also have "\<dots> = dval x + dval y"
    by (simp add: pow2_shift [where j = "snd x"] pow2_shift [where j = "snd y"] e_def dval_def)
  finally show ?thesis .
qed

subsection \<open>Rounding to nearest, ties to even\<close>

definition rne :: "real \<Rightarrow> int" where
  "rne x = (let f = \<lfloor>x\<rfloor>; r = x - of_int f
            in if r < 1 / 2 then f else if 1 / 2 < r then f + 1 else if even f then f else f + 1)"

lemma rne_of_int [simp]: "rne (of_int k) = k"
  by (simp add: rne_def)

lemma rne_of_nat [simp]: "rne (real n) = int n"
  using rne_of_int [of "int n"] by simp

lemma rne_bounds: "\<lfloor>x\<rfloor> \<le> rne x" "rne x \<le> \<lfloor>x\<rfloor> + 1"
  by (auto simp: rne_def Let_def)

lemma rne_mono: "x \<le> y \<Longrightarrow> rne x \<le> rne y"
proof -
  assume "x \<le> y"
  then consider "\<lfloor>x\<rfloor> = \<lfloor>y\<rfloor>" | "\<lfloor>x\<rfloor> + 1 \<le> \<lfloor>y\<rfloor>"
    using floor_mono [of x y] by linarith
  then show ?thesis
  proof cases
    case 1
    with \<open>x \<le> y\<close> show ?thesis by (auto simp: rne_def Let_def)
  next
    case 2
    with rne_bounds(2) [of x] rne_bounds(1) [of y] show ?thesis by linarith
  qed
qed

lemma rne_div_rne: "0 < d \<Longrightarrow> int (rne_div n d) = rne (real n / real d)"
proof -
  assume d: "0 < d"
  have f: "\<lfloor>real n / real d\<rfloor> = int (n div d)"
    by (metis floor_divide_of_nat_eq of_int_of_nat_eq)
  have r: "real n / real d - real (n div d) = real (n mod d) / real d"
  proof -
    have "real n = real (n div d) * real d + real (n mod d)"
      by (metis of_nat_add of_nat_mult div_mult_mod_eq)
    with d show ?thesis by (simp add: field_simps)
  qed
  have "real (n mod d) / real d < 1 / 2 \<longleftrightarrow> 2 * (n mod d) < d"
    "1 / 2 < real (n mod d) / real d \<longleftrightarrow> d < 2 * (n mod d)"
    using d by (auto simp: field_simps)
  then show ?thesis
    unfolding rne_def rne_div_def f Let_def of_int_of_nat_eq r by simp
qed

subsection \<open>Rounding to a precision\<close>

text \<open>The position of the leading bit: \<open>2 ^ (top x - 1) \<le> dval x < 2 ^ top x\<close>.\<close>

definition top :: "dyadic \<Rightarrow> int" where
  "top x = int (floorlog 2 (fst x)) + snd x"

lemma dval_top:
  assumes "fst x > 0"
  shows "pow2 (top x - 1) \<le> dval x" "dval x < pow2 (top x)"
proof -
  let ?L = "floorlog 2 (fst x)"
  have L: "2 ^ (?L - 1) \<le> fst x" "fst x < 2 ^ ?L" "0 < ?L"
    using floorlog_bounds [of "fst x" 2] assms by (auto simp: floorlog_def)
  have "pow2 (top x - 1) = 2 ^ (?L - 1) * pow2 (snd x)"
    using L(3) by (subst pow2_shift) (simp_all add: top_def of_nat_diff)
  also have "\<dots> \<le> dval x"
    unfolding dval_def using L(1) by (intro mult_right_mono) (simp_all flip: of_nat_power)
  finally show "pow2 (top x - 1) \<le> dval x" .
  have "dval x < 2 ^ ?L * pow2 (snd x)"
    unfolding dval_def using L(2) by (intro mult_strict_right_mono) (simp_all flip: of_nat_power)
  also have "\<dots> = pow2 (top x)"
    by (subst pow2_shift) (simp_all add: top_def)
  finally show "dval x < pow2 (top x)" .
qed

text \<open>Rounding is rounding to an integer on the grid of the value's binade.\<close>

lemma dval_fl_round:
  assumes "fst x > 0"
  shows "dval (fl_round p x) =
    of_int (rne (dval x / pow2 (top x - int p))) * pow2 (top x - int p)"
proof -
  obtain m e where x: "x = (m, e)" by fastforce
  let ?L = "floorlog 2 m"
  show ?thesis
  proof (cases "?L \<le> p")
    case True
    have e: "pow2 e = 2 ^ (p - ?L) * pow2 (top x - int p)"
      using True by (subst pow2_shift) (simp_all add: x top_def of_nat_diff)
    have v: "dval x = real (m * 2 ^ (p - ?L)) * pow2 (top x - int p)"
      by (simp add: x dval_def e)
    then have "dval x / pow2 (top x - int p) = real (m * 2 ^ (p - ?L))" by simp
    then have "rne (dval x / pow2 (top x - int p)) = int (m * 2 ^ (p - ?L))"
      by (simp only: rne_of_nat)
    moreover have "fl_round p x = x"
      using True by (simp add: x fl_round_def rne_div_def)
    ultimately show ?thesis by (simp add: v)
  next
    case False
    then have e: "top x - int p = e + int (?L - p)" by (simp add: x top_def)
    have "dval x / pow2 (top x - int p) = real m / real (2 ^ (?L - p))"
      by (simp add: e) (simp add: x dval_def pow2_add)
    then have "rne (dval x / pow2 (top x - int p)) = int (rne_div m (2 ^ (?L - p)))"
      by (simp add: rne_div_rne)
    then show ?thesis
      by (simp add: e) (simp add: x dval_def fl_round_def Let_def)
  qed
qed

lemma fl_round_zero [simp]: "fst x = 0 \<Longrightarrow> dval (fl_round p x) = 0"
  by (cases x) (simp add: fl_round_def rne_div_def Let_def)

text \<open>What fits in \<open>p\<close> bits is kept.\<close>

lemma fl_round_exact: "floorlog 2 (fst x) \<le> p \<Longrightarrow> fl_round p x = x"
  by (cases x) (simp add: fl_round_def rne_div_def)

lemma fl_round_in_binade:
  assumes "fst x > 0" "0 < p"
  shows "pow2 (top x - 1) \<le> dval (fl_round p x)"
    "dval (fl_round p x) \<le> pow2 (top x)"
proof -
  let ?g = "pow2 (top x - int p)"
  have lo: "real (2 ^ (p - 1)) * ?g = pow2 (top x - 1)"
    using assms(2) by (simp add: pow2_shift [where j = "top x - 1"] of_nat_diff)
  have hi: "real (2 ^ p) * ?g = pow2 (top x)"
    by (simp add: pow2_shift [where j = "top x"])
  have "real (2 ^ (p - 1)) \<le> dval x / ?g"
    using dval_top(1) [OF assms(1)] unfolding lo [symmetric] by (simp add: pos_le_divide_eq)
  then have "int (2 ^ (p - 1)) \<le> rne (dval x / ?g)"
    by (metis rne_mono rne_of_nat)
  then have "real_of_int (int (2 ^ (p - 1))) \<le> real_of_int (rne (dval x / ?g))"
    by (simp only: of_int_le_iff)
  then have "real (2 ^ (p - 1)) \<le> real_of_int (rne (dval x / ?g))"
    by (simp only: of_int_of_nat_eq)
  then have "real (2 ^ (p - 1)) * ?g \<le> dval (fl_round p x)"
    by (simp add: dval_fl_round [OF assms(1)])
  then show "pow2 (top x - 1) \<le> dval (fl_round p x)" by (simp only: lo)
  have "dval x / ?g \<le> real (2 ^ p)"
    using dval_top(2) [OF assms(1)] unfolding hi [symmetric] by (simp add: pos_divide_le_eq)
  then have "rne (dval x / ?g) \<le> int (2 ^ p)"
    using rne_mono rne_of_nat by metis
  then have "real_of_int (rne (dval x / ?g)) \<le> real_of_int (int (2 ^ p))"
    by (simp only: of_int_le_iff)
  then have "real_of_int (rne (dval x / ?g)) \<le> real (2 ^ p)"
    by (simp only: of_int_of_nat_eq)
  then have "dval (fl_round p x) \<le> real (2 ^ p) * ?g"
    by (simp add: dval_fl_round [OF assms(1)])
  then show "dval (fl_round p x) \<le> pow2 (top x)" by (simp only: hi)
qed

lemma fl_round_mono:
  assumes le: "dval x \<le> dval y" and p: "0 < p"
  shows "dval (fl_round p x) \<le> dval (fl_round p y)"
proof (cases "fst x = 0")
  case False
  then have x: "fst x > 0" by simp
  then have "dval x \<noteq> 0" by simp
  with le dval_nonneg [of x] have "dval y \<noteq> 0" by linarith
  then have y: "fst y > 0" by simp
  have "top x \<le> top y"
  proof (rule ccontr)
    assume "\<not> top x \<le> top y"
    then have "pow2 (top y) \<le> pow2 (top x - 1)" by simp
    with dval_top(1) [OF x] dval_top(2) [OF y] le show False by linarith
  qed
  then consider "top x = top y" | "top x \<le> top y - 1" by linarith
  then show ?thesis
  proof cases
    case 1
    have "rne (dval x / pow2 (top y - int p)) \<le>
        rne (dval y / pow2 (top y - int p))"
      by (rule rne_mono) (simp add: le divide_right_mono)
    then show ?thesis
      by (simp add: dval_fl_round [OF x] dval_fl_round [OF y] 1 mult_right_mono)
  next
    case 2
    have "dval (fl_round p x) \<le> pow2 (top x)"
      by (rule fl_round_in_binade(2) [OF x p])
    also have "\<dots> \<le> pow2 (top y - 1)" using 2 by simp
    also have "\<dots> \<le> dval (fl_round p y)" by (rule fl_round_in_binade(1) [OF y p])
    finally show ?thesis .
  qed
qed simp

text \<open>So every bound that fits in \<open>p\<close> bits survives the rounding.\<close>

lemma fl_round_le:
  "\<lbrakk>dval x \<le> dval y; floorlog 2 (fst y) \<le> p; 0 < p\<rbrakk> \<Longrightarrow> dval (fl_round p x) \<le> dval y"
  using fl_round_mono [of x y p] by (simp add: fl_round_exact)

lemma fl_round_ge:
  "\<lbrakk>dval y \<le> dval x; floorlog 2 (fst y) \<le> p; 0 < p\<rbrakk> \<Longrightarrow> dval y \<le> dval (fl_round p x)"
  using fl_round_mono [of y x p] by (simp add: fl_round_exact)

lemma floorlog_fits_iff: "floorlog 2 n \<le> p \<longleftrightarrow> n < 2 ^ p"
  using floorlog_leD [of 2 n p] floorlog_leI [of n 2 p] by auto

subsection \<open>f32 values and conversions\<close>

text \<open>A float is not a number, infinite with a sign, or a sign and a magnitude.\<close>

datatype f32 = F32NaN | F32Inf bool | F32 bool dyadic

fun f32_mult :: "f32 \<Rightarrow> f32 \<Rightarrow> f32" where
  "f32_mult (F32 s x) (F32 t y) = F32 (s \<noteq> t) (fl_mult 24 x y)"
| "f32_mult (F32Inf s) (F32Inf t) = F32Inf (s \<noteq> t)"
| "f32_mult (F32Inf s) (F32 t y) = (if fst y = 0 then F32NaN else F32Inf (s \<noteq> t))"
| "f32_mult (F32 s x) (F32Inf t) = (if fst x = 0 then F32NaN else F32Inf (s \<noteq> t))"
| "f32_mult _ _ = F32NaN"

text \<open>\<open>usize as f32\<close>, and the saturating \<open>f32 as usize\<close> (NaN is 0).\<close>

definition f32_of_usize :: "nat \<Rightarrow> f32" where
  "f32_of_usize n = F32 False (fl_of_nat 24 n)"

definition usize_max :: nat where
  "usize_max = 2 ^ 64 - 1"

definition dyadic_floor :: "dyadic \<Rightarrow> nat" where
  "dyadic_floor x =
     (case x of (m, e) \<Rightarrow> if 0 \<le> e then m * 2 ^ nat e else m div 2 ^ nat (- e))"

fun usize_of_f32 :: "f32 \<Rightarrow> nat" where
  "usize_of_f32 F32NaN = 0"
| "usize_of_f32 (F32Inf neg) = (if neg then 0 else usize_max)"
| "usize_of_f32 (F32 neg x) = (if neg then 0 else min (dyadic_floor x) usize_max)"

definition dyadic_le :: "dyadic \<Rightarrow> dyadic \<Rightarrow> bool" where
  "dyadic_le x y \<longleftrightarrow>
     (let e = min (snd x) (snd y)
      in fst x * 2 ^ nat (snd x - e) \<le> fst y * 2 ^ nat (snd y - e))"

text \<open>\<open>(0.0..=1.0).contains(&x)\<close>; the negative zero is in the range.\<close>

fun f32_in_unit :: "f32 \<Rightarrow> bool" where
  "f32_in_unit F32NaN \<longleftrightarrow> False"
| "f32_in_unit (F32Inf _) \<longleftrightarrow> False"
| "f32_in_unit (F32 neg x) \<longleftrightarrow> (\<not> neg \<or> fst x = 0) \<and> dyadic_le x (1, 0)"

lemma dyadic_le_dval: "dyadic_le x y \<longleftrightarrow> dval x \<le> dval y"
proof -
  define e where "e = min (snd x) (snd y)"
  have "dval x = real (fst x * 2 ^ nat (snd x - e)) * pow2 e"
    "dval y = real (fst y * 2 ^ nat (snd y - e)) * pow2 e"
    by (simp_all add: dval_def e_def pow2_shift [where j = "snd x"] pow2_shift [where j = "snd y"])
  then have "dval x \<le> dval y \<longleftrightarrow>
      real (fst x * 2 ^ nat (snd x - e)) \<le> real (fst y * 2 ^ nat (snd y - e))"
    by (simp only: mult_le_cancel_right_pos pow2_pos)
  then show ?thesis by (simp only: of_nat_le_iff dyadic_le_def e_def Let_def)
qed

lemma dyadic_floor_dval: "int (dyadic_floor x) = \<lfloor>dval x\<rfloor>"
proof (cases x)
  case (Pair m e)
  show ?thesis
  proof (cases "0 \<le> e")
    case True
    then have "dval x = real_of_int (int (m * 2 ^ nat e))"
      using pow2_int [of "nat e"] by (simp add: Pair dval_def)
    with True show ?thesis by (simp only: floor_of_int) (simp add: Pair dyadic_floor_def)
  next
    case False
    then have "pow2 e * 2 ^ nat (- e) = 1"
      using pow2_shift [of e "nat (- e)" 0] by (simp add: mult.commute)
    then have "dval x = real m / real (2 ^ nat (- e))"
      by (simp add: Pair dval_def field_simps)
    with False show ?thesis
      by (simp only: floor_divide_of_nat_eq) (simp add: Pair dyadic_floor_def)
  qed
qed

text \<open>Scaling a count that \<open>f32\<close> represents by a share of at most one does not exceed it.\<close>

lemma usize_share_le:
  assumes "f32_in_unit share" "n \<le> 2 ^ 24"
  shows "usize_of_f32 (f32_mult (f32_of_usize n) share) \<le> n"
proof -
  from assms(1) obtain neg x where x: "share = F32 neg x" "dval x \<le> 1"
    by (cases share) (auto simp: dyadic_le_dval)
  have n: "dval (fl_of_nat 24 n) = dval (n, 0)"
  proof (cases "n < 2 ^ 24")
    case True
    then show ?thesis by (simp add: fl_of_nat_def fl_round_exact floorlog_fits_iff)
  next
    case False
    with assms(2) have "n = 2 ^ 24" by simp
    then show ?thesis
      using fl_round_le [of "(n, 0)" "(1, 24)" 24] fl_round_ge [of "(1, 24)" "(n, 0)" 24]
      by (simp add: fl_of_nat_def floorlog_fits_iff) (simp add: dval_def pow2_def)
  qed
  have "dval (fl_mult 24 (fl_of_nat 24 n) x) \<le> dval (fl_round 24 (fl_of_nat 24 n))"
    unfolding fl_mult_def using x(2) by (intro fl_round_mono) (simp_all add: mult_left_le)
  also have "\<dots> = dval (fl_of_nat 24 n)"
    using fl_round_mono [of "fl_of_nat 24 n" "(n, 0)" 24] fl_round_mono [of "(n, 0)" "fl_of_nat 24 n" 24]
    by (simp add: n fl_of_nat_def [symmetric])
  finally have "dval (fl_mult 24 (fl_of_nat 24 n) x) \<le> real n" by (simp add: n)
  then have "int (dyadic_floor (fl_mult 24 (fl_of_nat 24 n) x)) \<le> int n"
    unfolding dyadic_floor_dval by (simp add: floor_le_iff)
  then show ?thesis by (simp add: x f32_of_usize_def min.coboundedI1)
qed

end
