(* ===== verification/Event_Loop.thy ===== *)
theory Event_Loop
  imports Subnet_Limits Peer_Store Subscription_Fanout Metrics Ieee_Float
begin

section \<open>The network event loop (src/p2p/network.rs)\<close>

text \<open>
  \<open>EventLoop\<close> owns the libp2p swarm and everything that must change together with it: the
  dials in flight, the connection table, the subnet limits, the protected set and the dial hints
  of the preferred peers. It handles one swarm event or one client command at a time.

  The swarm is libp2p's: its state is the type \<open>'w\<close> and the calls the loop makes are the
  record \<open>swarm_ops\<close>, a parameter of every handler. The metrics, the subscriptions and the
  peer store are shared with other tasks through \<open>Arc\<close>; they are fields of the loop's state
  here, and the other components' operations on them act on the same fields. A
  \<open>oneshot\<close> sender is a number, and answering one appends to \<open>replies\<close>.
\<close>

subsection \<open>Errors\<close>

text \<open>
  \<open>libp2p::swarm::DialError\<close> and \<open>gossipsub::PublishError\<close> with the variants the code
  matches; the others carry their text. \<open>Box<dyn Error>\<close> is the sum of the types the code
  boxes, which \<open>downcast_ref\<close> tells apart.
\<close>

datatype dial_error = DialPeerConditionFalse | WrongPeerId | OtherDialError string

datatype publish_error = NoPeersSubscribedToTopic | OtherPublishError string

datatype boxed_error =
    BoxedDialError dial_error
  | DialFailed dial_error
  | ChannelClosed
  | BoxedTransportError string
  | BoxedSubscriptionError string
  | BoxedPublishError publish_error

datatype dial_error_kind = KindWrongPeerId | KindUnreachable | KindInternal

definition classify_dial_error :: "boxed_error \<Rightarrow> dial_error_kind" where
  "classify_dial_error error =
     (let dial_error =
        (case error of
           DialFailed e \<Rightarrow> Some e
         | BoxedDialError e \<Rightarrow> Some e
         | _ \<Rightarrow> None)
      in case dial_error of
           Some WrongPeerId \<Rightarrow> KindWrongPeerId
         | Some _ \<Rightarrow> KindUnreachable
         | None \<Rightarrow> KindInternal)"

subsection \<open>State, commands, events\<close>

type_synonym sender = nat
type_synonym connection_id = nat

record network_settings =
  ns_low_water :: nat
  ns_high_water :: nat
  ns_per_subnet_cap :: nat
  ns_max_protected_share :: f32

record 'p node_info =
  ni_peer_id :: 'p
  listen_multiaddrs :: "'p multiaddr list"
  external_multiaddrs :: "'p multiaddr list"

record 'p network_snapshot =
  snapshot_connected :: "'p set"
  snapshot_preferred :: "('p \<times> 'p multiaddr list) list"

record 'p peer_snapshot =
  ps_peer_id :: 'p
  ps_multiaddrs :: "'p multiaddr list"
  ps_preferred :: bool
  ps_score :: real

text \<open>What a sender is answered with, on success.\<close>

datatype 'p response =
    Done
  | NodeInfoOf "'p node_info"
  | SnapshotOf "'p network_snapshot"
  | AcceptedTruncated u32 u32
  | PeersOf "'p peer_snapshot list"

type_synonym 'p reply = "boxed_error + 'p response"

datatype 'p command =
    StartListening "'p multiaddr" sender
  | Dial 'p "'p multiaddr list" sender
  | Identify sender
  | Subscribe string sender
  | PublishMessage string "u8 list" sender
  | NetworkSnapshot sender
  | SetPreferredPeers "('p \<times> 'p multiaddr list) list" sender
  | GetPeers sender

text \<open>\<open>ConnectedPoint\<close>: which side dialed, and \<open>get_remote_address\<close>.\<close>

record 'p endpoint =
  is_dialer :: bool
  remote_address :: "'p multiaddr"

datatype 'p swarm_event =
    GossipsubMessage "'p option" string "u8 list"
  | GossipsubOther
  | IdentifyReceived 'p "'p multiaddr list"
  | IdentifyOther
  | ConnectionEstablished 'p "'p endpoint" connection_id
  | ConnectionClosed 'p "'p endpoint" nat
  | OutgoingConnectionError "'p option" dial_error
  | NewListenAddr "'p multiaddr"
  | OtherSwarmEvent

text \<open>
  The calls to the swarm and to its gossipsub behaviour. Scores are \<open>f64\<close> values that are only
  stored and compared, hence \<open>real\<close>.
\<close>

record ('w, 'p) swarm_ops =
  sw_dial :: "'p \<Rightarrow> 'p multiaddr list \<Rightarrow> 'w \<Rightarrow> (dial_error + unit) \<times> 'w"
  sw_listen_on :: "'p multiaddr \<Rightarrow> 'w \<Rightarrow> (string + unit) \<times> 'w"
  sw_disconnect_peer_id :: "'p \<Rightarrow> 'w \<Rightarrow> 'w"
  sw_close_connection :: "connection_id \<Rightarrow> 'w \<Rightarrow> 'w"
  sw_local_peer_id :: "'w \<Rightarrow> 'p"
  sw_listeners :: "'w \<Rightarrow> 'p multiaddr list"
  sw_external_addresses :: "'w \<Rightarrow> 'p multiaddr list"
  gs_subscribe :: "string \<Rightarrow> 'w \<Rightarrow> (string + bool) \<times> 'w"
  gs_publish :: "string \<Rightarrow> u8 list \<Rightarrow> 'w \<Rightarrow> (publish_error + unit) \<times> 'w"
  gs_set_application_score :: "'p \<Rightarrow> real \<Rightarrow> 'w \<Rightarrow> 'w"
  gs_peer_score :: "'w \<Rightarrow> 'p \<Rightarrow> real option"

text \<open>What a handler reads besides its state: libp2p's printers and the clocks.\<close>

record 'p reading =
  peer_to_string :: "'p \<Rightarrow> string"
  addr_to_string :: "'p multiaddr \<Rightarrow> string"
  now_unix :: nat
  now_millis :: nat

record ('w, 'p, 'c) event_loop =
  swarm :: 'w
  subscriptions :: "'c subscriptions"
  pending_dials :: "'p \<rightharpoonup> sender list"
  loop_metrics :: metrics
  peerstore :: peer_store
  settings :: network_settings
  limits :: subnet_limits
  connected :: "'p \<rightharpoonup> 'p multiaddr list"
  protected :: "'p set"
  bootstrap_peers :: "'p set"
  dial_hints :: "'p \<rightharpoonup> 'p multiaddr list"
  replies :: "(sender \<times> 'p reply) list"

definition event_loop_new ::
    "'w \<Rightarrow> 'c subscriptions \<Rightarrow> metrics \<Rightarrow> peer_store \<Rightarrow> network_settings \<Rightarrow> 'p set
      \<Rightarrow> ('w, 'p, 'c) event_loop" where
  "event_loop_new w subs m store cfg bootstrap =
     \<lparr>swarm = w, subscriptions = subs, pending_dials = Map.empty, loop_metrics = m,
      peerstore = store, settings = cfg, limits = subnet_limits_new (ns_per_subnet_cap cfg),
      connected = Map.empty, protected = bootstrap, bootstrap_peers = bootstrap,
      dial_hints = Map.empty, replies = []\<rparr>"

definition preferred_peer_app_score :: real where
  "preferred_peer_app_score = 100"

text \<open>\<open>sender.send(..)\<close>, to one sender and to a list of them in order.\<close>

definition answer :: "sender \<Rightarrow> 'p reply \<Rightarrow> ('w, 'p, 'c) event_loop \<Rightarrow> ('w, 'p, 'c) event_loop" where
  "answer sd r s = s\<lparr>replies := replies s @ [(sd, r)]\<rparr>"

definition answer_all ::
    "sender list \<Rightarrow> 'p reply \<Rightarrow> ('w, 'p, 'c) event_loop \<Rightarrow> ('w, 'p, 'c) event_loop" where
  "answer_all sds r s = s\<lparr>replies := replies s @ map (\<lambda>sd. (sd, r)) sds\<rparr>"

subsection \<open>Connection limits\<close>

definition enforce_connection_limits ::
    "('w, 'p) swarm_ops \<Rightarrow> 'p \<Rightarrow> connection_id \<Rightarrow> 'p multiaddr
      \<Rightarrow> ('w, 'p, 'c) event_loop \<Rightarrow> ('w, 'p, 'c) event_loop" where
  "enforce_connection_limits ops peer_id connection_id remote_addr s =
     (let exempt = peer_id \<in> protected s;
          (subnet_verdict, limits') = on_connection remote_addr exempt (limits s);
          s1 = s\<lparr>limits := limits'\<rparr>;
          over_high_water = card (dom (connected s1)) > ns_high_water (settings s1) \<and> \<not> exempt
      in if over_high_water
         then s1\<lparr>swarm := sw_disconnect_peer_id ops peer_id (swarm s1)\<rparr>
         else if subnet_verdict = Reject
         then s1\<lparr>swarm := sw_close_connection ops connection_id (swarm s1)\<rparr>
         else s1)"

subsection \<open>Swarm events\<close>

definition handle_message ::
    "('c, 'r) broadcast_ops \<Rightarrow> 'p reading \<Rightarrow> 'p option \<Rightarrow> string \<Rightarrow> u8 list
      \<Rightarrow> ('w, 'p, 'c) event_loop \<Rightarrow> ('w, 'p, 'c) event_loop" where
  "handle_message bops rd source t bytes s =
     (case source of
        None \<Rightarrow> s
      | Some src \<Rightarrow>
          (let m = loop_metrics s;
               s1 = s\<lparr>loop_metrics := m\<lparr>total_messages_received := total_messages_received m + 1\<rparr>\<rparr>;
               env = \<lparr>topic = t, source_peer_id = peer_to_string rd src, data = bytes,
                      received_at_millis = now_millis rd\<rparr>
           in s1\<lparr>subscriptions := snd (publish bops env (subscriptions s1))\<rparr>))"

definition has_tcp :: "'p multiaddr \<Rightarrow> bool" where
  "has_tcp a \<longleftrightarrow> list_ex (\<lambda>p. case p of Tcp _ \<Rightarrow> True | _ \<Rightarrow> False) a"

definition handle_identify ::
    "'p reading \<Rightarrow> 'p \<Rightarrow> 'p multiaddr list \<Rightarrow> ('w, 'p, 'c) event_loop \<Rightarrow> ('w, 'p, 'c) event_loop" where
  "handle_identify rd peer_id listen_addrs s =
     (let tcp_addrs = filter has_tcp listen_addrs
      in if tcp_addrs \<noteq> []
         then s\<lparr>peerstore := record_peer (peer_to_string rd) (addr_to_string rd) peer_id tcp_addrs
                  (now_unix rd) (peerstore s)\<rparr>
         else s)"

text \<open>The dialer's part of a new connection: remember the address, answer the dialers.\<close>

definition complete_dial ::
    "'p reading \<Rightarrow> 'p \<Rightarrow> 'p endpoint \<Rightarrow> ('w, 'p, 'c) event_loop \<Rightarrow> ('w, 'p, 'c) event_loop" where
  "complete_dial rd peer_id endpoint s =
     (let s1 = s\<lparr>peerstore := record_peer (peer_to_string rd) (addr_to_string rd) peer_id
                  [remote_address endpoint] (now_unix rd) (peerstore s)\<rparr>
      in case pending_dials s1 peer_id of
           Some sds \<Rightarrow>
             answer_all sds (Inr Done) (s1\<lparr>pending_dials := (pending_dials s1)(peer_id := None)\<rparr>)
         | None \<Rightarrow> s1)"

definition handle_established ::
    "('w, 'p) swarm_ops \<Rightarrow> 'p reading \<Rightarrow> 'p \<Rightarrow> 'p endpoint \<Rightarrow> connection_id
      \<Rightarrow> ('w, 'p, 'c) event_loop \<Rightarrow> ('w, 'p, 'c) event_loop" where
  "handle_established ops rd peer_id endpoint connection_id s =
     (let m = loop_metrics s;
          s1 = s\<lparr>loop_metrics := m\<lparr>connected_peers := connected_peers m + 1\<rparr>\<rparr>;
          s2 = (if is_dialer endpoint then complete_dial rd peer_id endpoint s1 else s1);
          remote_addr = remote_address endpoint;
          known = (case connected s2 peer_id of None \<Rightarrow> [] | Some as \<Rightarrow> as);
          s3 = s2\<lparr>connected := (connected s2)(peer_id \<mapsto> known @ [remote_addr])\<rparr>;
          s4 = (if dial_hints s3 peer_id \<noteq> None \<or> peer_id \<in> bootstrap_peers s3
                then s3\<lparr>swarm := gs_set_application_score ops peer_id preferred_peer_app_score (swarm s3)\<rparr>
                else s3)
      in enforce_connection_limits ops peer_id connection_id remote_addr s4)"

definition handle_closed ::
    "'p \<Rightarrow> 'p endpoint \<Rightarrow> nat \<Rightarrow> ('w, 'p, 'c) event_loop \<Rightarrow> ('w, 'p, 'c) event_loop" where
  "handle_closed peer_id endpoint num_established s =
     (let m = loop_metrics s;
          s1 = s\<lparr>loop_metrics := m\<lparr>connected_peers := connected_peers m - 1\<rparr>,
                 limits := on_disconnection (remote_address endpoint) (limits s)\<rparr>
      in if num_established = 0
         then s1\<lparr>connected := (connected s1)(peer_id := None)\<rparr>
         else case connected s1 peer_id of
                Some as \<Rightarrow>
                  s1\<lparr>connected := (connected s1)
                       (peer_id \<mapsto> filter (\<lambda>a. a \<noteq> remote_address endpoint) as)\<rparr>
              | None \<Rightarrow> s1)"

definition handle_outgoing_error ::
    "'p option \<Rightarrow> dial_error \<Rightarrow> ('w, 'p, 'c) event_loop \<Rightarrow> ('w, 'p, 'c) event_loop" where
  "handle_outgoing_error peer error s =
     (case peer of
        None \<Rightarrow> s
      | Some peer_id \<Rightarrow>
          (case pending_dials s peer_id of
             None \<Rightarrow> s
           | Some sds \<Rightarrow>
               answer_all sds (Inl (DialFailed error))
                 (s\<lparr>pending_dials := (pending_dials s)(peer_id := None)\<rparr>)))"

text \<open>\<open>EventLoop::handle_event\<close>; the arms that only log leave the state alone.\<close>

fun handle_event ::
    "('w, 'p) swarm_ops \<Rightarrow> ('c, 'r) broadcast_ops \<Rightarrow> 'p reading \<Rightarrow> 'p swarm_event
      \<Rightarrow> ('w, 'p, 'c) event_loop \<Rightarrow> ('w, 'p, 'c) event_loop" where
  "handle_event ops bops rd (GossipsubMessage source t bytes) s = handle_message bops rd source t bytes s"
| "handle_event ops bops rd GossipsubOther s = s"
| "handle_event ops bops rd (IdentifyReceived peer_id listen_addrs) s =
     handle_identify rd peer_id listen_addrs s"
| "handle_event ops bops rd IdentifyOther s = s"
| "handle_event ops bops rd (ConnectionEstablished peer_id endpoint connection_id) s =
     handle_established ops rd peer_id endpoint connection_id s"
| "handle_event ops bops rd (ConnectionClosed peer_id endpoint num_established) s =
     handle_closed peer_id endpoint num_established s"
| "handle_event ops bops rd (OutgoingConnectionError peer_id error) s =
     handle_outgoing_error peer_id error s"
| "handle_event ops bops rd (NewListenAddr address) s = s"
| "handle_event ops bops rd OtherSwarmEvent s = s"

subsection \<open>Commands\<close>

definition handle_dial ::
    "('w, 'p) swarm_ops \<Rightarrow> 'p \<Rightarrow> 'p multiaddr list \<Rightarrow> sender
      \<Rightarrow> ('w, 'p, 'c) event_loop \<Rightarrow> ('w, 'p, 'c) event_loop" where
  "handle_dial ops peer_id peer_addrs sd s =
     (case pending_dials s peer_id of
        Some sds \<Rightarrow> s\<lparr>pending_dials := (pending_dials s)(peer_id \<mapsto> sds @ [sd])\<rparr>
      | None \<Rightarrow>
          (case sw_dial ops peer_id peer_addrs (swarm s) of
             (res, w) \<Rightarrow>
               (let s1 = s\<lparr>swarm := w\<rparr>
                in case res of
                     Inr _ \<Rightarrow> s1\<lparr>pending_dials := (pending_dials s1)(peer_id \<mapsto> [sd])\<rparr>
                   | Inl DialPeerConditionFalse \<Rightarrow> answer sd (Inr Done) s1
                   | Inl e \<Rightarrow> answer sd (Inl (BoxedDialError e)) s1)))"

text \<open>
  The cap on the protected set: the share of the high watermark, in \<open>f32\<close>, cut to an integer.
\<close>

definition protected_cap :: "network_settings \<Rightarrow> nat" where
  "protected_cap cfg =
     usize_of_f32 (f32_mult (f32_of_usize (ns_high_water cfg)) (ns_max_protected_share cfg))"

text \<open>The reset of the peers that are no longer preferred, in the order \<open>ord\<close> of the set's clone.\<close>

definition drop_preferred ::
    "('w, 'p) swarm_ops \<Rightarrow> 'p set \<Rightarrow> 'p \<Rightarrow> ('w, 'p, 'c) event_loop \<Rightarrow> ('w, 'p, 'c) event_loop" where
  "drop_preferred ops new_set old_peer s =
     (if old_peer \<notin> new_set \<and> old_peer \<notin> bootstrap_peers s
      then s\<lparr>protected := protected s - {old_peer},
             swarm := gs_set_application_score ops old_peer 0 (swarm s)\<rparr>
      else s)"

definition add_preferred ::
    "('w, 'p) swarm_ops \<Rightarrow> 'p \<times> 'p multiaddr list \<Rightarrow> ('w, 'p, 'c) event_loop
      \<Rightarrow> ('w, 'p, 'c) event_loop" where
  "add_preferred ops entry s =
     (case entry of (peer_id, hints) \<Rightarrow>
        s\<lparr>protected := insert peer_id (protected s),
          swarm := gs_set_application_score ops peer_id preferred_peer_app_score (swarm s),
          dial_hints := (dial_hints s)(peer_id \<mapsto> hints)\<rparr>)"

definition handle_set_preferred ::
    "('w, 'p) swarm_ops \<Rightarrow> 'p list \<Rightarrow> ('p \<times> 'p multiaddr list) list \<Rightarrow> sender
      \<Rightarrow> ('w, 'p, 'c) event_loop \<Rightarrow> ('w, 'p, 'c) event_loop" where
  "handle_set_preferred ops ord new_peers sd s =
     (let cap = protected_cap (settings s);
          truncated = of_nat (length new_peers - cap);
          accepted_peers = take cap new_peers;
          accepted = of_nat (length accepted_peers);
          new_set = fst ` set accepted_peers;
          s1 = fold (drop_preferred ops new_set) ord s;
          s2 = s1\<lparr>dial_hints := Map.empty\<rparr>;
          s3 = fold (add_preferred ops) accepted_peers s2
      in answer sd (Inr (AcceptedTruncated accepted truncated)) s3)"

definition peer_snapshots ::
    "('w, 'p) swarm_ops \<Rightarrow> 'p list \<Rightarrow> ('w, 'p, 'c) event_loop \<Rightarrow> 'p peer_snapshot list" where
  "peer_snapshots ops ord s =
     map (\<lambda>(peer_id, as).
            \<lparr>ps_peer_id = peer_id, ps_multiaddrs = as, ps_preferred = (peer_id \<in> protected s),
             ps_score = (case gs_peer_score ops (swarm s) peer_id of None \<Rightarrow> 0 | Some x \<Rightarrow> x)\<rparr>)
       (entries (connected s) ord)"

text \<open>
  \<open>EventLoop::handle_command\<close>. \<open>ord\<close> is the order in which the command's one iteration over
  a hash map or set visits it: the protected set, the dial hints or the connection table.
\<close>

fun handle_command ::
    "('w, 'p) swarm_ops \<Rightarrow> 'p list \<Rightarrow> 'p command
      \<Rightarrow> ('w, 'p, 'c) event_loop \<Rightarrow> ('w, 'p, 'c) event_loop" where
  "handle_command ops ord (StartListening addr sd) s =
     (case sw_listen_on ops addr (swarm s) of
        (res, w) \<Rightarrow>
          answer sd (case res of Inr _ \<Rightarrow> Inr Done | Inl e \<Rightarrow> Inl (BoxedTransportError e))
            (s\<lparr>swarm := w\<rparr>))"
| "handle_command ops ord (Dial peer_id peer_addrs sd) s = handle_dial ops peer_id peer_addrs sd s"
| "handle_command ops ord (Identify sd) s =
     answer sd (Inr (NodeInfoOf
       \<lparr>ni_peer_id = sw_local_peer_id ops (swarm s),
        listen_multiaddrs = sw_listeners ops (swarm s),
        external_multiaddrs = sw_external_addresses ops (swarm s)\<rparr>)) s"
| "handle_command ops ord (Subscribe t sd) s =
     (case gs_subscribe ops t (swarm s) of
        (res, w) \<Rightarrow>
          answer sd (case res of Inr _ \<Rightarrow> Inr Done | Inl e \<Rightarrow> Inl (BoxedSubscriptionError e))
            (s\<lparr>swarm := w\<rparr>))"
| "handle_command ops ord (PublishMessage t message sd) s =
     (case gs_publish ops t message (swarm s) of
        (res, w) \<Rightarrow>
          answer sd (case res of Inr _ \<Rightarrow> Inr Done | Inl e \<Rightarrow> Inl (BoxedPublishError e))
            (s\<lparr>swarm := w\<rparr>))"
| "handle_command ops ord (NetworkSnapshot sd) s =
     answer sd (Inr (SnapshotOf
       \<lparr>snapshot_connected = dom (connected s), snapshot_preferred = entries (dial_hints s) ord\<rparr>)) s"
| "handle_command ops ord (SetPreferredPeers new_peers sd) s =
     handle_set_preferred ops ord new_peers sd s"
| "handle_command ops ord (GetPeers sd) s =
     answer sd (Inr (PeersOf (peer_snapshots ops ord s))) s"

text \<open>The sender a command carries, and the map a command iterates.\<close>

fun sender_of :: "'p command \<Rightarrow> sender" where
  "sender_of (StartListening _ sd) = sd"
| "sender_of (Dial _ _ sd) = sd"
| "sender_of (Identify sd) = sd"
| "sender_of (Subscribe _ sd) = sd"
| "sender_of (PublishMessage _ _ sd) = sd"
| "sender_of (NetworkSnapshot sd) = sd"
| "sender_of (SetPreferredPeers _ sd) = sd"
| "sender_of (GetPeers sd) = sd"

fun order_ok :: "'p command \<Rightarrow> ('w, 'p, 'c) event_loop \<Rightarrow> 'p list \<Rightarrow> bool" where
  "order_ok (NetworkSnapshot _) s ord \<longleftrightarrow> iterates (dom (dial_hints s)) ord"
| "order_ok (SetPreferredPeers _ _) s ord \<longleftrightarrow> iterates (protected s) ord"
| "order_ok (GetPeers _) s ord \<longleftrightarrow> iterates (dom (connected s)) ord"
| "order_ok _ _ _ \<longleftrightarrow> True"

text \<open>
  \<open>EventLoop::run\<close> takes whatever comes first, an event or a command, until the command
  channel is closed; what is left of the inputs is then never handled.
\<close>

datatype 'p loop_input =
    SwarmInput "'p reading" "'p swarm_event"
  | CommandInput "'p list" "'p command"
  | CommandChannelClosed

fun run_loop ::
    "('w, 'p) swarm_ops \<Rightarrow> ('c, 'r) broadcast_ops \<Rightarrow> 'p loop_input list
      \<Rightarrow> ('w, 'p, 'c) event_loop \<Rightarrow> ('w, 'p, 'c) event_loop" where
  "run_loop ops bops [] s = s"
| "run_loop ops bops (SwarmInput rd ev # rest) s = run_loop ops bops rest (handle_event ops bops rd ev s)"
| "run_loop ops bops (CommandInput ord c # rest) s = run_loop ops bops rest (handle_command ops ord c s)"
| "run_loop ops bops (CommandChannelClosed # rest) s = s"

end
