(* ===== verification/Event_Loop_Dials.thy ===== *)
theory Event_Loop_Dials
  imports Event_Loop
begin

section \<open>Frames of the handlers, and the answers to commands\<close>

text \<open>
  First, what each handler leaves alone, field by field, as simplification rules. Then the
  bookkeeping of answers: every command's sender is either answered exactly once or waits in
  \<open>pending_dials\<close>, whatever the swarm does.
\<close>

subsection \<open>Frames\<close>

lemmas loop_helper_defs [handler_defs] =
  answer_def answer_all_def enforce_connection_limits_def handle_message_def handle_identify_def
  complete_dial_def handle_established_def handle_closed_def handle_outgoing_error_def
  handle_dial_def

lemma answer_frame [frame_simps, simp]:
  "swarm (answer sd r s) = swarm s"
  "subscriptions (answer sd r s) = subscriptions s"
  "pending_dials (answer sd r s) = pending_dials s"
  "loop_metrics (answer sd r s) = loop_metrics s"
  "peerstore (answer sd r s) = peerstore s"
  "settings (answer sd r s) = settings s"
  "limits (answer sd r s) = limits s"
  "connected (answer sd r s) = connected s"
  "protected (answer sd r s) = protected s"
  "bootstrap_peers (answer sd r s) = bootstrap_peers s"
  "dial_hints (answer sd r s) = dial_hints s"
  "replies (answer sd r s) = replies s @ [(sd, r)]"
  by (simp_all add: answer_def)

lemma answer_all_frame [frame_simps, simp]:
  "swarm (answer_all sds r s) = swarm s"
  "subscriptions (answer_all sds r s) = subscriptions s"
  "pending_dials (answer_all sds r s) = pending_dials s"
  "loop_metrics (answer_all sds r s) = loop_metrics s"
  "peerstore (answer_all sds r s) = peerstore s"
  "settings (answer_all sds r s) = settings s"
  "limits (answer_all sds r s) = limits s"
  "connected (answer_all sds r s) = connected s"
  "protected (answer_all sds r s) = protected s"
  "bootstrap_peers (answer_all sds r s) = bootstrap_peers s"
  "dial_hints (answer_all sds r s) = dial_hints s"
  "replies (answer_all sds r s) = replies s @ map (\<lambda>sd. (sd, r)) sds"
  by (simp_all add: answer_all_def)

lemma enforce_frame [frame_simps, simp]:
  "subscriptions (enforce_connection_limits ops p i a s) = subscriptions s"
  "pending_dials (enforce_connection_limits ops p i a s) = pending_dials s"
  "loop_metrics (enforce_connection_limits ops p i a s) = loop_metrics s"
  "peerstore (enforce_connection_limits ops p i a s) = peerstore s"
  "settings (enforce_connection_limits ops p i a s) = settings s"
  "limits (enforce_connection_limits ops p i a s) =
     snd (on_connection a (p \<in> protected s) (limits s))"
  "connected (enforce_connection_limits ops p i a s) = connected s"
  "protected (enforce_connection_limits ops p i a s) = protected s"
  "bootstrap_peers (enforce_connection_limits ops p i a s) = bootstrap_peers s"
  "dial_hints (enforce_connection_limits ops p i a s) = dial_hints s"
  "replies (enforce_connection_limits ops p i a s) = replies s"
  by (simp_all add: enforce_connection_limits_def Let_def split: prod.split)

lemma handle_message_frame [frame_simps, simp]:
  "swarm (handle_message bops rd src t bs s) = swarm s"
  "pending_dials (handle_message bops rd src t bs s) = pending_dials s"
  "connected_peers (loop_metrics (handle_message bops rd src t bs s)) =
     connected_peers (loop_metrics s)"
  "peerstore (handle_message bops rd src t bs s) = peerstore s"
  "settings (handle_message bops rd src t bs s) = settings s"
  "limits (handle_message bops rd src t bs s) = limits s"
  "connected (handle_message bops rd src t bs s) = connected s"
  "protected (handle_message bops rd src t bs s) = protected s"
  "bootstrap_peers (handle_message bops rd src t bs s) = bootstrap_peers s"
  "dial_hints (handle_message bops rd src t bs s) = dial_hints s"
  "replies (handle_message bops rd src t bs s) = replies s"
  by (simp_all add: handle_message_def Let_def split: option.split)

lemma handle_identify_frame [frame_simps, simp]:
  "swarm (handle_identify rd p as s) = swarm s"
  "subscriptions (handle_identify rd p as s) = subscriptions s"
  "pending_dials (handle_identify rd p as s) = pending_dials s"
  "loop_metrics (handle_identify rd p as s) = loop_metrics s"
  "settings (handle_identify rd p as s) = settings s"
  "limits (handle_identify rd p as s) = limits s"
  "connected (handle_identify rd p as s) = connected s"
  "protected (handle_identify rd p as s) = protected s"
  "bootstrap_peers (handle_identify rd p as s) = bootstrap_peers s"
  "dial_hints (handle_identify rd p as s) = dial_hints s"
  "replies (handle_identify rd p as s) = replies s"
  by (simp_all add: handle_identify_def Let_def)

lemma complete_dial_frame [frame_simps, simp]:
  "swarm (complete_dial rd p ep s) = swarm s"
  "subscriptions (complete_dial rd p ep s) = subscriptions s"
  "loop_metrics (complete_dial rd p ep s) = loop_metrics s"
  "peerstore (complete_dial rd p ep s) = record_peer (peer_to_string rd) (addr_to_string rd) p
     [remote_address ep] (now_unix rd) (peerstore s)"
  "settings (complete_dial rd p ep s) = settings s"
  "limits (complete_dial rd p ep s) = limits s"
  "connected (complete_dial rd p ep s) = connected s"
  "protected (complete_dial rd p ep s) = protected s"
  "bootstrap_peers (complete_dial rd p ep s) = bootstrap_peers s"
  "dial_hints (complete_dial rd p ep s) = dial_hints s"
  "pending_dials (complete_dial rd p ep s) = (pending_dials s)(p := None)"
  "replies (complete_dial rd p ep s) =
     replies s @ (case pending_dials s p of None \<Rightarrow> [] | Some sds \<Rightarrow> map (\<lambda>sd. (sd, Inr Done)) sds)"
  by (auto simp: complete_dial_def Let_def fun_eq_iff split: option.split)

lemma handle_established_frame [frame_simps, simp]:
  "subscriptions (handle_established ops rd p ep i s) = subscriptions s"
  "settings (handle_established ops rd p ep i s) = settings s"
  "protected (handle_established ops rd p ep i s) = protected s"
  "bootstrap_peers (handle_established ops rd p ep i s) = bootstrap_peers s"
  "dial_hints (handle_established ops rd p ep i s) = dial_hints s"
  "connected (handle_established ops rd p ep i s) =
     (connected s)(p \<mapsto> (case connected s p of None \<Rightarrow> [] | Some as \<Rightarrow> as) @ [remote_address ep])"
  "limits (handle_established ops rd p ep i s) =
     snd (on_connection (remote_address ep) (p \<in> protected s) (limits s))"
  "loop_metrics (handle_established ops rd p ep i s) =
     (loop_metrics s)\<lparr>connected_peers := connected_peers (loop_metrics s) + 1\<rparr>"
  by (simp_all add: handle_established_def Let_def)

lemma handle_established_dials:
  "pending_dials (handle_established ops rd p ep i s) =
     (if is_dialer ep then (pending_dials s)(p := None) else pending_dials s)"
  "replies (handle_established ops rd p ep i s) = replies s @
     (if is_dialer ep
      then (case pending_dials s p of None \<Rightarrow> [] | Some sds \<Rightarrow> map (\<lambda>sd. (sd, Inr Done)) sds)
      else [])"
  "peerstore (handle_established ops rd p ep i s) =
     (if is_dialer ep
      then record_peer (peer_to_string rd) (addr_to_string rd) p [remote_address ep] (now_unix rd)
             (peerstore s)
      else peerstore s)"
  by (simp_all add: handle_established_def Let_def split: option.split)

lemma handle_closed_frame [frame_simps, simp]:
  "swarm (handle_closed p ep n s) = swarm s"
  "subscriptions (handle_closed p ep n s) = subscriptions s"
  "pending_dials (handle_closed p ep n s) = pending_dials s"
  "loop_metrics (handle_closed p ep n s) =
     (loop_metrics s)\<lparr>connected_peers := connected_peers (loop_metrics s) - 1\<rparr>"
  "peerstore (handle_closed p ep n s) = peerstore s"
  "settings (handle_closed p ep n s) = settings s"
  "limits (handle_closed p ep n s) = on_disconnection (remote_address ep) (limits s)"
  "protected (handle_closed p ep n s) = protected s"
  "bootstrap_peers (handle_closed p ep n s) = bootstrap_peers s"
  "dial_hints (handle_closed p ep n s) = dial_hints s"
  "replies (handle_closed p ep n s) = replies s"
  by (simp_all add: handle_closed_def Let_def split: option.split)

lemma handle_closed_connected:
  "connected (handle_closed p ep n s) =
     (if n = 0 then (connected s)(p := None)
      else (connected s)(p := map_option (filter (\<lambda>a. a \<noteq> remote_address ep)) (connected s p)))"
  by (auto simp: handle_closed_def Let_def fun_eq_iff split: option.split)

lemma handle_outgoing_error_frame [frame_simps, simp]:
  "swarm (handle_outgoing_error p e s) = swarm s"
  "subscriptions (handle_outgoing_error p e s) = subscriptions s"
  "loop_metrics (handle_outgoing_error p e s) = loop_metrics s"
  "peerstore (handle_outgoing_error p e s) = peerstore s"
  "settings (handle_outgoing_error p e s) = settings s"
  "limits (handle_outgoing_error p e s) = limits s"
  "connected (handle_outgoing_error p e s) = connected s"
  "protected (handle_outgoing_error p e s) = protected s"
  "bootstrap_peers (handle_outgoing_error p e s) = bootstrap_peers s"
  "dial_hints (handle_outgoing_error p e s) = dial_hints s"
  by (simp_all add: handle_outgoing_error_def split: option.split)

lemma handle_dial_frame [frame_simps, simp]:
  "subscriptions (handle_dial ops p as sd s) = subscriptions s"
  "loop_metrics (handle_dial ops p as sd s) = loop_metrics s"
  "peerstore (handle_dial ops p as sd s) = peerstore s"
  "settings (handle_dial ops p as sd s) = settings s"
  "limits (handle_dial ops p as sd s) = limits s"
  "connected (handle_dial ops p as sd s) = connected s"
  "protected (handle_dial ops p as sd s) = protected s"
  "bootstrap_peers (handle_dial ops p as sd s) = bootstrap_peers s"
  "dial_hints (handle_dial ops p as sd s) = dial_hints s"
  by (simp_all add: handle_dial_def Let_def split: option.split prod.split sum.split dial_error.split)

subsection \<open>Replacing the preferred peers\<close>

lemma drop_preferred_frame [frame_simps, simp]:
  "subscriptions (drop_preferred ops N p s) = subscriptions s"
  "pending_dials (drop_preferred ops N p s) = pending_dials s"
  "loop_metrics (drop_preferred ops N p s) = loop_metrics s"
  "peerstore (drop_preferred ops N p s) = peerstore s"
  "settings (drop_preferred ops N p s) = settings s"
  "limits (drop_preferred ops N p s) = limits s"
  "connected (drop_preferred ops N p s) = connected s"
  "bootstrap_peers (drop_preferred ops N p s) = bootstrap_peers s"
  "dial_hints (drop_preferred ops N p s) = dial_hints s"
  "replies (drop_preferred ops N p s) = replies s"
  by (simp_all add: drop_preferred_def)

lemma add_preferred_frame [frame_simps, simp]:
  "subscriptions (add_preferred ops e s) = subscriptions s"
  "pending_dials (add_preferred ops e s) = pending_dials s"
  "loop_metrics (add_preferred ops e s) = loop_metrics s"
  "peerstore (add_preferred ops e s) = peerstore s"
  "settings (add_preferred ops e s) = settings s"
  "limits (add_preferred ops e s) = limits s"
  "connected (add_preferred ops e s) = connected s"
  "bootstrap_peers (add_preferred ops e s) = bootstrap_peers s"
  "replies (add_preferred ops e s) = replies s"
  "protected (add_preferred ops e s) = insert (fst e) (protected s)"
  "dial_hints (add_preferred ops e s) = (dial_hints s)(fst e \<mapsto> snd e)"
  "swarm (add_preferred ops e s) =
     gs_set_application_score ops (fst e) preferred_peer_app_score (swarm s)"
  by (simp_all add: add_preferred_def split: prod.split)

lemma fold_preserves: "(\<And>x s. g (f x s) = g s) \<Longrightarrow> g (fold f xs s) = g s"
  by (induction xs arbitrary: s) simp_all

lemmas fold_drop_frame [simp] =
  fold_preserves [where f = "drop_preferred ops N" for ops N, OF drop_preferred_frame(1)]
  fold_preserves [where f = "drop_preferred ops N" for ops N, OF drop_preferred_frame(2)]
  fold_preserves [where f = "drop_preferred ops N" for ops N, OF drop_preferred_frame(3)]
  fold_preserves [where f = "drop_preferred ops N" for ops N, OF drop_preferred_frame(4)]
  fold_preserves [where f = "drop_preferred ops N" for ops N, OF drop_preferred_frame(5)]
  fold_preserves [where f = "drop_preferred ops N" for ops N, OF drop_preferred_frame(6)]
  fold_preserves [where f = "drop_preferred ops N" for ops N, OF drop_preferred_frame(7)]
  fold_preserves [where f = "drop_preferred ops N" for ops N, OF drop_preferred_frame(8)]
  fold_preserves [where f = "drop_preferred ops N" for ops N, OF drop_preferred_frame(9)]
  fold_preserves [where f = "drop_preferred ops N" for ops N, OF drop_preferred_frame(10)]

lemmas fold_add_frame [simp] =
  fold_preserves [where f = "add_preferred ops" for ops, OF add_preferred_frame(1)]
  fold_preserves [where f = "add_preferred ops" for ops, OF add_preferred_frame(2)]
  fold_preserves [where f = "add_preferred ops" for ops, OF add_preferred_frame(3)]
  fold_preserves [where f = "add_preferred ops" for ops, OF add_preferred_frame(4)]
  fold_preserves [where f = "add_preferred ops" for ops, OF add_preferred_frame(5)]
  fold_preserves [where f = "add_preferred ops" for ops, OF add_preferred_frame(6)]
  fold_preserves [where f = "add_preferred ops" for ops, OF add_preferred_frame(7)]
  fold_preserves [where f = "add_preferred ops" for ops, OF add_preferred_frame(8)]
  fold_preserves [where f = "add_preferred ops" for ops, OF add_preferred_frame(9)]

lemma fold_drop_protected:
  "protected (fold (drop_preferred ops N) ord s) =
     protected s - {p \<in> set ord. p \<notin> N \<and> p \<notin> bootstrap_peers s}"
  by (induction ord arbitrary: s) (auto simp: drop_preferred_def)

lemma fold_drop_swarm:
  "swarm (fold (drop_preferred ops N) ord s) =
     fold (\<lambda>p. gs_set_application_score ops p 0)
       (filter (\<lambda>p. p \<notin> N \<and> p \<notin> bootstrap_peers s) ord) (swarm s)"
  by (induction ord arbitrary: s) (simp_all add: drop_preferred_def)

lemma fold_add_protected:
  "protected (fold (add_preferred ops) es s) = protected s \<union> fst ` set es"
  by (induction es arbitrary: s) auto

lemma fold_add_hints:
  "dial_hints (fold (add_preferred ops) es s) = insert_all es (dial_hints s)"
  by (induction es arbitrary: s) (auto simp: insert_all_def split: prod.split)

lemma fold_add_swarm:
  "swarm (fold (add_preferred ops) es s) =
     fold (\<lambda>p. gs_set_application_score ops p preferred_peer_app_score) (map fst es) (swarm s)"
  by (induction es arbitrary: s) simp_all

lemma handle_set_preferred_frame [frame_simps, simp]:
  "subscriptions (handle_set_preferred ops ord ps sd s) = subscriptions s"
  "pending_dials (handle_set_preferred ops ord ps sd s) = pending_dials s"
  "loop_metrics (handle_set_preferred ops ord ps sd s) = loop_metrics s"
  "peerstore (handle_set_preferred ops ord ps sd s) = peerstore s"
  "settings (handle_set_preferred ops ord ps sd s) = settings s"
  "limits (handle_set_preferred ops ord ps sd s) = limits s"
  "connected (handle_set_preferred ops ord ps sd s) = connected s"
  "bootstrap_peers (handle_set_preferred ops ord ps sd s) = bootstrap_peers s"
  by (simp_all add: handle_set_preferred_def Let_def)

text \<open>The new protected set, hints, scores and answer.\<close>

lemma handle_set_preferred_result:
  fixes s :: "('w, 'p, 'c) event_loop"
  defines "cap \<equiv> protected_cap (settings s)"
  shows "protected (handle_set_preferred ops ord ps sd s) =
      protected s - {p \<in> set ord. p \<notin> fst ` set (take cap ps) \<and> p \<notin> bootstrap_peers s}
        \<union> fst ` set (take cap ps)"
    "dial_hints (handle_set_preferred ops ord ps sd s) = insert_all (take cap ps) Map.empty"
    "swarm (handle_set_preferred ops ord ps sd s) =
       fold (\<lambda>p. gs_set_application_score ops p preferred_peer_app_score) (map fst (take cap ps))
         (fold (\<lambda>p. gs_set_application_score ops p 0)
           (filter (\<lambda>p. p \<notin> fst ` set (take cap ps) \<and> p \<notin> bootstrap_peers s) ord) (swarm s))"
    "replies (handle_set_preferred ops ord ps sd s) =
       replies s @ [(sd, Inr (AcceptedTruncated (of_nat (length (take cap ps)))
         (of_nat (length ps - cap))))]"
  by (simp_all add: handle_set_preferred_def Let_def fold_drop_protected fold_add_protected
      fold_add_hints fold_add_swarm fold_drop_swarm cap_def)

subsection \<open>Every sender is answered once or waits\<close>

definition waiting :: "('p \<rightharpoonup> sender list) \<Rightarrow> sender multiset" where
  "waiting m = (\<Sum>p \<in> dom m. mset (the (m p)))"

definition answered :: "('w, 'p, 'c) event_loop \<Rightarrow> sender multiset" where
  "answered s = mset (map fst (replies s))"

lemma waiting_empty [simp]: "waiting Map.empty = {#}"
  by (simp add: waiting_def)

lemma waiting_remove:
  assumes "finite (dom m)" "m p = Some sds"
  shows "waiting m = mset sds + waiting (m(p := None))"
proof -
  have "waiting m = mset (the (m p)) + (\<Sum>q \<in> dom m - {p}. mset (the (m q)))"
    unfolding waiting_def using assms by (intro sum.remove) auto
  also have "(\<Sum>q \<in> dom m - {p}. mset (the (m q))) = waiting (m(p := None))"
    unfolding waiting_def by (intro sum.cong) auto
  finally show ?thesis using assms(2) by simp
qed

lemma waiting_insert:
  assumes "finite (dom m)"
  shows "waiting (m(p \<mapsto> sds)) = mset sds + waiting (m(p := None))"
  using waiting_remove [of "m(p \<mapsto> sds)" p sds] assms by simp

lemma waiting_absent: "m p = None \<Longrightarrow> waiting (m(p := None)) = waiting m"
  by (simp add: fun_upd_idem)

text \<open>
  The dials in flight are finitely many, none with an empty queue, and answered and waiting
  senders together are a given multiset.
\<close>

definition dials_account :: "('w, 'p, 'c) event_loop \<Rightarrow> sender multiset \<Rightarrow> bool" where
  "dials_account s issued \<longleftrightarrow>
     finite (dom (pending_dials s)) \<and> (\<forall>p. pending_dials s p \<noteq> Some []) \<and>
     answered s + waiting (pending_dials s) = issued"

text \<open>Taking the queue of one peer and answering all of it keeps the account.\<close>

lemma account_answer_all:
  assumes acc: "dials_account s issued"
    and pend: "pending_dials s' = (pending_dials s)(p := None)"
    and repl: "replies s' = replies s @
      (case pending_dials s p of None \<Rightarrow> [] | Some sds \<Rightarrow> map (\<lambda>sd. (sd, r)) sds)"
  shows "dials_account s' issued"
proof -
  have fin: "finite (dom (pending_dials s'))" and ne: "\<forall>q. pending_dials s' q \<noteq> Some []"
    using acc by (auto simp: dials_account_def pend)
  have "answered s' + waiting (pending_dials s') = issued"
  proof (cases "pending_dials s p")
    case None
    with acc show ?thesis
      by (simp add: dials_account_def answered_def repl pend waiting_absent)
  next
    case (Some sds)
    then have "answered s' = answered s + mset sds"
      by (simp add: answered_def repl comp_def)
    moreover have "waiting (pending_dials s) = mset sds + waiting (pending_dials s')"
      using acc Some by (simp add: pend dials_account_def waiting_remove)
    ultimately show ?thesis using acc by (simp add: dials_account_def ac_simps)
  qed
  with fin ne show ?thesis by (simp add: dials_account_def)
qed

lemma account_unchanged:
  "\<lbrakk>dials_account s issued; pending_dials s' = pending_dials s; replies s' = replies s\<rbrakk>
     \<Longrightarrow> dials_account s' issued"
  by (simp add: dials_account_def answered_def)

lemma account_answered:
  "\<lbrakk>dials_account s issued; pending_dials s' = pending_dials s; replies s' = replies s @ [(sd, r)]\<rbrakk>
     \<Longrightarrow> dials_account s' (add_mset sd issued)"
  by (auto simp: dials_account_def answered_def)

lemma handle_outgoing_error_dials:
  "pending_dials (handle_outgoing_error (Some p) e s) = (pending_dials s)(p := None)"
  "replies (handle_outgoing_error (Some p) e s) = replies s @
     (case pending_dials s p of None \<Rightarrow> [] | Some sds \<Rightarrow> map (\<lambda>sd. (sd, Inl (DialFailed e))) sds)"
  by (auto simp: handle_outgoing_error_def fun_eq_iff split: option.split)

lemma account_event:
  assumes "dials_account s issued"
  shows "dials_account (handle_event ops bops rd ev s) issued"
proof (cases ev)
  case (ConnectionEstablished p ep i)
  show ?thesis
  proof (cases "is_dialer ep")
    case True
    then show ?thesis
      using ConnectionEstablished
      by (simp add: handle_established_dials account_answer_all [OF assms])
  next
    case False
    then show ?thesis
      using ConnectionEstablished
      by (simp add: handle_established_dials account_unchanged [OF assms])
  qed
next
  case (OutgoingConnectionError p e)
  show ?thesis
  proof (cases p)
    case None
    with OutgoingConnectionError assms show ?thesis by (simp add: handle_outgoing_error_def)
  next
    case (Some q)
    with OutgoingConnectionError show ?thesis
      by (simp add: handle_outgoing_error_dials account_answer_all [OF assms])
  qed
qed (use assms in \<open>simp_all add: account_unchanged [OF assms]\<close>)

text \<open>A dial adds its sender to the account, in the queue or answered at once.\<close>

lemma account_dial:
  assumes acc: "dials_account s issued"
  shows "dials_account (handle_dial ops p as sd s) (add_mset sd issued)"
proof (cases "pending_dials s p")
  case (Some sds)
  then have pend: "pending_dials (handle_dial ops p as sd s) = (pending_dials s)(p \<mapsto> sds @ [sd])"
    and repl: "replies (handle_dial ops p as sd s) = replies s"
    by (simp_all add: handle_dial_def)
  have "waiting (pending_dials s) = mset sds + waiting ((pending_dials s)(p := None))"
    using acc Some by (simp add: dials_account_def waiting_remove)
  then have "waiting ((pending_dials s)(p \<mapsto> sds @ [sd])) = add_mset sd (waiting (pending_dials s))"
    using acc by (simp add: dials_account_def waiting_insert)
  with acc show ?thesis
    by (auto simp: dials_account_def answered_def pend repl)
next
  case None
  obtain res w where res: "sw_dial ops p as (swarm s) = (res, w)" by fastforce
  show ?thesis
  proof (cases res)
    case (Inr u)
    then have pend: "pending_dials (handle_dial ops p as sd s) = (pending_dials s)(p \<mapsto> [sd])"
      and repl: "replies (handle_dial ops p as sd s) = replies s"
      using None res by (simp_all add: handle_dial_def)
    have "waiting ((pending_dials s)(p \<mapsto> [sd])) = add_mset sd (waiting (pending_dials s))"
      using acc None by (simp add: dials_account_def waiting_insert waiting_absent)
    with acc show ?thesis
      by (auto simp: dials_account_def answered_def pend repl)
  next
    case (Inl e)
    then have "pending_dials (handle_dial ops p as sd s) = pending_dials s"
      "\<exists>r. replies (handle_dial ops p as sd s) = replies s @ [(sd, r)]"
      using None res by (cases e; simp add: handle_dial_def)+
    then show ?thesis by (blast intro: account_answered [OF acc])
  qed
qed

lemma account_command:
  assumes "dials_account s issued"
  shows "dials_account (handle_command ops ord c s) (add_mset (sender_of c) issued)"
proof (cases c)
  case (SetPreferredPeers ps sd)
  then show ?thesis
    by (simp add: account_answered [OF assms] handle_set_preferred_result(4))
qed (simp_all add: account_dial [OF assms] account_answered [OF assms] split: prod.split)

text \<open>The senders of the commands the loop takes before its channel closes.\<close>

fun senders_taken :: "'p loop_input list \<Rightarrow> sender multiset" where
  "senders_taken [] = {#}"
| "senders_taken (SwarmInput rd ev # rest) = senders_taken rest"
| "senders_taken (CommandInput ord c # rest) = add_mset (sender_of c) (senders_taken rest)"
| "senders_taken (CommandChannelClosed # rest) = {#}"

lemma account_run:
  "dials_account s issued \<Longrightarrow>
     dials_account (run_loop ops bops inputs s) (issued + senders_taken inputs)"
proof (induction inputs arbitrary: s issued rule: senders_taken.induct)
  case (2 rd ev rest)
  then show ?case by (simp add: account_event)
next
  case (3 ord c rest)
  from 3(1) [OF account_command [OF 3(2)]] show ?case by simp
qed simp_all

lemma account_new: "dials_account (event_loop_new w subs m store cfg boots) {#}"
  by (simp add: dials_account_def event_loop_new_def answered_def)

end
