(* ===== verification/Event_Loop_Network.thy ===== *)
theory Event_Loop_Network
  imports Event_Loop_Dials
begin

section \<open>The event loop beside its connections\<close>

text \<open>
  The event loop in its environment: libp2p announces each connection once when it is
  established and once when it is closed, with the number of connections to the same peer that
  remain; every other event and every command may come at any time. \<open>live\<close> lists the open
  connections (number, peer, endpoint). The invariants relate the loop's tables to it.
\<close>

type_synonym 'p live_connection = "connection_id \<times> 'p \<times> 'p endpoint"

record ('w, 'p, 'c) network =
  event_loop :: "('w, 'p, 'c) event_loop"
  live :: "'p live_connection list"

definition live_of :: "'p \<Rightarrow> 'p live_connection list \<Rightarrow> 'p live_connection list" where
  "live_of p = filter (\<lambda>(i, q, ep). q = p)"

definition address_of :: "'p live_connection \<Rightarrow> 'p multiaddr" where
  "address_of c = remote_address (snd (snd c))"

fun is_connection_event :: "'p swarm_event \<Rightarrow> bool" where
  "is_connection_event (ConnectionEstablished _ _ _) \<longleftrightarrow> True"
| "is_connection_event (ConnectionClosed _ _ _) \<longleftrightarrow> True"
| "is_connection_event _ \<longleftrightarrow> False"

inductive net_step ::
    "('w, 'p) swarm_ops \<Rightarrow> ('c, 'r) broadcast_ops
      \<Rightarrow> ('w, 'p, 'c) network \<Rightarrow> ('w, 'p, 'c) network \<Rightarrow> bool"
  for ops bops where
  established: "i \<notin> fst ` set (live n) \<Longrightarrow>
     net_step ops bops n
       \<lparr>event_loop = handle_event ops bops rd (ConnectionEstablished p ep i) (event_loop n),
        live = (i, p, ep) # live n\<rparr>"
| closed: "(i, p, ep) \<in> set (live n) \<Longrightarrow> L = remove1 (i, p, ep) (live n) \<Longrightarrow>
     net_step ops bops n
       \<lparr>event_loop = handle_event ops bops rd
          (ConnectionClosed p ep (length (live_of p L))) (event_loop n),
        live = L\<rparr>"
| other_event: "\<not> is_connection_event ev \<Longrightarrow>
     net_step ops bops n
       \<lparr>event_loop = handle_event ops bops rd ev (event_loop n), live = live n\<rparr>"
| command: "order_ok c (event_loop n) ord \<Longrightarrow>
     net_step ops bops n
       \<lparr>event_loop = handle_command ops ord c (event_loop n), live = live n\<rparr>"

text \<open>The start: no connection, and metrics whose gauge is at 0.\<close>

definition net_start :: "('w, 'p, 'c) network \<Rightarrow> bool" where
  "net_start n \<longleftrightarrow> live n = [] \<and>
     (\<exists>w subs m store cfg boots. finite boots \<and> connected_peers m = 0 \<and>
        event_loop n = event_loop_new w subs m store cfg boots)"

definition net_reachable ::
    "('w, 'p) swarm_ops \<Rightarrow> ('c, 'r) broadcast_ops \<Rightarrow> ('w, 'p, 'c) network \<Rightarrow> bool" where
  "net_reachable ops bops n \<longleftrightarrow> (\<exists>n0. net_start n0 \<and> (net_step ops bops)\<^sup>*\<^sup>* n0 n)"

subsection \<open>What commands and other events leave alone\<close>

lemma command_frame [frame_simps]:
  "connected (handle_command ops ord c s) = connected s"
  "limits (handle_command ops ord c s) = limits s"
  "loop_metrics (handle_command ops ord c s) = loop_metrics s"
  "settings (handle_command ops ord c s) = settings s"
  "bootstrap_peers (handle_command ops ord c s) = bootstrap_peers s"
  "peerstore (handle_command ops ord c s) = peerstore s"
  "subscriptions (handle_command ops ord c s) = subscriptions s"
  by (cases c; simp split: prod.split)+

lemma other_event_frame [frame_simps]:
  assumes "\<not> is_connection_event ev"
  shows "connected (handle_event ops bops rd ev s) = connected s"
    "limits (handle_event ops bops rd ev s) = limits s"
    "connected_peers (loop_metrics (handle_event ops bops rd ev s)) =
       connected_peers (loop_metrics s)"
  using assms by (cases ev; simp)+

lemma event_frame [frame_simps]:
  "protected (handle_event ops bops rd ev s) = protected s"
  "bootstrap_peers (handle_event ops bops rd ev s) = bootstrap_peers s"
  "dial_hints (handle_event ops bops rd ev s) = dial_hints s"
  "settings (handle_event ops bops rd ev s) = settings s"
  by (cases ev; simp)+

subsection \<open>The protected set\<close>

text \<open>
  The protected peers are the bootstrap peers and the peers with dial hints (the preferred
  ones), and the preferred ones are at most as many as the cap allows.
\<close>

definition protected_inv :: "('w, 'p, 'c) network \<Rightarrow> bool" where
  "protected_inv n \<longleftrightarrow>
     (let s = event_loop n
      in protected s = bootstrap_peers s \<union> dom (dial_hints s) \<and>
         finite (bootstrap_peers s) \<and> finite (dom (dial_hints s)) \<and>
         card (dom (dial_hints s)) \<le> protected_cap (settings s))"

lemma card_take_keys: "card (fst ` set (take n ps)) \<le> n"
  using card_image_le [of "set (take n ps)" fst] card_length [of "take n ps"] by simp

lemma protected_inv_command:
  assumes inv: "protected_inv n" and ord: "order_ok c (event_loop n) ord"
    and n': "event_loop n' = handle_command ops ord c (event_loop n)"
  shows "protected_inv n'"
proof (cases "\<exists>ps sd. c = SetPreferredPeers ps sd")
  case True
  then obtain ps sd where c: "c = SetPreferredPeers ps sd" by blast
  let ?s = "event_loop n" and ?new = "take (protected_cap (settings (event_loop n))) ps"
  have "set ord = protected ?s" using ord c by (auto dest: iterates_set)
  then have "protected (event_loop n') = bootstrap_peers ?s \<union> fst ` set ?new"
    using inv by (auto simp: n' c handle_set_preferred_result protected_inv_def Let_def)
  moreover have "dom (dial_hints (event_loop n')) = fst ` set ?new"
    by (simp add: n' c handle_set_preferred_result dom_insert_all)
  moreover have "bootstrap_peers (event_loop n') = bootstrap_peers ?s"
    "settings (event_loop n') = settings ?s"
    by (simp_all add: n' command_frame)
  ultimately show ?thesis
    using inv by (simp add: protected_inv_def Let_def card_take_keys)
next
  case False
  then have "protected (event_loop n') = protected (event_loop n) \<and>
    dial_hints (event_loop n') = dial_hints (event_loop n)"
    by (cases c) (auto simp: n' split: prod.splits)
  then show ?thesis using inv by (simp add: protected_inv_def n' command_frame Let_def)
qed

lemma protected_inv_event:
  "\<lbrakk>protected_inv n; event_loop n' = handle_event ops bops rd ev (event_loop n)\<rbrakk>
     \<Longrightarrow> protected_inv n'"
  by (simp add: protected_inv_def event_frame Let_def)

interpretation protected_net:
  invariant_system net_start "net_step ops bops" protected_inv for ops bops
proof unfold_locales
  fix n :: "('a, 'b, 'c) network"
  assume "net_start n"
  then show "protected_inv n"
    by (auto simp: net_start_def protected_inv_def event_loop_new_def)
next
  fix n t :: "('a, 'b, 'c) network"
  assume inv: "protected_inv n" and step: "net_step ops bops n t"
  from step show "protected_inv t"
    by cases (auto intro: protected_inv_event [OF inv] protected_inv_command [OF inv]
        simp del: handle_event.simps handle_command.simps)
qed

subsection \<open>The connection table\<close>

text \<open>
  The connected peers are exactly those with an open connection; the addresses of a peer are
  addresses of its open connections; the gauge counts the open connections; the subnet counts
  are those of the open connections.
\<close>

definition live_subnets_of :: "'p live_connection list \<Rightarrow> subnet_key multiset" where
  "live_subnets_of L = (\<Sum>c \<in># mset L. subnets_of (address_of c))"

definition table_inv :: "('w, 'p, 'c) network \<Rightarrow> bool" where
  "table_inv n \<longleftrightarrow>
     (let s = event_loop n
      in distinct (map fst (live n)) \<and>
         (\<forall>p. connected s p = None \<longleftrightarrow> live_of p (live n) = []) \<and>
         (\<forall>p as. connected s p = Some as \<longrightarrow> set as \<subseteq> address_of ` set (live_of p (live n))) \<and>
         connected_peers (loop_metrics s) = int (length (live n)) \<and>
         limits_refine (limits s) (live_subnets_of (live n)))"

lemma live_of_Cons [simp]:
  "live_of p (c # L) = (if fst (snd c) = p then c # live_of p L else live_of p L)"
  by (cases c) (simp add: live_of_def)

lemma live_of_Nil [simp]: "live_of p [] = []"
  by (simp add: live_of_def)

lemma live_of_remove1:
  "live_of p (remove1 c L) = (if fst (snd c) = p then remove1 c (live_of p L) else live_of p L)"
  by (cases c) (simp add: live_of_def filter_remove1)

lemma live_subnets_of_Cons: "live_subnets_of (c # L) = subnets_of (address_of c) + live_subnets_of L"
  by (simp add: live_subnets_of_def)

lemma live_subnets_of_remove1:
  "c \<in> set L \<Longrightarrow> live_subnets_of L = subnets_of (address_of c) + live_subnets_of (remove1 c L)"
  by (induction L) (auto simp: live_subnets_of_def ac_simps)

lemma set_live_of: "set (live_of p L) = {c \<in> set L. fst (snd c) = p}"
  by (auto simp: live_of_def)

lemma table_inv_established:
  assumes inv: "table_inv n" and i: "i \<notin> fst ` set (live n)"
  shows "table_inv \<lparr>event_loop = handle_event ops bops rd (ConnectionEstablished p ep i) (event_loop n),
    live = (i, p, ep) # live n\<rparr>"
proof -
  let ?s = "event_loop n" and ?L = "(i, p, ep) # live n"
  let ?s' = "handle_event ops bops rd (ConnectionEstablished p ep i) ?s"
  have a: "address_of (i, p, ep) = remote_address ep" by (simp add: address_of_def)
  have known: "connected ?s' q = (if q = p
      then Some ((case connected ?s p of None \<Rightarrow> [] | Some as \<Rightarrow> as) @ [remote_address ep])
      else connected ?s q)" for q by simp
  have "limits_refine (limits ?s') (live_subnets_of ?L)"
    using inv by (simp add: table_inv_def Let_def live_subnets_of_Cons a limiter.connect_refine_add)
  moreover have "set as \<subseteq> address_of ` set (live_of q ?L)" if "connected ?s' q = Some as" for q as
    using that inv unfolding known table_inv_def Let_def
    by (fastforce simp: a split: if_splits option.splits)
  ultimately show ?thesis
    using inv i by (auto simp: table_inv_def Let_def known)
qed

lemma table_inv_closed:
  assumes inv: "table_inv n" and c: "(i, p, ep) \<in> set (live n)"
    and L: "L = remove1 (i, p, ep) (live n)"
  shows "table_inv \<lparr>event_loop = handle_event ops bops rd
    (ConnectionClosed p ep (length (live_of p L))) (event_loop n), live = L\<rparr>"
proof -
  let ?s = "event_loop n" and ?c = "(i, p, ep)"
  let ?s' = "handle_event ops bops rd (ConnectionClosed p ep (length (live_of p L))) ?s"
  have a: "address_of ?c = remote_address ep" by (simp add: address_of_def)
  have Lp: "live_of q L = (if q = p then remove1 ?c (live_of p (live n)) else live_of q (live n))" for q
    by (simp add: L live_of_remove1)
  have "limits_refine (limits ?s') (live_subnets_of L)"
    using inv live_subnets_of_remove1 [OF c]
    by (simp add: table_inv_def Let_def a L limiter.disconnect_refine_remove)
  moreover have "set as \<subseteq> address_of ` set (live_of q L)" if "connected ?s' q = Some as" for q as
  proof (cases "q = p")
    case False
    with that inv Lp show ?thesis
      by (auto simp: handle_closed_connected table_inv_def Let_def split: if_splits)
  next
    case True
    with that obtain as0 where as0: "connected ?s p = Some as0"
      and as: "as = filter (\<lambda>x. x \<noteq> remote_address ep) as0"
      by (auto simp: handle_closed_connected split: if_splits)
    from inv as0 have "set as0 \<subseteq> address_of ` set (live_of p (live n))"
      by (auto simp: table_inv_def Let_def)
    moreover have "set (live_of p (live n)) \<subseteq> insert ?c (set (live_of p L))"
      using set_subset_insert_remove1 [of "live_of p (live n)" ?c] by (simp add: Lp)
    ultimately have "set as0 \<subseteq> insert (remote_address ep) (address_of ` set (live_of p L))"
      using a by fastforce
    with as True show ?thesis by auto
  qed
  moreover have "connected ?s' q = None \<longleftrightarrow> live_of q L = []" for q
  proof (cases "q = p")
    case True
    have "?c \<in> set (live_of p (live n))" using c by (simp add: set_live_of)
    then have "connected ?s p \<noteq> None" using inv by (auto simp: table_inv_def Let_def)
    with True show ?thesis by (auto simp: handle_closed_connected)
  next
    case False
    with inv Lp show ?thesis by (simp add: handle_closed_connected table_inv_def Let_def)
  qed
  moreover have "distinct (map fst L)"
    using inv by (simp add: L table_inv_def Let_def distinct_map_remove1)
  moreover have "int (length L) = int (length (live n)) - 1"
    using length_remove1_Suc [OF c] by (simp add: L)
  ultimately show ?thesis
    using inv by (simp add: table_inv_def Let_def)
qed

interpretation table_net:
  invariant_system net_start "net_step ops bops" table_inv for ops bops
proof unfold_locales
  fix n :: "('a, 'b, 'c) network"
  assume "net_start n"
  then show "table_inv n"
    by (auto simp: net_start_def table_inv_def event_loop_new_def live_subnets_of_def limits_refine_new)
next
  fix n t :: "('a, 'b, 'c) network"
  assume inv: "table_inv n" and step: "net_step ops bops n t"
  from step show "table_inv t"
  proof cases
    case (established i rd p ep)
    then show ?thesis using table_inv_established [OF inv] by simp
  next
    case (closed i p ep L rd)
    then show ?thesis using table_inv_closed [OF inv] by simp
  next
    case (other_event ev rd)
    then show ?thesis using inv by (simp add: table_inv_def other_event_frame Let_def)
  next
    case (command c ord)
    then show ?thesis using inv by (simp add: table_inv_def command_frame Let_def)
  qed
qed

subsection \<open>The subnet cap\<close>

definition cap_inv :: "('w, 'p, 'c) network \<Rightarrow> bool" where
  "cap_inv n \<longleftrightarrow> subnet_cap (limits (event_loop n)) = ns_per_subnet_cap (settings (event_loop n))"

lemma handle_event_cap: "subnet_cap (limits (handle_event ops bops rd ev s)) = subnet_cap (limits s)"
  by (cases ev) simp_all

interpretation cap_net:
  invariant_system net_start "net_step ops bops" cap_inv for ops bops
proof unfold_locales
  fix n :: "('a, 'b, 'c) network"
  assume "net_start n"
  then show "cap_inv n"
    by (auto simp: net_start_def cap_inv_def event_loop_new_def subnet_limits_new_def)
next
  fix n t :: "('a, 'b, 'c) network"
  assume inv: "cap_inv n" and step: "net_step ops bops n t"
  from step inv show "cap_inv t"
    by cases (auto simp: cap_inv_def handle_event_cap event_frame command_frame
        simp del: handle_event.simps handle_command.simps)
qed

text \<open>What holds of every reachable network.\<close>

lemma reachable_invariants:
  assumes "net_reachable ops bops n"
  shows "protected_inv n" "table_inv n" "cap_inv n"
  using assms unfolding net_reachable_def
  by (blast intro: protected_net.reachable_invar table_net.reachable_invar cap_net.reachable_invar)+

lemma reachable_step:
  "net_reachable ops bops n \<Longrightarrow> net_step ops bops n t \<Longrightarrow> net_reachable ops bops t"
  unfolding net_reachable_def by (meson rtranclp.rtrancl_into_rtrancl)

lemma reachable_start: "net_start n \<Longrightarrow> net_reachable ops bops n"
  unfolding net_reachable_def by blast

end
