(* ===== verification/P2P_Client.thy ===== *)
theory P2P_Client
  imports Event_Loop_Network
begin

section \<open>The client of the event loop (src/p2p/network.rs)\<close>

text \<open>
  \<open>P2PClient\<close> is the handle the other tasks share. A call sends a command with the sender of a
  fresh \<open>oneshot\<close> channel and waits for the answer. While it waits, the event loop runs: a
  \<open>turn\<close> lists what the loop handles before it takes the command and what it handles after,
  until the caller is scheduled again, and says what became of the command. A command that the
  channel refuses, or that dies with the event loop, is answered with \<open>ChannelClosed\<close>.
\<close>

datatype delivery = Refused | Unhandled | Handled

record 'p turn =
  before :: "'p loop_input list"
  delivery :: delivery
  visit_order :: "'p list"
  reply_to :: sender
  afterwards :: "'p loop_input list"

definition send_command_and_wait ::
    "('w, 'p) swarm_ops \<Rightarrow> ('c, 'r) broadcast_ops \<Rightarrow> 'p turn \<Rightarrow> (sender \<Rightarrow> 'p command)
      \<Rightarrow> ('w, 'p, 'c) event_loop \<Rightarrow> 'p reply \<times> ('w, 'p, 'c) event_loop" where
  "send_command_and_wait ops bops t command s =
     (let s1 = run_loop ops bops (before t) s
      in case delivery t of
           Handled \<Rightarrow>
             (let s2 = handle_command ops (visit_order t) (command (reply_to t)) s1;
                  s3 = run_loop ops bops (afterwards t) s2
              in (case map_of (replies s3) (reply_to t) of
                    Some result \<Rightarrow> result
                  | None \<Rightarrow> Inl ChannelClosed, s3))
         | _ \<Rightarrow> (Inl ChannelClosed, s1))"

text \<open>
  The calls. The type of each \<open>oneshot\<close> channel fixes the kind of the answer; the projections
  below read it, and the other kinds do not occur.
\<close>

definition client_start_listening ::
    "('w, 'p) swarm_ops \<Rightarrow> ('c, 'r) broadcast_ops \<Rightarrow> 'p turn \<Rightarrow> 'p multiaddr \<Rightarrow> ('w, 'p, 'c) event_loop
      \<Rightarrow> 'p reply \<times> ('w, 'p, 'c) event_loop" where
  "client_start_listening ops bops t addr = send_command_and_wait ops bops t (StartListening addr)"

definition dial_and_wait ::
    "('w, 'p) swarm_ops \<Rightarrow> ('c, 'r) broadcast_ops \<Rightarrow> 'p turn \<Rightarrow> 'p \<Rightarrow> 'p multiaddr list \<Rightarrow> ('w, 'p, 'c) event_loop
      \<Rightarrow> 'p reply \<times> ('w, 'p, 'c) event_loop" where
  "dial_and_wait ops bops t peer_id peer_addrs =
     send_command_and_wait ops bops t (Dial peer_id peer_addrs)"

definition client_identify ::
    "('w, 'p) swarm_ops \<Rightarrow> ('c, 'r) broadcast_ops \<Rightarrow> 'p turn \<Rightarrow> ('w, 'p, 'c) event_loop
      \<Rightarrow> 'p reply \<times> ('w, 'p, 'c) event_loop" where
  "client_identify ops bops t = send_command_and_wait ops bops t Identify"

definition client_subscribe ::
    "('w, 'p) swarm_ops \<Rightarrow> ('c, 'r) broadcast_ops \<Rightarrow> 'p turn \<Rightarrow> string \<Rightarrow> ('w, 'p, 'c) event_loop
      \<Rightarrow> 'p reply \<times> ('w, 'p, 'c) event_loop" where
  "client_subscribe ops bops t topic_name = send_command_and_wait ops bops t (Subscribe topic_name)"

definition client_publish ::
    "('w, 'p) swarm_ops \<Rightarrow> ('c, 'r) broadcast_ops \<Rightarrow> 'p turn \<Rightarrow> string \<Rightarrow> u8 list \<Rightarrow> ('w, 'p, 'c) event_loop
      \<Rightarrow> 'p reply \<times> ('w, 'p, 'c) event_loop" where
  "client_publish ops bops t topic_name message =
     send_command_and_wait ops bops t (PublishMessage topic_name message)"

definition network_snapshot ::
    "('w, 'p) swarm_ops \<Rightarrow> ('c, 'r) broadcast_ops \<Rightarrow> 'p turn \<Rightarrow> ('w, 'p, 'c) event_loop
      \<Rightarrow> 'p reply \<times> ('w, 'p, 'c) event_loop" where
  "network_snapshot ops bops t = send_command_and_wait ops bops t NetworkSnapshot"

definition client_set_preferred_peers ::
    "('w, 'p) swarm_ops \<Rightarrow> ('c, 'r) broadcast_ops \<Rightarrow> 'p turn \<Rightarrow> ('p \<times> 'p multiaddr list) list \<Rightarrow> ('w, 'p, 'c) event_loop
      \<Rightarrow> 'p reply \<times> ('w, 'p, 'c) event_loop" where
  "client_set_preferred_peers ops bops t wanted =
     send_command_and_wait ops bops t (SetPreferredPeers wanted)"

definition client_get_peers ::
    "('w, 'p) swarm_ops \<Rightarrow> ('c, 'r) broadcast_ops \<Rightarrow> 'p turn \<Rightarrow> ('w, 'p, 'c) event_loop
      \<Rightarrow> 'p reply \<times> ('w, 'p, 'c) event_loop" where
  "client_get_peers ops bops t = send_command_and_wait ops bops t GetPeers"

lemmas client_defs =
  client_start_listening_def dial_and_wait_def client_identify_def client_subscribe_def
  client_publish_def network_snapshot_def client_set_preferred_peers_def client_get_peers_def

fun node_info_of :: "'p response \<Rightarrow> 'p node_info option" where
  "node_info_of (NodeInfoOf info) = Some info"
| "node_info_of _ = None"

fun accepted_truncated_of :: "'p response \<Rightarrow> (u32 \<times> u32) option" where
  "accepted_truncated_of (AcceptedTruncated a b) = Some (a, b)"
| "accepted_truncated_of _ = None"

fun peers_of :: "'p response \<Rightarrow> 'p peer_snapshot list option" where
  "peers_of (PeersOf ps) = Some ps"
| "peers_of _ = None"

fun snapshot_of :: "'p response \<Rightarrow> 'p network_snapshot option" where
  "snapshot_of (SnapshotOf sn) = Some sn"
| "snapshot_of _ = None"

definition typed_reply :: "('p response \<Rightarrow> 'b option) \<Rightarrow> 'p reply \<Rightarrow> boxed_error + 'b" where
  "typed_reply f r =
     (case r of
        Inl e \<Rightarrow> Inl e
      | Inr resp \<Rightarrow> (case f resp of Some x \<Rightarrow> Inr x | None \<Rightarrow> Inl ChannelClosed))"

subsection \<open>Answers are only ever added\<close>

lemma handle_event_replies: "\<exists>more. replies (handle_event ops bops rd ev s) = replies s @ more"
proof (cases ev)
  case (OutgoingConnectionError p e)
  then show ?thesis
    by (cases p) (simp_all add: handle_outgoing_error_def answer_all_def split: option.split)
next
  case (ConnectionEstablished p ep i)
  then show ?thesis by (simp add: handle_established_dials)
qed simp_all

lemma handle_dial_replies: "\<exists>more. replies (handle_dial ops p as sd s) = replies s @ more"
  by (auto simp: handle_dial_def answer_def Let_def
      split: option.split prod.split sum.split dial_error.split)

lemma handle_command_replies: "\<exists>more. replies (handle_command ops ord c s) = replies s @ more"
  by (cases c) (auto simp: handle_set_preferred_result handle_dial_replies answer_def split: prod.split)

lemma run_loop_replies: "\<exists>more. replies (run_loop ops bops inputs s) = replies s @ more"
proof (induction inputs arbitrary: s)
  case (Cons i inputs)
  show ?case
  proof (cases i)
    case (SwarmInput rd ev)
    with Cons.IH [of "handle_event ops bops rd ev s"] handle_event_replies [of ops bops rd ev s]
    show ?thesis by auto
  next
    case (CommandInput ord c)
    with Cons.IH [of "handle_command ops ord c s"] handle_command_replies [of ops ord c s]
    show ?thesis by auto
  qed simp
qed simp

text \<open>
  A fresh sender: its number was not answered yet. Then the first answer it gets is the call's
  result, whatever the loop handles afterwards.
\<close>

definition fresh_turn ::
    "('w, 'p) swarm_ops \<Rightarrow> ('c, 'r) broadcast_ops \<Rightarrow> 'p turn \<Rightarrow> ('w, 'p, 'c) event_loop \<Rightarrow> bool" where
  "fresh_turn ops bops t s \<longleftrightarrow>
     delivery t = Handled \<and> reply_to t \<notin> fst ` set (replies (run_loop ops bops (before t) s))"

definition state_at_call ::
    "('w, 'p) swarm_ops \<Rightarrow> ('c, 'r) broadcast_ops \<Rightarrow> 'p turn \<Rightarrow> ('w, 'p, 'c) event_loop
      \<Rightarrow> ('w, 'p, 'c) event_loop" where
  "state_at_call ops bops t s = run_loop ops bops (before t) s"

lemma call_answered:
  assumes fresh: "fresh_turn ops bops t s"
    and ans: "replies (handle_command ops (visit_order t) (command (reply_to t))
        (state_at_call ops bops t s)) = replies (state_at_call ops bops t s) @ [(reply_to t, r)]"
  shows "send_command_and_wait ops bops t command s =
    (r, run_loop ops bops (afterwards t)
      (handle_command ops (visit_order t) (command (reply_to t)) (state_at_call ops bops t s)))"
proof -
  let ?s2 = "handle_command ops (visit_order t) (command (reply_to t)) (state_at_call ops bops t s)"
  obtain more where "replies (run_loop ops bops (afterwards t) ?s2) = replies ?s2 @ more"
    using run_loop_replies by blast
  moreover have "map_of (replies (state_at_call ops bops t s)) (reply_to t) = None"
    using fresh by (simp add: fresh_turn_def state_at_call_def map_of_eq_None_iff)
  ultimately have "map_of (replies (run_loop ops bops (afterwards t) ?s2)) (reply_to t) = Some r"
    by (simp add: ans map_add_def)
  with fresh show ?thesis
    by (simp add: send_command_and_wait_def fresh_turn_def state_at_call_def Let_def)
qed

lemma call_closed:
  "delivery t \<noteq> Handled \<Longrightarrow> send_command_and_wait ops bops t command s =
     (Inl ChannelClosed, state_at_call ops bops t s)"
  by (cases "delivery t") (simp_all add: send_command_and_wait_def state_at_call_def Let_def)

subsection \<open>How a dial in flight ends\<close>

text \<open>
  The events that end the dials of a peer, with the answer they give: a connection the node
  dialed, or a failed attempt. A dial's verdict is that of the first such event.
\<close>

fun settles :: "'p swarm_event \<Rightarrow> ('p \<times> 'p reply) option" where
  "settles (ConnectionEstablished p ep i) = (if is_dialer ep then Some (p, Inr Done) else None)"
| "settles (OutgoingConnectionError (Some p) e) = Some (p, Inl (DialFailed e))"
| "settles _ = None"

fun dial_verdict :: "'p \<Rightarrow> 'p loop_input list \<Rightarrow> 'p reply option" where
  "dial_verdict p [] = None"
| "dial_verdict p (SwarmInput rd ev # rest) =
     (case settles ev of
        Some (q, r) \<Rightarrow> if q = p then Some r else dial_verdict p rest
      | None \<Rightarrow> dial_verdict p rest)"
| "dial_verdict p (CommandInput ord c # rest) = dial_verdict p rest"
| "dial_verdict p (CommandChannelClosed # rest) = None"

definition queue_of :: "('p \<rightharpoonup> sender list) \<Rightarrow> 'p \<Rightarrow> sender list" where
  "queue_of m p = (case m p of None \<Rightarrow> [] | Some sds \<Rightarrow> sds)"

lemma queue_of_upd [simp]:
  "queue_of (m(p := None)) q = (if q = p then [] else queue_of m q)"
  "queue_of (m(p \<mapsto> sds)) q = (if q = p then sds else queue_of m q)"
  by (simp_all add: queue_of_def)

lemma event_dials:
  "pending_dials (handle_event ops bops rd ev s) =
     (case settles ev of None \<Rightarrow> pending_dials s | Some (p, r) \<Rightarrow> (pending_dials s)(p := None))"
  "replies (handle_event ops bops rd ev s) = replies s @
     (case settles ev of
        None \<Rightarrow> []
      | Some (p, r) \<Rightarrow> map (\<lambda>sd. (sd, r)) (queue_of (pending_dials s) p))"
  by (cases ev rule: settles.cases;
      simp add: handle_established_dials handle_outgoing_error_dials queue_of_def split: option.split;
      simp add: handle_outgoing_error_def)+

lemma command_dials:
  "(pending_dials (handle_command ops ord c s) = pending_dials s \<and>
      (\<exists>r. replies (handle_command ops ord c s) = replies s @ [(sender_of c, r)])) \<or>
   (\<exists>q. pending_dials (handle_command ops ord c s) = (pending_dials s)
        (q \<mapsto> queue_of (pending_dials s) q @ [sender_of c]) \<and>
      replies (handle_command ops ord c s) = replies s)"
proof (cases c)
  case (Dial p as sd)
  obtain res w where res: "sw_dial ops p as (swarm s) = (res, w)" by fastforce
  show ?thesis
  proof (cases "\<exists>sds. pending_dials s p = Some sds")
    case False
    show ?thesis
    proof (cases res)
      case (Inl e)
      with False res show ?thesis by (cases e) (auto simp: Dial handle_dial_def answer_def)
    qed (use False res in \<open>auto simp: Dial handle_dial_def queue_of_def intro!: exI [of _ p]\<close>)
  qed (auto simp: Dial handle_dial_def queue_of_def intro!: exI [of _ p])
qed (auto simp: handle_set_preferred_result answer_def split: prod.split)

definition waits_for :: "sender \<Rightarrow> 'p \<Rightarrow> ('w, 'p, 'c) event_loop \<Rightarrow> bool" where
  "waits_for sd p s \<longleftrightarrow>
     (\<forall>q. sd \<in> set (queue_of (pending_dials s) q) \<longleftrightarrow> q = p) \<and> sd \<notin> fst ` set (replies s)"

lemma first_answer_kept:
  assumes "map_of (replies s) sd = Some r"
  shows "map_of (replies (run_loop ops bops inputs s)) sd = Some r"
proof -
  from run_loop_replies obtain more where
    "replies (run_loop ops bops inputs s) = replies s @ more" by blast
  with assms show ?thesis by (simp add: map_add_def)
qed

lemma map_of_same_value: "sd \<in> set sds \<Longrightarrow> map_of (map (\<lambda>sd. (sd, r)) sds) sd = Some r"
  by (induction sds) auto

lemma event_settles:
  assumes w: "waits_for sd p s" and ev: "settles ev = Some (p, r)"
  shows "map_of (replies (handle_event ops bops rd ev s)) sd = Some r"
proof -
  from w have sd: "sd \<in> set (queue_of (pending_dials s) p)" and "map_of (replies s) sd = None"
    by (simp_all add: waits_for_def map_of_eq_None_iff)
  then show ?thesis by (simp add: event_dials ev map_add_def map_of_same_value [OF sd])
qed

lemma event_waits:
  assumes w: "waits_for sd p s" and ev: "\<And>r. settles ev \<noteq> Some (p, r)"
  shows "waits_for sd p (handle_event ops bops rd ev s)"
proof (cases "settles ev")
  case (Some qr)
  then obtain q r where q: "settles ev = Some (q, r)" "q \<noteq> p" using ev by (cases qr) auto
  from w q(2) have "sd \<notin> set (queue_of (pending_dials s) q)" by (simp add: waits_for_def)
  then have "sd \<notin> fst ` set (replies (handle_event ops bops rd ev s))"
    using w by (simp add: event_dials q(1) waits_for_def image_Un image_image)
  with w q(2) show ?thesis by (simp add: waits_for_def event_dials(1) q(1))
qed (use w in \<open>simp add: waits_for_def event_dials\<close>)

lemma command_waits:
  assumes w: "waits_for sd p s" and c: "sender_of c \<noteq> sd"
  shows "waits_for sd p (handle_command ops ord c s)"
  using command_dials [of ops ord c s]
proof (elim disjE conjE exE)
  fix q
  assume "pending_dials (handle_command ops ord c s) = (pending_dials s)
      (q \<mapsto> queue_of (pending_dials s) q @ [sender_of c])"
    "replies (handle_command ops ord c s) = replies s"
  with w c show ?thesis by (auto simp: waits_for_def)
qed (use w c in \<open>simp add: waits_for_def\<close>)

lemma dial_answer:
  "waits_for sd p s \<Longrightarrow> sd \<notin># senders_taken inputs \<Longrightarrow>
     map_of (replies (run_loop ops bops inputs s)) sd = dial_verdict p inputs"
proof (induction p inputs arbitrary: s rule: dial_verdict.induct)
  case (1 p s)
  then show ?case by (simp add: waits_for_def map_of_eq_None_iff)
next
  case (2 p rd ev rest s)
  show ?case
  proof (cases "\<exists>r. settles ev = Some (p, r)")
    case True
    then obtain r where r: "settles ev = Some (p, r)" by blast
    then show ?thesis by (simp add: first_answer_kept [OF event_settles [OF "2.prems"(1) r]])
  next
    case False
    then have w: "waits_for sd p (handle_event ops bops rd ev s)"
      by (intro event_waits [OF "2.prems"(1)]) blast
    show ?thesis
    proof (cases "settles ev")
      case None
      with "2.IH"(1) [OF None w] "2.prems"(2) show ?thesis by simp
    next
      case (Some qr)
      with False obtain q r where q: "settles ev = Some (q, r)" "q \<noteq> p" by (cases qr) auto
      with "2.IH"(2) [OF q(1) refl q(2) w] "2.prems"(2) show ?thesis by simp
    qed
  qed
next
  case (3 p ord c rest s)
  with command_waits [OF "3.prems"(1)] show ?case by simp
next
  case (4 p rest s)
  then show ?case by (simp add: waits_for_def map_of_eq_None_iff)
qed

text \<open>A call of \<open>dial_and_wait\<close> whose sender is nowhere yet, and what it returns.\<close>

definition dial_turn ::
    "('w, 'p) swarm_ops \<Rightarrow> ('c, 'r) broadcast_ops \<Rightarrow> 'p turn \<Rightarrow> ('w, 'p, 'c) event_loop \<Rightarrow> bool" where
  "dial_turn ops bops t s \<longleftrightarrow>
     fresh_turn ops bops t s \<and>
     (\<forall>q. reply_to t \<notin> set (queue_of (pending_dials (state_at_call ops bops t s)) q)) \<and>
     reply_to t \<notin># senders_taken (afterwards t)"

definition dial_outcome ::
    "('w, 'p) swarm_ops \<Rightarrow> 'p \<Rightarrow> 'p multiaddr list \<Rightarrow> 'p loop_input list
      \<Rightarrow> ('w, 'p, 'c) event_loop \<Rightarrow> 'p reply" where
  "dial_outcome ops p as inputs s =
     (let later = (case dial_verdict p inputs of Some r \<Rightarrow> r | None \<Rightarrow> Inl ChannelClosed)
      in if pending_dials s p \<noteq> None then later
         else case fst (sw_dial ops p as (swarm s)) of
                Inr _ \<Rightarrow> later
              | Inl DialPeerConditionFalse \<Rightarrow> Inr Done
              | Inl e \<Rightarrow> Inl (BoxedDialError e))"

lemma handle_dial_waits:
  assumes "\<And>q. sd \<notin> set (queue_of (pending_dials s) q)" "sd \<notin> fst ` set (replies s)"
    and "pending_dials s p \<noteq> None \<or> fst (sw_dial ops p as (swarm s)) = Inr ()"
  shows "waits_for sd p (handle_dial ops p as sd s)"
  using assms by (auto simp: waits_for_def handle_dial_def queue_of_def split: option.split prod.split)

lemma handle_dial_answered:
  assumes "pending_dials s p = None" "fst (sw_dial ops p as (swarm s)) = Inl e"
  shows "replies (handle_dial ops p as sd s) = replies s @
    [(sd, if e = DialPeerConditionFalse then Inr Done else Inl (BoxedDialError e))]"
  using assms
  by (cases "sw_dial ops p as (swarm s)") (cases e; simp add: handle_dial_def answer_def)

lemma dial_and_wait_result:
  assumes turn: "dial_turn ops bops t s"
  shows "fst (dial_and_wait ops bops t p as s) =
    dial_outcome ops p as (afterwards t) (state_at_call ops bops t s)"
proof -
  let ?s1 = "state_at_call ops bops t s" and ?sd = "reply_to t"
  let ?s2 = "handle_dial ops p as ?sd ?s1"
  have new: "\<And>q. ?sd \<notin> set (queue_of (pending_dials ?s1) q)" "?sd \<notin> fst ` set (replies ?s1)"
    and handled: "delivery t = Handled" and later: "?sd \<notin># senders_taken (afterwards t)"
    using turn by (auto simp: dial_turn_def fresh_turn_def state_at_call_def)
  show ?thesis
  proof (cases "pending_dials ?s1 p \<noteq> None \<or> fst (sw_dial ops p as (swarm ?s1)) = Inr ()")
    case True
    from dial_answer [OF handle_dial_waits [OF new True] later]
    have "map_of (replies (run_loop ops bops (afterwards t) ?s2)) ?sd = dial_verdict p (afterwards t)" .
    with True handled show ?thesis
      by (auto simp: dial_and_wait_def send_command_and_wait_def state_at_call_def Let_def
          dial_outcome_def)
  next
    case False
    then obtain e where e: "fst (sw_dial ops p as (swarm ?s1)) = Inl e" and none: "pending_dials ?s1 p = None"
      by (cases "fst (sw_dial ops p as (swarm ?s1))") auto
    from handle_dial_answered [OF none e]
    have "send_command_and_wait ops bops t (Dial p as) s =
      (if e = DialPeerConditionFalse then Inr Done else Inl (BoxedDialError e),
       run_loop ops bops (afterwards t) ?s2)"
      using call_answered [of ops bops t s "Dial p as"] turn by (simp add: dial_turn_def)
    then show ?thesis
      by (cases e) (simp_all add: dial_and_wait_def dial_outcome_def none e)
  qed
qed

end
