(* ===== verification/Grpc_Service.thy ===== *)
theory Grpc_Service
  imports P2P_Client
begin

section \<open>The gRPC service (src/grpc.rs)\<close>

text \<open>
  Each handler of \<open>GrpcService\<close> takes the client's \<open>turn\<close> (what the event loop does while the
  handler waits) and the shared state, and returns a response or a status. The generated
  message types are records; libp2p's parsers and error texts are the record \<open>wire\<close>, a
  parameter.
\<close>

datatype status_code = InvalidArgument | FailedPrecondition | NotFoundCode | InternalCode

record status =
  code :: status_code
  message_text :: string

record 'p wire =
  peer_from_str :: "string \<Rightarrow> string + 'p"
  addr_from_str :: "string \<Rightarrow> string + 'p multiaddr"
  dial_error_text :: "dial_error \<Rightarrow> string"
  publish_error_text :: "publish_error \<Rightarrow> string"

text \<open>\<open>Display\<close> of the boxed errors; \<open>DialFailed\<close> prints the error it wraps.\<close>

fun error_to_string :: "'p wire \<Rightarrow> boxed_error \<Rightarrow> string" where
  "error_to_string w (BoxedDialError e) = dial_error_text w e"
| "error_to_string w (DialFailed e) = dial_error_text w e"
| "error_to_string w ChannelClosed = ''P2P event loop is not running''"
| "error_to_string w (BoxedTransportError e) = e"
| "error_to_string w (BoxedSubscriptionError e) = e"
| "error_to_string w (BoxedPublishError e) = publish_error_text w e"

definition invalid_argument :: "string \<Rightarrow> status" where
  "invalid_argument m = \<lparr>code = InvalidArgument, message_text = m\<rparr>"

definition internal_status :: "'p wire \<Rightarrow> boxed_error \<Rightarrow> status" where
  "internal_status w e = \<lparr>code = InternalCode, message_text = error_to_string w e\<rparr>"

definition parse_peer_id :: "'p wire \<Rightarrow> string \<Rightarrow> status + 'p" where
  "parse_peer_id w text =
     (case peer_from_str w text of
        Inl e \<Rightarrow> Inl (invalid_argument (''invalid peer id '' @ text @ '': '' @ e))
      | Inr p \<Rightarrow> Inr p)"

definition parse_multiaddr :: "'p wire \<Rightarrow> string \<Rightarrow> status + 'p multiaddr" where
  "parse_multiaddr w text =
     (case addr_from_str w text of
        Inl e \<Rightarrow> Inl (invalid_argument (''invalid multiaddr '' @ text @ '': '' @ e))
      | Inr a \<Rightarrow> Inr a)"

definition map_dial_error_to_status :: "'p wire \<Rightarrow> boxed_error \<Rightarrow> status" where
  "map_dial_error_to_status w error =
     (case classify_dial_error error of
        KindWrongPeerId \<Rightarrow>
          \<lparr>code = FailedPrecondition, message_text = ''wrong peer id: '' @ error_to_string w error\<rparr>
      | KindUnreachable \<Rightarrow>
          \<lparr>code = NotFoundCode, message_text = ''peer unreachable: '' @ error_to_string w error\<rparr>
      | KindInternal \<Rightarrow> internal_status w error)"

subsection \<open>Identify and Dial\<close>

record identify_response =
  ir_peer_id :: string
  ir_listen_multiaddrs :: "string list"
  ir_external_multiaddrs :: "string list"

definition grpc_identify ::
    "'p wire \<Rightarrow> ('w, 'p) swarm_ops \<Rightarrow> ('c, 'r) broadcast_ops \<Rightarrow> 'p reading \<Rightarrow> 'p turn
      \<Rightarrow> ('w, 'p, 'c) event_loop \<Rightarrow> (status + identify_response) \<times> ('w, 'p, 'c) event_loop" where
  "grpc_identify w ops bops rd t s =
     (case client_identify ops bops t s of
        (r, s1) \<Rightarrow>
          (case typed_reply node_info_of r of
             Inl e \<Rightarrow> (Inl (internal_status w e), s1)
           | Inr info \<Rightarrow>
               (Inr \<lparr>ir_peer_id = peer_to_string rd (ni_peer_id info),
                     ir_listen_multiaddrs = map (addr_to_string rd) (listen_multiaddrs info),
                     ir_external_multiaddrs = map (addr_to_string rd) (external_multiaddrs info)\<rparr>,
                s1)))"

record dial_request =
  dr_peer_id :: string
  dr_multiaddr :: string

definition grpc_dial ::
    "'p wire \<Rightarrow> ('w, 'p) swarm_ops \<Rightarrow> ('c, 'r) broadcast_ops \<Rightarrow> 'p turn \<Rightarrow> dial_request
      \<Rightarrow> ('w, 'p, 'c) event_loop \<Rightarrow> (status + unit) \<times> ('w, 'p, 'c) event_loop" where
  "grpc_dial w ops bops t req s =
     (case parse_peer_id w (dr_peer_id req) of
        Inl st \<Rightarrow> (Inl st, s)
      | Inr peer_id \<Rightarrow>
          (case parse_multiaddr w (dr_multiaddr req) of
             Inl st \<Rightarrow> (Inl st, s)
           | Inr addr \<Rightarrow>
               (case dial_and_wait ops bops t peer_id [addr] s of
                  (Inl e, s1) \<Rightarrow> (Inl (map_dial_error_to_status w e), s1)
                | (Inr _, s1) \<Rightarrow> (Inr (), s1))))"

subsection \<open>Publish\<close>

record publish_request =
  pr_topic :: string
  pr_payload :: "u8 list"
  pr_echo :: bool

definition count_event :: "string \<Rightarrow> ('w, 'p, 'c) event_loop \<Rightarrow> ('w, 'p, 'c) event_loop" where
  "count_event label s = s\<lparr>loop_metrics := increment_event label (loop_metrics s)\<rparr>"

definition count_sent :: "('w, 'p, 'c) event_loop \<Rightarrow> ('w, 'p, 'c) event_loop" where
  "count_sent s = s\<lparr>loop_metrics :=
     (loop_metrics s)\<lparr>total_messages_sent := total_messages_sent (loop_metrics s) + 1\<rparr>\<rparr>"

definition echo_envelope :: "'p reading \<Rightarrow> 'p \<Rightarrow> publish_request \<Rightarrow> envelope" where
  "echo_envelope rd local_peer_id req =
     \<lparr>topic = pr_topic req, source_peer_id = peer_to_string rd local_peer_id,
      data = pr_payload req, received_at_millis = now_millis rd\<rparr>"

definition grpc_publish ::
    "'p wire \<Rightarrow> ('w, 'p) swarm_ops \<Rightarrow> ('c, 'r) broadcast_ops \<Rightarrow> 'p reading \<Rightarrow> 'p \<Rightarrow> 'p turn
      \<Rightarrow> publish_request \<Rightarrow> ('w, 'p, 'c) event_loop
      \<Rightarrow> (status + unit) \<times> ('w, 'p, 'c) event_loop" where
  "grpc_publish w ops bops rd local_peer_id t req s =
     (if pr_topic req = [] then (Inl (invalid_argument ''topic must not be empty''), s)
      else case client_publish ops bops t (pr_topic req) (pr_payload req) s of
        (r, s1) \<Rightarrow>
          (let no_peers = (case r of Inr _ \<Rightarrow> False
                           | Inl e \<Rightarrow> e = BoxedPublishError NoPeersSubscribedToTopic);
               failed = (case r of Inr _ \<Rightarrow> None | Inl e \<Rightarrow> if no_peers then None else Some e)
           in case failed of
                Some e \<Rightarrow> (Inl (internal_status w e), count_event ''publish_error'' s1)
              | None \<Rightarrow>
                  (let s2 = (if no_peers then count_event ''publish_no_peers'' s1 else s1);
                       s3 = (if \<not> no_peers then count_event ''message_published'' (count_sent s2)
                             else s2);
                       s4 = (if pr_echo req
                             then s3\<lparr>subscriptions :=
                               snd (publish bops (echo_envelope rd local_peer_id req) (subscriptions s3))\<rparr>
                             else s3)
                   in (Inr (), s4))))"

subsection \<open>Subscribe\<close>

text \<open>
  The receiver is created before the swarm joins the topic. On an error it is dropped with the
  handler's frame.
\<close>

definition grpc_subscribe ::
    "'p wire \<Rightarrow> ('w, 'p) swarm_ops \<Rightarrow> ('c, 'r) broadcast_ops \<Rightarrow> 'p turn \<Rightarrow> string
      \<Rightarrow> ('w, 'p, 'c) event_loop \<Rightarrow> (status + 'r) \<times> ('w, 'p, 'c) event_loop" where
  "grpc_subscribe w ops bops t topic_name s =
     (if topic_name = [] then (Inl (invalid_argument ''topic must not be empty''), s)
      else case subscribe bops topic_name (subscriptions s) of
        (receiver, subs) \<Rightarrow>
          (case client_subscribe ops bops t topic_name (s\<lparr>subscriptions := subs\<rparr>) of
             (Inl e, s2) \<Rightarrow>
               (Inl (internal_status w e),
                s2\<lparr>subscriptions := drop_receiver bops topic_name receiver (subscriptions s2)\<rparr>)
           | (Inr _, s2) \<Rightarrow> (Inr receiver, s2)))"

record pubsub_envelope =
  pe_topic :: string
  pe_source_peer_id :: string
  pe_payload :: "u8 list"
  pe_received_at_millis :: nat

definition envelope_message :: "envelope \<Rightarrow> pubsub_envelope" where
  "envelope_message e =
     \<lparr>pe_topic = topic e, pe_source_peer_id = source_peer_id e, pe_payload = data e,
      pe_received_at_millis = received_at_millis e\<rparr>"

text \<open>
  The body of the response stream, for at most \<open>n\<close> calls of \<open>recv\<close>: what it yields until it
  ends or has to wait, and the state. The flag tells whether the stream has ended.
\<close>

fun subscribe_stream ::
    "('c, 'r) broadcast_ops \<Rightarrow> string \<Rightarrow> 'r \<Rightarrow> nat \<Rightarrow> ('w, 'p, 'c) event_loop
      \<Rightarrow> pubsub_envelope list \<times> bool \<times> ('w, 'p, 'c) event_loop" where
  "subscribe_stream bops topic_name receiver 0 s = ([], False, s)"
| "subscribe_stream bops topic_name receiver (Suc n) s =
     (case receive bops topic_name receiver (subscriptions s) of
        (res, subs) \<Rightarrow>
          (let s1 = s\<lparr>subscriptions := subs\<rparr>
           in case res of
                Received envelope \<Rightarrow>
                  (case subscribe_stream bops topic_name receiver n s1 of
                     (out, fin, s2) \<Rightarrow> (envelope_message envelope # out, fin, s2))
              | Lagged k \<Rightarrow>
                  subscribe_stream bops topic_name receiver n (count_event ''subscriber_lagged'' s1)
              | Closed \<Rightarrow> ([], True, s1)
              | Pending \<Rightarrow> ([], False, s1)))"

subsection \<open>SetPreferredPeers and GetPeers\<close>

record preferred_peer =
  pp_peer_id :: string
  pp_multiaddrs :: "string list"

definition valid_addrs :: "'p wire \<Rightarrow> string list \<Rightarrow> 'p multiaddr list" where
  "valid_addrs w texts =
     List.map_filter (\<lambda>text. case addr_from_str w text of Inr a \<Rightarrow> Some a | Inl _ \<Rightarrow> None) texts"

fun lenient_peers ::
    "'p wire \<Rightarrow> 'p set \<Rightarrow> preferred_peer list \<Rightarrow> ('p \<times> 'p multiaddr list) list" where
  "lenient_peers w seen [] = []"
| "lenient_peers w seen (peer # rest) =
     (case peer_from_str w (pp_peer_id peer) of
        Inl _ \<Rightarrow> lenient_peers w seen rest
      | Inr peer_id \<Rightarrow>
          (if peer_id \<in> seen then lenient_peers w seen rest
           else (peer_id, valid_addrs w (pp_multiaddrs peer)) #
                  lenient_peers w (insert peer_id seen) rest))"

definition grpc_set_preferred_peers ::
    "'p wire \<Rightarrow> ('w, 'p) swarm_ops \<Rightarrow> ('c, 'r) broadcast_ops \<Rightarrow> 'p turn \<Rightarrow> preferred_peer list
      \<Rightarrow> ('w, 'p, 'c) event_loop \<Rightarrow> (status + (u32 \<times> u32)) \<times> ('w, 'p, 'c) event_loop" where
  "grpc_set_preferred_peers w ops bops t req s =
     (case client_set_preferred_peers ops bops t (lenient_peers w {} req) s of
        (r, s1) \<Rightarrow>
          (case typed_reply accepted_truncated_of r of
             Inl e \<Rightarrow> (Inl (internal_status w e), s1)
           | Inr (accepted, truncated) \<Rightarrow> (Inr (accepted, truncated), s1)))"

record peer_info =
  pi_peer_id :: string
  pi_multiaddrs :: "string list"
  pi_preferred :: bool
  pi_score :: real

definition grpc_get_peers ::
    "'p wire \<Rightarrow> ('w, 'p) swarm_ops \<Rightarrow> ('c, 'r) broadcast_ops \<Rightarrow> 'p reading \<Rightarrow> 'p turn
      \<Rightarrow> ('w, 'p, 'c) event_loop \<Rightarrow> (status + peer_info list) \<times> ('w, 'p, 'c) event_loop" where
  "grpc_get_peers w ops bops rd t s =
     (case client_get_peers ops bops t s of
        (r, s1) \<Rightarrow>
          (case typed_reply peers_of r of
             Inl e \<Rightarrow> (Inl (internal_status w e), s1)
           | Inr ps \<Rightarrow>
               (Inr (map (\<lambda>p. \<lparr>pi_peer_id = peer_to_string rd (ps_peer_id p),
                              pi_multiaddrs = map (addr_to_string rd) (ps_multiaddrs p),
                              pi_preferred = ps_preferred p, pi_score = ps_score p\<rparr>) ps), s1)))"

subsection \<open>Messages on their way to the subscribers\<close>

text \<open>The envelopes the loop publishes, for the inputs it handles before its channel closes.\<close>

fun published :: "'p loop_input list \<Rightarrow> envelope list" where
  "published [] = []"
| "published (SwarmInput rd ev # rest) =
     (case ev of
        GossipsubMessage (Some src) t bytes \<Rightarrow>
          \<lparr>topic = t, source_peer_id = peer_to_string rd src, data = bytes,
           received_at_millis = now_millis rd\<rparr> # published rest
      | _ \<Rightarrow> published rest)"
| "published (CommandInput ord c # rest) = published rest"
| "published (CommandChannelClosed # rest) = []"

lemma publish_all_simps [simp]:
  "publish_all bops [] subs = subs"
  "publish_all bops (e # es) subs = publish_all bops es (snd (publish bops e subs))"
  by (simp_all add: publish_all_def)

lemma run_loop_subscriptions:
  "subscriptions (run_loop ops bops inputs s) = publish_all bops (published inputs) (subscriptions s)"
proof (induction inputs arbitrary: s rule: published.induct)
  case (2 rd ev rest s)
  show ?case
  proof (cases ev)
    case (GossipsubMessage source t bytes)
    with 2 show ?thesis by (cases source) (simp_all add: handle_message_def Let_def)
  qed (simp_all add: 2)
qed (simp_all add: command_frame)

lemma publish_all_view:
  assumes ok: "broadcast_ok bops v"
  shows "topic_receivers v (publish_all bops es subs) t = topic_receivers v subs t"
    "topic_room v (publish_all bops es subs) t = topic_room v subs t"
  by (induction es arbitrary: subs) (simp_all add: publish_view [OF ok])

definition on_topic :: "string \<Rightarrow> envelope list \<Rightarrow> envelope list" where
  "on_topic t es = filter (\<lambda>e. topic e = t) es"

text \<open>As long as the topic's messages fit the room, none is lost and the order is kept.\<close>

lemma publish_all_lossless:
  assumes ok: "broadcast_ok bops v" and r: "r \<in> topic_receivers v subs t"
  shows "length (topic_queue v subs t r) + length (on_topic t es) \<le> topic_room v subs t \<Longrightarrow>
    topic_queue v (publish_all bops es subs) t r = topic_queue v subs t r @ on_topic t es \<and>
    topic_missed v (publish_all bops es subs) t r = topic_missed v subs t r"
  using r
proof (induction es arbitrary: subs)
  case (Cons e es)
  let ?subs = "snd (publish bops e subs)"
  note view = publish_view [OF ok, where env = e and s = subs]
  have r': "r \<in> topic_receivers v ?subs t" using Cons.prems(2) by (simp add: view)
  show ?case
  proof (cases "t = topic e")
    case True
    with Cons.prems have "length (topic_queue v subs t r) + 1 \<le> topic_room v subs t"
      by (simp add: on_topic_def)
    with True view(3,4) [OF Cons.prems(2)]
    have q: "topic_queue v ?subs t r = topic_queue v subs t r @ [e]"
      "topic_missed v ?subs t r = topic_missed v subs t r"
      by (simp_all add: newest_all)
    with True Cons.prems Cons.IH [OF _ r'] show ?thesis by (simp add: on_topic_def view(2))
  next
    case False
    with view(3,4) [OF Cons.prems(2)] Cons.prems Cons.IH [OF _ r'] show ?thesis
      by (auto simp: on_topic_def view(2))
  qed
qed (simp add: on_topic_def)

text \<open>A stream polled often enough yields the whole queue, in order.\<close>

lemma subscribe_stream_drain:
  assumes ok: "broadcast_ok bops v"
  shows "\<lbrakk>r \<in> topic_receivers v (subscriptions s) t; topic_missed v (subscriptions s) t r = 0;
      length (topic_queue v (subscriptions s) t r) < n\<rbrakk> \<Longrightarrow>
    \<exists>s'. subscribe_stream bops t r n s =
        (map envelope_message (topic_queue v (subscriptions s) t r), False, s') \<and>
      topic_queue v (subscriptions s') t r = [] \<and> loop_metrics s' = loop_metrics s"
proof (induction n arbitrary: s)
  case (Suc n)
  obtain res subs where rc: "receive bops t r (subscriptions s) = (res, subs)" by fastforce
  note view = receive_view [OF ok Suc.prems(1) rc]
  show ?case
  proof (cases "topic_queue v (subscriptions s) t r")
    case Nil
    with view Suc.prems(2) rc show ?thesis by simp
  next
    case (Cons e es)
    let ?s = "s\<lparr>subscriptions := subs\<rparr>"
    have "res = Received e" "topic_queue v subs t r = es" "topic_missed v subs t r = 0"
      "r \<in> topic_receivers v subs t"
      using view Cons Suc.prems by simp_all
    with Suc.IH [of ?s] Suc.prems(3) Cons rc show ?thesis by auto
  qed
qed simp

lemma subscribe_stream_lagged:
  assumes ok: "broadcast_ok bops v" and r: "r \<in> topic_receivers v (subscriptions s) t"
    and lag: "0 < topic_missed v (subscriptions s) t r"
    and n: "length (topic_queue v (subscriptions s) t r) + 1 < n"
  shows "\<exists>s'. subscribe_stream bops t r n s =
      (map envelope_message (topic_queue v (subscriptions s) t r), False, s') \<and>
    loop_metrics s' = increment_event ''subscriber_lagged'' (loop_metrics s)"
proof -
  obtain m where m: "n = Suc m" using n by (cases n) auto
  obtain res subs where rc: "receive bops t r (subscriptions s) = (res, subs)" by fastforce
  note view = receive_view [OF ok r rc]
  let ?s = "count_event ''subscriber_lagged'' (s\<lparr>subscriptions := subs\<rparr>)"
  have "res = Lagged (topic_missed v (subscriptions s) t r)"
    "topic_queue v subs t r = topic_queue v (subscriptions s) t r"
    "topic_missed v subs t r = 0" "r \<in> topic_receivers v subs t"
    using view lag r by simp_all
  with subscribe_stream_drain [OF ok, of r ?s t m] n m rc show ?thesis
    by (auto simp: count_event_def)
qed

subsection \<open>Lenient parsing\<close>

definition valid_ids :: "'p wire \<Rightarrow> preferred_peer list \<Rightarrow> 'p list" where
  "valid_ids w req = List.map_filter
     (\<lambda>peer. case peer_from_str w (pp_peer_id peer) of Inr p \<Rightarrow> Some p | Inl _ \<Rightarrow> None) req"

lemma lenient_peers_ids:
  "distinct (map fst (lenient_peers w seen req)) \<and>
   fst ` set (lenient_peers w seen req) = set (valid_ids w req) - seen"
  by (induction w seen req rule: lenient_peers.induct)
    (auto simp: valid_ids_def map_filter_simps split: sum.split)

text \<open>Every entry that is kept is the first one of its peer, with its valid addresses.\<close>

lemma valid_ids_simps [simp]:
  "valid_ids w [] = []"
  "valid_ids w (peer # rest) =
     (case peer_from_str w (pp_peer_id peer) of Inr p \<Rightarrow> p # valid_ids w rest | Inl _ \<Rightarrow> valid_ids w rest)"
  by (simp_all add: valid_ids_def map_filter_simps split: sum.split)

definition first_entry :: "'p wire \<Rightarrow> preferred_peer list \<Rightarrow> 'p \<Rightarrow> 'p multiaddr list \<Rightarrow> bool" where
  "first_entry w req p as \<longleftrightarrow>
     (\<exists>before peer rest. req = before @ peer # rest \<and> p \<notin> set (valid_ids w before) \<and>
       peer_from_str w (pp_peer_id peer) = Inr p \<and> as = valid_addrs w (pp_multiaddrs peer))"

lemma first_entry_here:
  "peer_from_str w (pp_peer_id peer) = Inr p \<Longrightarrow>
     first_entry w (peer # rest) p (valid_addrs w (pp_multiaddrs peer))"
  unfolding first_entry_def by (intro exI [of _ "[]"]) simp

lemma first_entry_later:
  assumes "first_entry w rest p as" "peer_from_str w (pp_peer_id peer) \<noteq> Inr p"
  shows "first_entry w (peer # rest) p as"
proof -
  from assms(1) obtain before peer' rest' where "rest = before @ peer' # rest'"
    "p \<notin> set (valid_ids w before)" "peer_from_str w (pp_peer_id peer') = Inr p"
    "as = valid_addrs w (pp_multiaddrs peer')" unfolding first_entry_def by blast
  with assms(2) show ?thesis
    unfolding first_entry_def by (intro exI [of _ "peer # before"]) (auto split: sum.split)
qed

lemma lenient_peers_first:
  "(p, as) \<in> set (lenient_peers w seen req) \<Longrightarrow> first_entry w req p as"
proof (induction w seen req rule: lenient_peers.induct)
  case (2 w seen peer rest)
  have "p \<notin> seen" using lenient_peers_ids [of w seen "peer # rest"] "2.prems" by force
  show ?case
  proof (cases "peer_from_str w (pp_peer_id peer)")
    case (Inl e)
    with 2 show ?thesis by (auto intro: first_entry_later)
  next
    case (Inr q)
    show ?thesis
    proof (cases "q \<in> seen")
      case True
      with 2 Inr \<open>p \<notin> seen\<close> show ?thesis by (auto intro!: first_entry_later)
    next
      case False
      consider "(p, as) = (q, valid_addrs w (pp_multiaddrs peer))"
        | "(p, as) \<in> set (lenient_peers w (insert q seen) rest)"
        using "2.prems" Inr False by auto
      then show ?thesis
      proof cases
        case 1
        with Inr show ?thesis by (auto intro: first_entry_here)
      next
        case 2
        with lenient_peers_ids [of w "insert q seen" rest] have "p \<noteq> q" by force
        with "2.IH"(3) [OF Inr False 2] Inr show ?thesis by (auto intro: first_entry_later)
      qed
    qed
  qed
qed simp

end
