(* ===== verification/Reference_Environment.thy ===== *)
theory Reference_Environment
  imports Grpc_Service
begin

section \<open>Concrete environments\<close>

text \<open>
  The operations take the broadcast channel and the swarm as parameters. This theory gives one
  concrete function for each, so that the theorems can be applied at concrete inputs: a bounded
  channel with one queue per receiver, which satisfies \<open>broadcast_ok\<close>, and a swarm that records
  the calls made to it and answers as it is told. Neither models code of the repository.
\<close>

subsection \<open>A bounded broadcast channel\<close>

record queue_channel =
  qc_room :: nat
  qc_next :: nat
  qc_slots :: "nat \<rightharpoonup> envelope list \<times> nat"

definition qc_new :: "nat \<Rightarrow> queue_channel" where
  "qc_new n = \<lparr>qc_room = n, qc_next = 0, qc_slots = Map.empty\<rparr>"

definition qc_active :: "queue_channel \<Rightarrow> nat list" where
  "qc_active ch = filter (\<lambda>r. qc_slots ch r \<noteq> None) [0..<qc_next ch]"

definition qc_subscribe :: "queue_channel \<Rightarrow> queue_channel \<times> nat" where
  "qc_subscribe ch =
     (ch\<lparr>qc_next := Suc (qc_next ch), qc_slots := (qc_slots ch)(qc_next ch \<mapsto> ([], 0))\<rparr>, qc_next ch)"

definition qc_send :: "envelope \<Rightarrow> queue_channel \<Rightarrow> nat option \<times> queue_channel" where
  "qc_send env ch =
     (if qc_active ch = [] then None else Some (length (qc_active ch)),
      ch\<lparr>qc_slots := (\<lambda>r. map_option (\<lambda>(q, m).
            (newest (qc_room ch) (q @ [env]), m + (length q + 1 - qc_room ch))) (qc_slots ch r))\<rparr>)"

definition qc_recv :: "nat \<Rightarrow> queue_channel \<Rightarrow> recv_result \<times> queue_channel" where
  "qc_recv r ch =
     (case qc_slots ch r of
        None \<Rightarrow> (Closed, ch)
      | Some (q, m) \<Rightarrow>
          if m > 0 then (Lagged m, ch\<lparr>qc_slots := (qc_slots ch)(r \<mapsto> (q, 0))\<rparr>)
          else (case q of
                  [] \<Rightarrow> (Pending, ch)
                | env # q' \<Rightarrow> (Received env, ch\<lparr>qc_slots := (qc_slots ch)(r \<mapsto> (q', 0))\<rparr>)))"

definition qc_drop :: "nat \<Rightarrow> queue_channel \<Rightarrow> queue_channel" where
  "qc_drop r ch = ch\<lparr>qc_slots := (qc_slots ch)(r := None)\<rparr>"

definition queue_channel_ops :: "(queue_channel, nat) broadcast_ops" where
  "queue_channel_ops =
     \<lparr>bc_channel = qc_new, bc_subscribe = qc_subscribe, bc_send = qc_send, bc_recv = qc_recv,
      bc_drop = qc_drop\<rparr>"

definition queue_channel_view :: "(queue_channel, nat) broadcast_view" where
  "queue_channel_view =
     \<lparr>active = (\<lambda>ch. set (qc_active ch)), room = qc_room,
      queued = (\<lambda>ch r. case qc_slots ch r of None \<Rightarrow> [] | Some (q, m) \<Rightarrow> q),
      missed = (\<lambda>ch r. case qc_slots ch r of None \<Rightarrow> 0 | Some (q, m) \<Rightarrow> m)\<rparr>"

lemma queue_channel_ops_simps [simp]:
  "bc_channel queue_channel_ops = qc_new" "bc_subscribe queue_channel_ops = qc_subscribe"
  "bc_send queue_channel_ops = qc_send" "bc_recv queue_channel_ops = qc_recv"
  "bc_drop queue_channel_ops = qc_drop"
  by (simp_all add: queue_channel_ops_def)

lemma qc_active_iff: "r \<in> set (qc_active ch) \<longleftrightarrow> r < qc_next ch \<and> qc_slots ch r \<noteq> None"
  by (auto simp: qc_active_def)

lemma qc_active_card: "card (set (qc_active ch)) = length (qc_active ch)"
  unfolding qc_active_def by (rule distinct_card) simp

lemma qc_send_active:
  "qc_active (ch\<lparr>qc_slots := (\<lambda>r. map_option f (qc_slots ch r))\<rparr>) = qc_active ch"
  by (simp add: qc_active_def)

lemma queue_channel_ok: "broadcast_ok queue_channel_ops queue_channel_view"
  unfolding broadcast_ok_def
proof (intro conjI)
  show "channel_law queue_channel_ops queue_channel_view"
    by (simp add: channel_law_def queue_channel_view_def qc_new_def qc_active_def)
  show "subscribe_law queue_channel_ops queue_channel_view"
    by (auto simp: subscribe_law_def queue_channel_view_def qc_subscribe_def qc_active_iff
        split: if_splits)
  show "send_law queue_channel_ops queue_channel_view"
    unfolding send_law_def
    by (auto simp: queue_channel_view_def qc_send_def qc_send_active qc_active_card)
      (auto simp: qc_active_iff)
  show "recv_law queue_channel_ops queue_channel_view"
    by (auto simp: recv_law_def queue_channel_view_def qc_recv_def qc_active_iff
        split: option.splits list.splits if_splits)
  show "drop_law queue_channel_ops queue_channel_view"
    unfolding drop_law_def
    by (auto simp: queue_channel_view_def qc_drop_def set_eq_iff qc_active_iff split: if_splits)
qed

subsection \<open>A swarm that records its calls\<close>

datatype swarm_call =
    CallDial nat "nat multiaddr list"
  | CallListen "nat multiaddr"
  | CallDisconnect nat
  | CallClose connection_id
  | CallSubscribe string
  | CallPublish string "u8 list"
  | CallScore nat real

definition recording_swarm ::
    "(dial_error + unit) \<Rightarrow> (publish_error + unit) \<Rightarrow> (swarm_call list, nat) swarm_ops" where
  "recording_swarm dial_res publish_res =
     \<lparr>sw_dial = (\<lambda>p as w. (dial_res, w @ [CallDial p as])),
      sw_listen_on = (\<lambda>a w. (Inr (), w @ [CallListen a])),
      sw_disconnect_peer_id = (\<lambda>p w. w @ [CallDisconnect p]),
      sw_close_connection = (\<lambda>i w. w @ [CallClose i]),
      sw_local_peer_id = (\<lambda>w. 0),
      sw_listeners = (\<lambda>w. []),
      sw_external_addresses = (\<lambda>w. []),
      gs_subscribe = (\<lambda>t w. (Inr True, w @ [CallSubscribe t])),
      gs_publish = (\<lambda>t m w. (publish_res, w @ [CallPublish t m])),
      gs_set_application_score = (\<lambda>p x w. w @ [CallScore p x]),
      gs_peer_score = (\<lambda>w p. None)\<rparr>"

definition sample_reading :: "nat reading" where
  "sample_reading = \<lparr>peer_to_string = (\<lambda>p. replicate p CHR ''p''), addr_to_string = (\<lambda>a. ''a''),
     now_unix = 1000, now_millis = 1000000\<rparr>"

definition sample_settings :: network_settings where
  "sample_settings = \<lparr>ns_low_water = 1, ns_high_water = 4, ns_per_subnet_cap = 1,
     ns_max_protected_share = F32 False (1, -1)\<rparr>"

lemma sample_cap: "protected_cap sample_settings = 2"
  by (simp add: protected_cap_def sample_settings_def f32_of_usize_def fl_of_nat_def fl_mult_def
      fl_round_exact floorlog_fits_iff dyadic_mult_def dyadic_floor_def usize_max_def)

definition sample_loop :: "(swarm_call list, nat, queue_channel) event_loop" where
  "sample_loop = event_loop_new [] (subscriptions_new 4) metrics_new peer_store_default
     sample_settings {1}"

definition sample_endpoint :: "bool \<Rightarrow> u8 \<Rightarrow> nat endpoint" where
  "sample_endpoint dialer d = \<lparr>is_dialer = dialer, remote_address = [Ip4 (Ipv4 10 0 0 d), Tcp 4025]\<rparr>"

text \<open>A network with one open connection, to peer 2, that the node dialed.\<close>

definition sample_ops :: "(swarm_call list, nat) swarm_ops" where
  "sample_ops = recording_swarm (Inr ()) (Inr ())"

definition sample_start :: "(swarm_call list, nat, queue_channel) network" where
  "sample_start = \<lparr>event_loop = sample_loop, live = []\<rparr>"

definition sample_net :: "(swarm_call list, nat, queue_channel) network" where
  "sample_net =
     \<lparr>event_loop = handle_event sample_ops queue_channel_ops sample_reading
        (ConnectionEstablished 2 (sample_endpoint True 1) 0) sample_loop,
      live = [(0, 2, sample_endpoint True 1)]\<rparr>"

lemma sample_start: "net_start sample_start"
proof -
  have "live sample_start = []" "event_loop sample_start = event_loop_new [] (subscriptions_new 4)
      metrics_new peer_store_default sample_settings {1}" "finite {1::nat}"
    "connected_peers metrics_new = 0"
    by (simp_all add: sample_start_def sample_loop_def metrics_new_def)
  then show ?thesis unfolding net_start_def by blast
qed

lemma sample_reachable: "net_reachable sample_ops queue_channel_ops sample_net"
  using reachable_step [OF reachable_start [OF sample_start] net_step.established [of 0]]
  by (simp add: sample_start_def sample_net_def del: handle_event.simps)

lemma sample_ops_simps [simp]:
  "sw_dial sample_ops p as w = (Inr (), w @ [CallDial p as])"
  "sw_disconnect_peer_id sample_ops p w = w @ [CallDisconnect p]"
  "sw_close_connection sample_ops i w = w @ [CallClose i]"
  "gs_subscribe sample_ops t w = (Inr True, w @ [CallSubscribe t])"
  "gs_publish sample_ops t m w = (Inr (), w @ [CallPublish t m])"
  "gs_set_application_score sample_ops p x w = w @ [CallScore p x]"
  "sw_listen_on sample_ops a w = (Inr (), w @ [CallListen a])"
  by (simp_all add: sample_ops_def recording_swarm_def)

text \<open>A turn that takes the command at once and then handles \<open>later\<close>.\<close>

definition sample_turn :: "sender \<Rightarrow> nat loop_input list \<Rightarrow> nat turn" where
  "sample_turn sd later = \<lparr>before = [], delivery = Handled, visit_order = [], reply_to = sd,
     afterwards = later\<rparr>"

lemma sample_dial_turn:
  "sd \<notin># senders_taken later \<Longrightarrow> dial_turn ops bops (sample_turn sd later) sample_loop"
  by (simp add: dial_turn_def fresh_turn_def sample_turn_def state_at_call_def queue_of_def
      sample_loop_def event_loop_new_def)

lemma sample_fresh_turn: "fresh_turn ops bops (sample_turn sd later) sample_loop"
  by (simp add: fresh_turn_def sample_turn_def sample_loop_def event_loop_new_def)

text \<open>Parsers that accept some texts, and short error texts.\<close>

definition sample_wire :: "nat wire" where
  "sample_wire =
     \<lparr>peer_from_str = (\<lambda>text. if text = [] then Inl ''empty'' else Inr (length text)),
      addr_from_str = (\<lambda>text. if text = ''a'' then Inr [Ip4 (Ipv4 10 0 0 9), Tcp 4025] else Inl ''bad''),
      dial_error_text = (\<lambda>e. ''dial''), publish_error_text = (\<lambda>e. ''publish'')\<rparr>"

end
