(* ===== verification/Loop_Store.thy ===== *)
theory Loop_Store
  imports P2P_Client
begin

section \<open>The event loop and the peer store\<close>

text \<open>
  What a run of the event loop (\<open>src/p2p/network.rs\<close>) records in the peer store
  (\<open>src/p2p/peerstore.rs\<close>), as a history for the address book: a run is a fold of recordings,
  and whatever runs on the loop extends the store by some.
\<close>

text \<open>The recordings of a run: the TCP addresses of an identify message, the address of a
  connection the node dialed.\<close>

fun recordings :: "'p loop_input list \<Rightarrow> (string \<times> string list \<times> nat) list" where
  "recordings [] = []"
| "recordings (SwarmInput rd ev # rest) =
     (case ev of
        IdentifyReceived p listen_addrs \<Rightarrow>
          (case filter has_tcp listen_addrs of
             [] \<Rightarrow> []
           | as \<Rightarrow> [(peer_to_string rd p, map (addr_to_string rd) as, now_unix rd)])
      | ConnectionEstablished p ep i \<Rightarrow>
          (if is_dialer ep
           then [(peer_to_string rd p, [addr_to_string rd (remote_address ep)], now_unix rd)]
           else [])
      | _ \<Rightarrow> []) @ recordings rest"
| "recordings (CommandInput ord c # rest) = recordings rest"
| "recordings (CommandChannelClosed # rest) = []"

lemma event_recordings:
  "peerstore (handle_event ops bops rd ev s) =
     fold (\<lambda>(key, xs, t). record_peer id id key xs t) (recordings [SwarmInput rd ev]) (peerstore s)"
proof (cases ev)
  case (IdentifyReceived p as)
  then show ?thesis
    by (simp add: handle_identify_def Let_def record_peer_text [of "peer_to_string rd"]
        split: list.split)
next
  case (ConnectionEstablished p ep i)
  then show ?thesis
    by (simp add: handle_established_dials record_peer_text [of "peer_to_string rd"])
qed simp_all

lemma run_loop_peerstore:
  "peerstore (run_loop ops bops inputs s) =
     fold (\<lambda>(key, xs, t). record_peer id id key xs t) (recordings inputs) (peerstore s)"
proof (induction inputs arbitrary: s rule: recordings.induct)
  case (2 rd ev rest s)
  have app: "recordings (SwarmInput rd ev # rest) = recordings [SwarmInput rd ev] @ recordings rest"
    by simp
  show ?case unfolding run_loop.simps 2 event_recordings app
    by (simp only: fold_append comp_def)
qed (simp_all add: command_frame del: handle_command.simps)

subsection \<open>Stores that extend others\<close>

definition recorded :: "(string \<times> string list \<times> nat) list \<Rightarrow> peer_store \<Rightarrow> peer_store" where
  "recorded h st = fold (\<lambda>(key, xs, t). record_peer id id key xs t) h st"

lemma recorded_Nil [simp]: "recorded [] st = st"
  by (simp add: recorded_def)

lemma recorded_append: "recorded (h @ h') st = recorded h' (recorded h st)"
  by (simp add: recorded_def)

definition extends_store :: "peer_store \<Rightarrow> peer_store \<Rightarrow> bool" where
  "extends_store st' st \<longleftrightarrow> (\<exists>h. st' = recorded h st)"

lemma extends_store_refl [intro, simp]: "extends_store st st"
  unfolding extends_store_def by (rule exI [of _ "[]"]) simp

lemma extends_store_trans [trans]:
  "extends_store st'' st' \<Longrightarrow> extends_store st' st \<Longrightarrow> extends_store st'' st"
  unfolding extends_store_def by (metis recorded_append)

lemma push_addr_nonempty: "xs \<noteq> [] \<Longrightarrow> push_addr a xs \<noteq> []"
  by (cases xs) (auto simp: push_addr_def max_addrs_per_peer_def Let_def)

lemma fold_push_nonempty: "xs \<noteq> [] \<Longrightarrow> fold push_addr as xs \<noteq> []"
  by (induction as arbitrary: xs) (simp_all add: push_addr_nonempty)

lemma recorded_Cons: "recorded ((k, xs, t) # h) st = recorded h (record_peer id id k xs t st)"
  by (simp add: recorded_def)

lemma recorded_seen: "seen_at st key \<noteq> None \<Longrightarrow> seen_at (recorded h st) key \<noteq> None"
proof (induction h arbitrary: st)
  case (Cons e h)
  then show ?case by (cases e) (simp only: recorded_Cons, auto simp: seen_record)
qed simp

lemma recorded_known: "known_addrs st key \<noteq> [] \<Longrightarrow> known_addrs (recorded h st) key \<noteq> []"
proof (induction h arbitrary: st)
  case (Cons e h)
  obtain k xs t where e: "e = (k, xs, t)" by (cases e)
  have "known_addrs (record_peer id id k xs t st) key \<noteq> []"
    using Cons.prems by (auto simp: known_record fold_push_nonempty)
  from Cons.IH [OF this] show ?case by (simp add: e recorded_Cons)
qed simp

lemma extends_store_keeps:
  assumes "extends_store st' st"
  shows "seen_at st key \<noteq> None \<Longrightarrow> seen_at st' key \<noteq> None"
    and "known_addrs st key \<noteq> [] \<Longrightarrow> known_addrs st' key \<noteq> []"
  using assms recorded_seen recorded_known unfolding extends_store_def by blast+

lemma run_loop_store: "peerstore (run_loop ops bops inputs s) = recorded (recordings inputs) (peerstore s)"
  by (simp add: run_loop_peerstore recorded_def)

lemma run_loop_extends: "extends_store (peerstore (run_loop ops bops inputs s)) (peerstore s)"
  unfolding extends_store_def run_loop_store by blast

text \<open>A turn that brings no addresses.\<close>

definition records_nothing :: "'p turn \<Rightarrow> bool" where
  "records_nothing t \<longleftrightarrow> recordings (before t) = [] \<and> recordings (afterwards t) = []"

lemma call_store:
  "extends_store (peerstore (snd (send_command_and_wait ops bops t c s))) (peerstore s)"
  "records_nothing t \<Longrightarrow> peerstore (snd (send_command_and_wait ops bops t c s)) = peerstore s"
proof -
  let ?s1 = "run_loop ops bops (before t) s"
  let ?s2 = "handle_command ops (visit_order t) (c (reply_to t)) ?s1"
  have cases: "peerstore (snd (send_command_and_wait ops bops t c s)) \<in>
      {peerstore ?s1, recorded (recordings (afterwards t)) (peerstore ?s1)}"
    by (simp add: send_command_and_wait_def Let_def run_loop_store command_frame
        split: delivery.split del: handle_command.simps)
  then have "extends_store (peerstore (snd (send_command_and_wait ops bops t c s))) (peerstore ?s1)"
    by (auto simp: extends_store_def intro: exI [of _ "[]"])
  then show "extends_store (peerstore (snd (send_command_and_wait ops bops t c s))) (peerstore s)"
    by (rule extends_store_trans) (rule run_loop_extends)
  show "peerstore (snd (send_command_and_wait ops bops t c s)) = peerstore s" if "records_nothing t"
    using cases that by (simp add: records_nothing_def run_loop_store)
qed

end
