(* ===== verification/Connection_Properties.thy ===== *)
theory Connection_Properties
  imports Reference_Environment Loop_Store
begin

section \<open>Properties of the connection limits and the event loop's tables\<close>

text \<open>
  The properties of \<open>src/p2p/subnet.rs\<close> and of the part of \<open>src/p2p/network.rs\<close> that keeps the
  connection table, the limits, the protected set and the dials, with their witnesses.
\<close>

subsection \<open>Subnet limits\<close>

text \<open>C1. For every sequence of openings and closings of connections, the limiter's counts are
  the numbers of open connections per subnet, exempt and rejected ones included, and the
  connections of a subnet that were let in without an exemption and are still open are never
  more than the cap.\<close>

theorem subnet_admission_bound:
  "case limits_run c evs of (l, live_conns) \<Rightarrow>
     subnet_cap l = c \<and>
     (\<forall>sn. open_count l sn = count (live_subnets live_conns) sn) \<and>
     (\<forall>sn. length (admitted sn live_conns) \<le> c)"
  using limits_inv_run [of c evs]
  by (auto simp: limits_inv_def limits_refine_def split: prod.split)

text \<open>The counters leave no trace: when every connection that a run opened is closed, the
  table of the limiter is empty again.\<close>

theorem subnet_table_empties:
  assumes "snd (limits_run c evs) = []"
  shows "subnet_counts (fst (limits_run c evs)) = Map.empty"
  using limits_inv_run [of c evs] assms
  by (simp add: limits_inv_def limits_refine_empty_iff)

theorem subnet_table_empties_witness:
  "subnet_counts (fst (limits_run 1
     [Open 0 [Ip4 (Ipv4 10 0 0 1) :: nat protocol] False, Open 1 [Ip4 (Ipv4 10 0 0 2)] False,
      Close 0, Close 1])) = Map.empty"
  by (rule subnet_table_empties)
    (simp add: limits_run_def on_connection_def on_disconnection_def subnet_def Let_def
      subnet_limits_new_def)

subsection \<open>The connection table\<close>

lemma table_facts:
  assumes "table_inv n"
  shows "dom (connected (event_loop n)) = {p. live_of p (live n) \<noteq> []}"
    "connected (event_loop n) p = Some as \<Longrightarrow> set as \<subseteq> address_of ` set (live_of p (live n))"
    "connected_peers (loop_metrics (event_loop n)) = int (length (live n))"
    "limits_refine (limits (event_loop n)) (live_subnets_of (live n))"
proof -
  have "\<And>p. connected (event_loop n) p = None \<longleftrightarrow> live_of p (live n) = []"
    using assms by (simp add: table_inv_def Let_def)
  then show "dom (connected (event_loop n)) = {p. live_of p (live n) \<noteq> []}"
    by (simp add: dom_def)
qed (use assms in \<open>simp_all add: table_inv_def Let_def\<close>)

text \<open>C3. In every reachable state the connected peers are exactly those with an open
  connection, every address kept for a peer is the address of one of its open connections, the
  gauge counts the open connections, and the subnet counts are those of the open connections.\<close>

theorem connection_table_exact:
  assumes "net_reachable ops bops n"
  shows "dom (connected (event_loop n)) = {p. live_of p (live n) \<noteq> []} \<and>
    (\<forall>p as. connected (event_loop n) p = Some as \<longrightarrow>
       set as \<subseteq> address_of ` set (live_of p (live n))) \<and>
    connected_peers (loop_metrics (event_loop n)) = int (length (live n)) \<and>
    (\<forall>sn. open_count (limits (event_loop n)) sn = count (live_subnets_of (live n)) sn)"
  using table_facts [OF reachable_invariants(2) [OF assms]]
  by (simp add: limits_refine_def)

theorem connection_table_exact_witness:
  "dom (connected (event_loop sample_net)) = {p. live_of p (live sample_net) \<noteq> []} \<and>
    live sample_net = [(0, 2, sample_endpoint True 1)]"
  using connection_table_exact [OF sample_reachable] by (simp add: sample_net_def)

text \<open>C26. The table is only one-sided when a peer has several connections with the same remote
  address: closing one of them removes the address although the other is still open, so the
  system reaches a state whose table, the one \<open>GetPeers\<close> lists, has the connected peer without it.\<close>

theorem shared_address_forgotten:
  fixes n :: "('w, 'p, 'c) network" and ops :: "('w, 'p) swarm_ops" and rd :: "'p reading"
  assumes n: "net_reachable ops bops n" and c: "(i, p, ep) \<in> set (live n)"
    and other: "(j, p, ep') \<in> set (live n)" "j \<noteq> i" "remote_address ep' = remote_address ep"
  defines "L \<equiv> remove1 (i, p, ep) (live n)"
  defines "n' \<equiv> \<lparr>event_loop = handle_event ops bops rd
    (ConnectionClosed p ep (length (live_of p L))) (event_loop n), live = L\<rparr>"
  shows "net_reachable ops bops n' \<and> (j, p, ep') \<in> set (live n') \<and>
    (\<exists>as. connected (event_loop n') p = Some as \<and> remote_address ep' \<notin> set as)"
proof -
  have reach: "net_reachable ops bops n'"
    unfolding n'_def by (rule reachable_step [OF n net_step.closed [OF c L_def [THEN meta_eq_to_obj_eq]]])
  have remains: "(j, p, ep') \<in> set L" using other(1,2) by (simp add: L_def)
  then have more: "live_of p L \<noteq> []" by (auto simp: live_of_def filter_empty_conv)
  with table_facts(1) [OF reachable_invariants(2) [OF reach]]
  have "p \<in> dom (connected (event_loop n'))" by (simp add: n'_def del: handle_event.simps)
  then obtain as where "connected (event_loop n') p = Some as" by blast
  moreover from this more have "remote_address ep' \<notin> set as"
    by (auto simp: n'_def handle_closed_connected other(3))
  ultimately show ?thesis using reach remains by (simp add: n'_def del: handle_event.simps)
qed

definition sample_twice :: "(swarm_call list, nat, queue_channel) network" where
  "sample_twice =
     \<lparr>event_loop = handle_event sample_ops queue_channel_ops sample_reading
        (ConnectionEstablished 2 (sample_endpoint False 1) 1) (event_loop sample_net),
      live = [(1, 2, sample_endpoint False 1), (0, 2, sample_endpoint True 1)]\<rparr>"

theorem shared_address_forgotten_witness:
  "\<exists>as. connected (handle_event sample_ops queue_channel_ops sample_reading
      (ConnectionClosed 2 (sample_endpoint True 1) 1) (event_loop sample_twice)) 2 = Some as \<and>
    remote_address (sample_endpoint False 1) \<notin> set as"
proof -
  have "net_reachable sample_ops queue_channel_ops sample_twice"
    using reachable_step [OF sample_reachable net_step.established [of 1]]
    by (simp add: sample_twice_def sample_net_def del: handle_event.simps)
  from shared_address_forgotten [OF this, of 0 2 "sample_endpoint True 1" 1 "sample_endpoint False 1"]
  show ?thesis
    by (simp add: sample_twice_def sample_endpoint_def live_of_def del: handle_event.simps)
qed

text \<open>C4. In every reachable state the protected peers are the bootstrap peers and the peers
  with dial hints, and the latter are at most as many as the share of the high watermark
  allows.\<close>

theorem protected_set_exact:
  assumes "net_reachable ops bops n"
  shows "protected (event_loop n) = bootstrap_peers (event_loop n) \<union> dom (dial_hints (event_loop n)) \<and>
    finite (dom (dial_hints (event_loop n))) \<and>
    card (dom (dial_hints (event_loop n))) \<le> protected_cap (settings (event_loop n))"
  using reachable_invariants(1) [OF assms] by (simp add: protected_inv_def Let_def)

theorem protected_set_exact_witness:
  "protected (event_loop sample_net) =
     bootstrap_peers (event_loop sample_net) \<union> dom (dial_hints (event_loop sample_net))"
  using protected_set_exact [OF sample_reachable] by simp

text \<open>C2. What a new connection makes the swarm do, in terms of the connections that are open:
  a protected peer gets its score and is never disconnected; otherwise the peer is disconnected
  when more than the high watermark of peers have a connection; otherwise the connection is
  closed when its subnet already holds the cap; otherwise nothing happens.\<close>

theorem established_enforcement:
  assumes n: "net_reachable ops bops n"
  shows "swarm (handle_event ops bops rd (ConnectionEstablished p ep i) (event_loop n)) =
    (let s = event_loop n; w = swarm s; addr = remote_address ep;
         peers_with_connection = insert p {q. live_of q (live n) \<noteq> []}
     in if p \<in> protected s then gs_set_application_score ops p preferred_peer_app_score w
        else if ns_high_water (settings s) < card peers_with_connection
        then sw_disconnect_peer_id ops p w
        else if spec_verdict (ns_per_subnet_cap (settings s)) (live_subnets_of (live n)) addr False = Reject
        then sw_close_connection ops i w
        else w)"
proof -
  let ?s = "event_loop n"
  from reachable_invariants(1) [OF n]
  have prot: "p \<in> protected ?s \<longleftrightarrow> p \<in> bootstrap_peers ?s \<or> dial_hints ?s p \<noteq> None"
    by (auto simp: protected_inv_def Let_def)
  note dom = table_facts(1) [OF reachable_invariants(2) [OF n]]
    and ref = table_facts(4) [OF reachable_invariants(2) [OF n]]
  from reachable_invariants(3) [OF n]
  have cap: "subnet_cap (limits ?s) = ns_per_subnet_cap (settings ?s)" by (simp add: cap_inv_def)
  have verdict: "fst (on_connection addr e (limits ?s)) =
      spec_verdict (ns_per_subnet_cap (settings ?s)) (live_subnets_of (live n)) addr e" for addr :: "'b multiaddr" and e
    unfolding cap [symmetric] by (rule limiter.verdict_spec [OF ref])
  obtain v l where v: "on_connection (remote_address ep) (p \<in> protected ?s) (limits ?s) = (v, l)"
    by fastforce
  show ?thesis
    using prot v verdict [of "remote_address ep" "p \<in> protected ?s"]
      limiter.exempt_allowed [OF ref, of "remote_address ep"]
    by (cases "p \<in> protected ?s") (auto simp: handle_established_def enforce_connection_limits_def dom Let_def)
qed

lemma sample_net_facts:
  "swarm (event_loop sample_net) = []" "protected (event_loop sample_net) = {1}"
  "settings (event_loop sample_net) = sample_settings"
  "live sample_net = [(0, 2, sample_endpoint True 1)]"
  by (simp_all add: sample_net_def handle_established_def enforce_connection_limits_def Let_def
      sample_loop_def event_loop_new_def on_connection_def subnet_def sample_endpoint_def
      subnet_limits_new_def complete_dial_def sample_settings_def del: handle_established_frame)

theorem established_enforcement_witness:
  "swarm (handle_event sample_ops queue_channel_ops sample_reading
     (ConnectionEstablished 3 (sample_endpoint False 2) 1) (event_loop sample_net)) = [CallClose 1]"
  unfolding established_enforcement [OF sample_reachable] sample_net_facts Let_def
  by (simp add: sample_settings_def spec_verdict_def subnet_def sample_endpoint_def
      live_subnets_of_def address_of_def subnets_of_def)

subsection \<open>The preferred peers\<close>

text \<open>C5. \<open>SetPreferredPeers\<close> replaces the preferred set by the first entries up to the cap:
  afterwards exactly the bootstrap peers and these are protected, whatever was preferred before;
  the peers that were dropped lose their score and the accepted ones get theirs; and the answer
  counts the accepted and the truncated entries.\<close>

theorem set_preferred_exact:
  assumes n: "net_reachable ops bops n" and ord: "iterates (protected (event_loop n)) ord"
  shows "let s = event_loop n; new = take (protected_cap (settings s)) entries_wanted;
      s' = handle_command ops ord (SetPreferredPeers entries_wanted sd) s
    in protected s' = bootstrap_peers s \<union> fst ` set new \<and>
       dial_hints s' = insert_all new Map.empty \<and>
       swarm s' = fold (\<lambda>p. gs_set_application_score ops p preferred_peer_app_score) (map fst new)
         (fold (\<lambda>p. gs_set_application_score ops p 0)
           (filter (\<lambda>p. p \<notin> fst ` set new \<and> p \<notin> bootstrap_peers s) ord) (swarm s)) \<and>
       replies s' = replies s @
         [(sd, Inr (AcceptedTruncated (of_nat (length new))
                      (of_nat (length entries_wanted - length new))))]"
proof -
  let ?s = "event_loop n"
  let ?new = "take (protected_cap (settings ?s)) entries_wanted"
  have "set ord = protected ?s" using ord by (rule iterates_set)
  moreover have "protected ?s = bootstrap_peers ?s \<union> dom (dial_hints ?s)"
    using reachable_invariants(1) [OF n] by (simp add: protected_inv_def Let_def)
  ultimately have "protected ?s - {p \<in> set ord. p \<notin> fst ` set ?new \<and> p \<notin> bootstrap_peers ?s}
      \<union> fst ` set ?new = bootstrap_peers ?s \<union> fst ` set ?new" by blast
  moreover have "length entries_wanted - length ?new =
      length entries_wanted - protected_cap (settings ?s)" by simp
  ultimately show ?thesis
    by (simp only: Let_def handle_command.simps handle_set_preferred_result simp_thms)
qed

theorem set_preferred_exact_witness:
  "protected (handle_command sample_ops [1] (SetPreferredPeers [(5, []), (6, []), (7, [])] 0)
     (event_loop sample_net)) = {1, 5, 6}"
proof -
  have ord: "iterates (protected (event_loop sample_net)) [1]"
    by (simp add: sample_net_facts iterates_def)
  have boots: "bootstrap_peers (event_loop sample_net) = {1}"
    by (simp add: sample_net_def sample_loop_def event_loop_new_def)
  show ?thesis
    using set_preferred_exact [OF sample_reachable ord, of "[(5, []), (6, []), (7, [])]" 0]
    unfolding Let_def sample_net_facts sample_cap boots by (auto simp: numeral_2_eq_2)
qed

subsection \<open>Answers\<close>

text \<open>Every command the event loop takes is answered exactly once, or its sender is one of
  those waiting for a dial in flight, whatever the order of commands and events: counted with
  multiplicity, the senders taken are the senders answered and the senders waiting.\<close>

theorem every_sender_accounted:
  "let s = run_loop ops bops inputs (event_loop_new w subs m store cfg boots)
   in answered s + waiting (pending_dials s) = senders_taken inputs \<and>
      finite (dom (pending_dials s)) \<and> (\<forall>p. pending_dials s p \<noteq> Some [])"
  using account_run [OF account_new, of ops bops inputs w subs m store cfg boots]
  by (simp add: dials_account_def Let_def)

text \<open>C6. What a dial is answered with: when the peer is being dialed already the dial joins that
  attempt, and otherwise the swarm's refusal is the answer, a peer that is connected counting as
  success; a dial that waits gets the verdict of the first event that settles its peer, and
  \<open>ChannelClosed\<close> when the loop ends without one.\<close>

theorem dial_result:
  assumes "dial_turn ops bops t s"
  shows "fst (dial_and_wait ops bops t p as s) =
    (let s1 = run_loop ops bops (before t) s;
         later = (case dial_verdict p (afterwards t) of Some r \<Rightarrow> r | None \<Rightarrow> Inl ChannelClosed)
     in if pending_dials s1 p \<noteq> None then later
        else case fst (sw_dial ops p as (swarm s1)) of
               Inr _ \<Rightarrow> later
             | Inl DialPeerConditionFalse \<Rightarrow> Inr Done
             | Inl e \<Rightarrow> Inl (BoxedDialError e))"
  using dial_and_wait_result [OF assms]
  by (simp add: dial_outcome_def state_at_call_def Let_def)

theorem dial_result_witness:
  "fst (dial_and_wait sample_ops queue_channel_ops
     (sample_turn 7 [SwarmInput sample_reading (OutgoingConnectionError (Some 2) WrongPeerId)])
     2 [] sample_loop) = Inl (DialFailed WrongPeerId)"
  by (subst dial_result [OF sample_dial_turn])
    (simp_all add: sample_turn_def sample_loop_def event_loop_new_def Let_def)

text \<open>Two callers that wait for the same peer get the same answer, in whatever order they
  asked and whatever the loop handles in between.\<close>

theorem waiting_callers_agree:
  assumes "waits_for sd1 p s" "waits_for sd2 p s"
    and "sd1 \<notin># senders_taken inputs" "sd2 \<notin># senders_taken inputs"
  shows "map_of (replies (run_loop ops bops inputs s)) sd1 = dial_verdict p inputs \<and>
    map_of (replies (run_loop ops bops inputs s)) sd2 = dial_verdict p inputs"
  using assms by (simp add: dial_answer)

theorem waiting_callers_agree_witness:
  "let s = sample_loop\<lparr>pending_dials := [2 \<mapsto> [7, 8]]\<rparr>;
     s' = run_loop sample_ops queue_channel_ops
       [SwarmInput sample_reading (ConnectionEstablished 2 (sample_endpoint True 1) 0)] s
   in map_of (replies s') 7 = Some (Inr Done) \<and> map_of (replies s') 8 = Some (Inr Done)"
proof -
  have "waits_for 7 2 (sample_loop\<lparr>pending_dials := [2 \<mapsto> [7, 8]]\<rparr>)"
    "waits_for 8 2 (sample_loop\<lparr>pending_dials := [2 \<mapsto> [7, 8]]\<rparr>)"
    by (simp_all add: waits_for_def queue_of_def sample_loop_def event_loop_new_def)
  from waiting_callers_agree [OF this,
      of "[SwarmInput sample_reading (ConnectionEstablished 2 (sample_endpoint True 1) 0)]"
        sample_ops queue_channel_ops]
  show ?thesis by (simp add: Let_def sample_endpoint_def del: run_loop.simps)
qed

subsection \<open>What the peer store learns from the loop\<close>

text \<open>C29. The store after any run holds, for each peer, nothing but the addresses it held before
  and those that an outgoing connection or an identify message brought for that peer: never the
  source address of an inbound connection, and of identify only addresses with a TCP part.\<close>

theorem peerstore_provenance:
  "set (known_addrs (peerstore (run_loop ops bops inputs s)) key) \<subseteq>
     set (known_addrs (peerstore s) key) \<union>
       {a. \<exists>xs t. (key, xs, t) \<in> set (recordings inputs) \<and> a \<in> set xs}"
  unfolding run_loop_peerstore using book.history_source by blast

text \<open>C30. A run of the loop keeps the peer store bounded: from a store with at most eight
  distinct addresses per peer it never leads to one with more, or with duplicates.\<close>

theorem peerstore_bounded:
  assumes "\<forall>key. distinct (known_addrs (peerstore s) key) \<and>
    length (known_addrs (peerstore s) key) \<le> 8"
  shows "distinct (known_addrs (peerstore (run_loop ops bops inputs s)) key) \<and>
    length (known_addrs (peerstore (run_loop ops bops inputs s)) key) \<le> 8"
  using book.history_bound [of "peerstore s" "recordings inputs"] assms
  by (simp add: run_loop_peerstore max_addrs_per_peer_def)

theorem peerstore_bounded_witness:
  "length (known_addrs (peerstore (run_loop sample_ops queue_channel_ops
     [SwarmInput sample_reading (ConnectionEstablished 2 (sample_endpoint True 1) 0)]
     sample_loop)) ''pp'') \<le> 8"
  using peerstore_bounded [of sample_loop sample_ops queue_channel_ops
      "[SwarmInput sample_reading (ConnectionEstablished 2 (sample_endpoint True 1) 0)]" "''pp''"]
  by (simp add: sample_loop_def event_loop_new_def known_addrs_def peer_store_default_def
      del: run_loop.simps)

end
