(* ===== verification/Std_Time.thy ===== *)
theory Std_Time
  imports Ieee_Float
begin

section \<open>Durations and instants (std::time)\<close>

text \<open>
  What the code uses of \<open>std::time\<close>. A \<open>Duration\<close> is a number of nanoseconds up to
  \<open>Duration::MAX\<close> (\<open>u64::MAX\<close> seconds and 999999999 nanoseconds); an \<open>Instant\<close> is the
  number of nanoseconds since the clock's origin, up to the largest the Linux representation
  holds (\<open>i64::MAX\<close> seconds). Operations that panic on overflow return \<open>None\<close>.
\<close>

type_synonym duration = nat
type_synonym instant = nat

definition nanos_per_sec :: nat where
  "nanos_per_sec = 1000000000"

definition duration_max :: duration where
  "duration_max = (2 ^ 64 - 1) * nanos_per_sec + 999999999"

definition instant_max :: instant where
  "instant_max = (2 ^ 63 - 1) * nanos_per_sec + 999999999"

definition from_secs :: "nat \<Rightarrow> duration" where
  "from_secs s = s * nanos_per_sec"

definition saturating_mul :: "duration \<Rightarrow> nat \<Rightarrow> duration" where
  "saturating_mul d k = min (d * k) duration_max"

text \<open>\<open>u32::saturating_pow\<close>.\<close>

definition saturating_pow :: "nat \<Rightarrow> nat \<Rightarrow> nat" where
  "saturating_pow b n = min (b ^ n) (2 ^ 32 - 1)"

text \<open>\<open>Instant + Duration\<close>, which panics when the sum is not representable.\<close>

definition instant_add :: "instant \<Rightarrow> duration \<Rightarrow> instant option" where
  "instant_add t d = (if t + d \<le> instant_max then Some (t + d) else None)"

text \<open>\<open>Duration::as_secs_f64\<close>: seconds plus nanoseconds over \<open>1e9\<close>, each step in \<open>f64\<close>.\<close>

definition as_secs_f64 :: "duration \<Rightarrow> dyadic" where
  "as_secs_f64 d =
     fl_add 53 (fl_of_nat 53 (d div nanos_per_sec))
       (fl_div 53 (fl_of_nat 53 (d mod nanos_per_sec)) (fl_of_nat 53 nanos_per_sec))"

text \<open>The nanoseconds of a float of seconds, rounded to nearest, ties to even.\<close>

definition nanos_of_f64 :: "dyadic \<Rightarrow> nat" where
  "nanos_of_f64 x =
     (case x of (m, e) \<Rightarrow>
        if 0 \<le> e then m * nanos_per_sec * 2 ^ nat e
        else rne_div (m * nanos_per_sec) (2 ^ nat (- e)))"

text \<open>\<open>Duration::from_secs_f64\<close>, which panics on overflow.\<close>

definition from_secs_f64 :: "dyadic \<Rightarrow> duration option" where
  "from_secs_f64 x = (let n = nanos_of_f64 x in if n \<le> duration_max then Some n else None)"

definition mul_f64 :: "duration \<Rightarrow> dyadic \<Rightarrow> duration option" where
  "mul_f64 d x = from_secs_f64 (fl_mult 53 x (as_secs_f64 d))"

subsection \<open>The wall clock\<close>

text \<open>
  \<open>now_unix\<close> of the peer store and \<open>now_millis\<close> of the subscriptions, from what
  \<open>SystemTime::now().duration_since(UNIX_EPOCH)\<close> gives: nothing when the clock stands before the
  epoch. The milliseconds are cut to 64 bits.
\<close>

definition now_unix_of :: "duration option \<Rightarrow> nat" where
  "now_unix_of since_epoch =
     (case map_option (\<lambda>d. d div nanos_per_sec) since_epoch of Some n \<Rightarrow> n | None \<Rightarrow> 0)"

definition now_millis_of :: "duration option \<Rightarrow> nat" where
  "now_millis_of since_epoch =
     (case map_option (\<lambda>d. (d div 1000000) mod 2 ^ 64) since_epoch of Some n \<Rightarrow> n | None \<Rightarrow> 0)"

text \<open>The seconds fit a \<open>u64\<close>, and the two clocks agree until the milliseconds do not fit one.\<close>

lemma now_unix_bound: "\<forall>d. since_epoch = Some d \<longrightarrow> d \<le> duration_max \<Longrightarrow> now_unix_of since_epoch < 2 ^ 64"
  by (cases since_epoch) (auto simp: now_unix_of_def duration_max_def nanos_per_sec_def)

lemma clocks_agree:
  assumes "\<forall>d. since_epoch = Some d \<longrightarrow> d div 1000000 < 2 ^ 64"
  shows "now_millis_of since_epoch div 1000 = now_unix_of since_epoch"
  using assms by (cases since_epoch) (simp_all add: now_unix_of_def now_millis_of_def nanos_per_sec_def div_mult2_eq [symmetric])

subsection \<open>Scaling whole seconds\<close>

lemma nanos_of_f64_rne: "int (nanos_of_f64 x) = rne (dval x * real nanos_per_sec)"
proof (cases x)
  case (Pair m e)
  show ?thesis
  proof (cases "0 \<le> e")
    case True
    then have "dval x * real nanos_per_sec = real (m * nanos_per_sec * 2 ^ nat e)"
      using pow2_int [of "nat e"] by (simp add: Pair dval_def)
    with True show ?thesis
      by (simp only: rne_of_nat) (simp add: Pair nanos_of_f64_def)
  next
    case False
    then have "pow2 e * 2 ^ nat (- e) = 1"
      using pow2_shift [of e "nat (- e)" 0] by (simp add: mult.commute)
    then have "dval x * real nanos_per_sec = real (m * nanos_per_sec) / real (2 ^ nat (- e))"
      by (simp add: Pair dval_def field_simps)
    with False show ?thesis
      by (simp add: Pair nanos_of_f64_def rne_div_rne)
  qed
qed

lemma dval_fl_round_fits:
  assumes "dval x = dval y" "fst y < 2 ^ p" "0 < p"
  shows "dval (fl_round p x) = dval y"
  using fl_round_le [of x y p] fl_round_ge [of y x p] assms
  by (simp add: floorlog_fits_iff)

lemma dval_as_secs_f64_whole:
  assumes "s < 2 ^ 53"
  shows "dval (as_secs_f64 (from_secs s)) = real s"
proof -
  have s: "fl_of_nat 53 s = (s, 0)"
    using assms by (simp add: fl_of_nat_def fl_round_exact floorlog_fits_iff)
  have z: "fl_of_nat 53 0 = (0, 0)"
    by (simp add: fl_of_nat_def fl_round_exact floorlog_fits_iff)
  have "dval (fl_div 53 (0, 0) (fl_of_nat 53 nanos_per_sec)) = 0"
    by (simp add: fl_div_def Let_def)
  then have "dval (dyadic_add (s, 0) (fl_div 53 (0, 0) (fl_of_nat 53 nanos_per_sec))) = dval (s, 0)"
    by simp
  then have "dval (fl_add 53 (s, 0) (fl_div 53 (0, 0) (fl_of_nat 53 nanos_per_sec))) = dval (s, 0)"
    unfolding fl_add_def by (rule dval_fl_round_fits) (use assms in simp_all)
  moreover have "from_secs s div nanos_per_sec = s" "from_secs s mod nanos_per_sec = 0"
    by (simp_all add: from_secs_def nanos_per_sec_def)
  ultimately show ?thesis by (simp add: as_secs_f64_def s z)
qed

text \<open>
  A whole number of seconds scaled by a factor between one half and three halves is between
  half and three halves of it, exactly, in spite of the roundings.
\<close>

lemma mul_f64_bounds:
  assumes s: "3 * s < 2 ^ 53" and j: "1 / 2 \<le> dval j" "dval j \<le> 3 / 2"
  shows "\<exists>d. mul_f64 (from_secs s) j = Some d \<and>
    s * nanos_per_sec \<le> 2 * d \<and> 2 * d \<le> 3 * s * nanos_per_sec"
proof -
  define x where "x = fl_mult 53 j (as_secs_f64 (from_secs s))"
  have v: "dval (dyadic_mult j (as_secs_f64 (from_secs s))) = dval j * real s"
    using s by (simp add: dval_as_secs_f64_whole)
  have half: "dval (k, -1) = real k / 2" for k by (simp add: dval_def pow2_def)
  have "dval (s, -1) \<le> dval x"
    unfolding x_def fl_mult_def
  proof (rule fl_round_ge)
    show "dval (s, -1) \<le> dval (dyadic_mult j (as_secs_f64 (from_secs s)))"
      using mult_right_mono [OF j(1), of "real s"] unfolding v half by simp
  qed (use s in \<open>simp_all add: floorlog_fits_iff\<close>)
  then have lo: "real s / 2 \<le> dval x" by (simp add: half)
  have "dval x \<le> dval (3 * s, -1)"
    unfolding x_def fl_mult_def
  proof (rule fl_round_le)
    show "dval (dyadic_mult j (as_secs_f64 (from_secs s))) \<le> dval (3 * s, -1)"
      using mult_right_mono [OF j(2), of "real s"] unfolding v half by simp
  qed (use s in \<open>simp_all add: floorlog_fits_iff\<close>)
  then have hi: "dval x \<le> 3 * real s / 2" by (simp add: half)
  define n where "n = s * 500000000"
  have "rne (real n) \<le> rne (dval x * real nanos_per_sec)"
    "rne (dval x * real nanos_per_sec) \<le> rne (real (3 * n))"
    using lo hi by (auto intro!: rne_mono simp: nanos_per_sec_def n_def)
  then have "n \<le> nanos_of_f64 x" "nanos_of_f64 x \<le> 3 * n"
    by (simp_all only: nanos_of_f64_rne [symmetric] rne_of_nat of_nat_le_iff)
  moreover have "3 * n \<le> duration_max"
    using s by (simp add: n_def duration_max_def nanos_per_sec_def)
  ultimately show ?thesis
    by (auto simp: mul_f64_def from_secs_f64_def x_def [symmetric] Let_def n_def nanos_per_sec_def)
qed

end
