(* ===== verification/Dial_Backoff.thy ===== *)
theory Dial_Backoff
  imports Std_Time
begin

section \<open>Exponential dial backoff (src/p2p/backoff.rs)\<close>

text \<open>
  \<open>DialBackoff\<close> decides when a peer whose dials failed may be dialed again. The state is a
  hash map from peers to the number of consecutive failures and the instant of the next
  attempt. The clock and the random number are arguments; an operation that panics (an
  instant or a duration out of range) returns \<open>None\<close>. Below: the operations, what each does
  to the readiness of every peer, the interface \<open>dial_gate\<close> the maintenance loop relies on,
  and its interpretation.
\<close>

record backoff_entry =
  failures :: u32
  next_attempt :: instant

record 'p dial_backoff =
  backoff_base :: duration
  backoff_cap :: duration
  backoff_state :: "'p \<rightharpoonup> backoff_entry"

definition backoff_new :: "duration \<Rightarrow> duration \<Rightarrow> 'p dial_backoff" where
  "backoff_new base c = \<lparr>backoff_base = base, backoff_cap = c, backoff_state = Map.empty\<rparr>"

definition ready :: "'p \<Rightarrow> instant \<Rightarrow> 'p dial_backoff \<Rightarrow> bool" where
  "ready peer now b =
     (case backoff_state b peer of
        None \<Rightarrow> True
      | Some st \<Rightarrow> now \<ge> next_attempt st)"

text \<open>
  \<open>rand::random::<f64>()\<close> is the argument \<open>rnd\<close>. The failure counter is a \<open>u32\<close> whose
  increment wraps in the release profile the service is built with;
  \<open>failures.saturating_sub(1)\<close> is the subtraction of \<open>nat\<close>.
\<close>

definition record_failure ::
    "dyadic \<Rightarrow> 'p \<Rightarrow> instant \<Rightarrow> 'p dial_backoff \<Rightarrow> 'p dial_backoff option" where
  "record_failure rnd peer now b =
     (let failures = (case backoff_state b peer of None \<Rightarrow> 0 | Some s \<Rightarrow> failures s) + 1;
          exponential = saturating_mul (backoff_base b) (saturating_pow 2 (unat failures - 1));
          capped = min exponential (backoff_cap b);
          jitter = fl_add 53 (1, -1) rnd
      in do {
        delay \<leftarrow> mul_f64 capped jitter;
        next \<leftarrow> instant_add now delay;
        Some (b\<lparr>backoff_state := (backoff_state b)
                  (peer \<mapsto> \<lparr>failures = failures, next_attempt = next\<rparr>)\<rparr>)
      })"

definition record_success :: "'p \<Rightarrow> 'p dial_backoff \<Rightarrow> 'p dial_backoff" where
  "record_success peer b = b\<lparr>backoff_state := (backoff_state b)(peer := None)\<rparr>"

text \<open>
  \<open>HashMap::retain\<close> visits every entry (in the order \<open>ord\<close>); the addition of the cap panics
  when an entry's instant is too large.
\<close>

definition expired :: "instant \<Rightarrow> duration \<Rightarrow> backoff_entry \<Rightarrow> bool" where
  "expired now c st \<longleftrightarrow> \<not> now < next_attempt st + c"

definition prune :: "'p list \<Rightarrow> instant \<Rightarrow> 'p dial_backoff \<Rightarrow> 'p dial_backoff option" where
  "prune ord now b =
     (let c = backoff_cap b
      in if list_all (\<lambda>(p, st). instant_add (next_attempt st) c \<noteq> None) (entries (backoff_state b) ord)
         then Some (b\<lparr>backoff_state := (\<lambda>p. case backoff_state b p of
                        None \<Rightarrow> None
                      | Some st \<Rightarrow> if expired now c st then None else Some st)\<rparr>)
         else None)"

text \<open>
  What the service assumes of \<open>rand::random::<f64>()\<close>: a float in the unit interval, 1
  excluded.
\<close>

definition random_unit :: "dyadic \<Rightarrow> bool" where
  "random_unit r \<longleftrightarrow> 0 \<le> dval r \<and> dval r < 1"

subsection \<open>The delay after a failure\<close>

lemma jitter_range:
  assumes "random_unit r"
  shows "1 / 2 \<le> dval (fl_add 53 (1, -1) r)" "dval (fl_add 53 (1, -1) r) \<le> 3 / 2"
proof -
  have half: "dval (k, -1) = real k / 2" for k by (simp add: dval_def pow2_def)
  have "dval (1, -1) \<le> dval (fl_add 53 (1, -1) r)"
    unfolding fl_add_def by (rule fl_round_ge) (simp_all add: floorlog_fits_iff)
  then show "1 / 2 \<le> dval (fl_add 53 (1, -1) r)" by (simp add: half)
  have "dval (fl_add 53 (1, -1) r) \<le> dval (3, -1)"
    unfolding fl_add_def
    by (rule fl_round_le) (use assms in \<open>simp_all add: half random_unit_def floorlog_fits_iff\<close>)
  then show "dval (fl_add 53 (1, -1) r) \<le> 3 / 2" by (simp add: half)
qed

text \<open>The delay before jitter, in seconds, after \<open>n\<close> failures.\<close>

definition capped_secs :: "nat \<Rightarrow> nat \<Rightarrow> nat \<Rightarrow> nat" where
  "capped_secs base c n = min (base * saturating_pow 2 (n - 1)) c"

lemma capped_whole:
  assumes "c < 2 ^ 51"
  shows "min (saturating_mul (from_secs base) (saturating_pow 2 k)) (from_secs c) =
    from_secs (capped_secs base c (Suc k))"
proof -
  have "from_secs c \<le> duration_max"
    using assms by (simp add: from_secs_def duration_max_def nanos_per_sec_def)
  then have "min duration_max (from_secs c) = from_secs c" by simp
  then show ?thesis
    by (simp add: saturating_mul_def capped_secs_def min.assoc)
      (simp add: from_secs_def nat_mult_min_left nat_mult_min_right ac_simps)
qed

definition failures_of :: "'p dial_backoff \<Rightarrow> 'p \<Rightarrow> u32" where
  "failures_of b p = (case backoff_state b p of None \<Rightarrow> 0 | Some st \<Rightarrow> failures st)"

lemma saturating_pow_pred: "saturating_pow 2 (n - 1) = saturating_pow 2 (Suc (n - 1) - 1)"
  by simp

text \<open>
  With a whole number of seconds as base and cap, a failure never panics before the clock
  nears its end, and the new delay is between one half and three halves of the capped
  exponential.
\<close>

lemma record_failure_delay:
  assumes base: "backoff_base b = from_secs base" and c: "backoff_cap b = from_secs c" "c < 2 ^ 51"
    and r: "random_unit r" and now: "now + 2 * from_secs c \<le> instant_max"
  shows "\<exists>d. record_failure r p now b = Some (b\<lparr>backoff_state := (backoff_state b)
      (p \<mapsto> \<lparr>failures = failures_of b p + 1, next_attempt = now + d\<rparr>)\<rparr>) \<and>
    capped_secs base c (unat (failures_of b p + 1)) * nanos_per_sec \<le> 2 * d \<and>
    2 * d \<le> 3 * capped_secs base c (unat (failures_of b p + 1)) * nanos_per_sec"
proof -
  define n where "n = unat (failures_of b p + 1)"
  define s where "s = capped_secs base c n"
  have s_le: "s \<le> c" by (simp add: s_def capped_secs_def)
  then have "3 * s < 2 ^ 53" using c(2) by simp
  from mul_f64_bounds [OF this jitter_range [OF r]] obtain d where
    d: "mul_f64 (from_secs s) (fl_add 53 (1, -1) r) = Some d"
    and lo: "s * nanos_per_sec \<le> 2 * d" and hi: "2 * d \<le> 3 * s * nanos_per_sec" by blast
  have capped: "min (saturating_mul (backoff_base b) (saturating_pow 2 (n - 1))) (backoff_cap b) =
      from_secs s"
    unfolding base c(1) capped_whole [OF c(2)] by (simp add: s_def capped_secs_def)
  have "d \<le> 2 * from_secs c"
    using hi s_le by (simp add: from_secs_def nanos_per_sec_def)
  with now have add: "instant_add now d = Some (now + d)" by (simp add: instant_add_def)
  show ?thesis
  proof (intro exI [of _ d] conjI)
    show "record_failure r p now b = Some (b\<lparr>backoff_state := (backoff_state b)
      (p \<mapsto> \<lparr>failures = failures_of b p + 1, next_attempt = now + d\<rparr>)\<rparr>)"
      using capped d add
      by (simp add: record_failure_def failures_of_def n_def Let_def)
  qed (use lo hi in \<open>simp_all add: s_def n_def\<close>)
qed

subsection \<open>Readiness\<close>

lemma record_failure_SomeD:
  assumes "record_failure r p t b = Some b'"
  shows "\<exists>d n. b' = b\<lparr>backoff_state := (backoff_state b)
    (p \<mapsto> \<lparr>failures = n, next_attempt = t + d\<rparr>)\<rparr>"
  using assms
  by (auto simp: record_failure_def instant_add_def Let_def split: bind_splits if_splits)

lemma ready_record_failure_other:
  "record_failure r p t b = Some b' \<Longrightarrow> q \<noteq> p \<Longrightarrow> ready q t' b' = ready q t' b"
  by (auto dest!: record_failure_SomeD simp: ready_def)

lemma ready_record_failure_self:
  "record_failure r p t b = Some b' \<Longrightarrow> ready p t' b' \<Longrightarrow> t \<le> t'"
  by (auto dest!: record_failure_SomeD simp: ready_def)

lemma ready_mono: "ready p t b \<Longrightarrow> t \<le> t' \<Longrightarrow> ready p t' b"
  by (auto simp: ready_def split: option.splits)

lemma ready_record_success: "ready q t (record_success p b) \<longleftrightarrow> q = p \<or> ready q t b"
  by (auto simp: ready_def record_success_def)

lemma ready_prune:
  assumes "prune ord now b = Some b'" and "now \<le> t"
  shows "ready p t b' = ready p t b"
  using assms
  by (auto simp: prune_def ready_def expired_def Let_def split: option.splits if_splits)

lemma prune_dom:
  assumes "prune ord now b = Some b'"
  shows "dom (backoff_state b') =
    {p. \<exists>st. backoff_state b p = Some st \<and> now < next_attempt st + backoff_cap b}"
  using assms
  by (auto simp: prune_def expired_def Let_def split: option.splits if_splits)

lemma prune_total:
  assumes "\<And>p st. backoff_state b p = Some st \<Longrightarrow> next_attempt st + backoff_cap b \<le> instant_max"
  shows "\<exists>b'. prune ord now b = Some b'"
  using assms
  by (auto simp: prune_def instant_add_def list_all_iff set_entries Let_def)

subsection \<open>The interface the maintenance loop relies on\<close>

text \<open>
  A gate decides when a peer may be dialed; a failure closes it for that peer only, until some
  later instant, and a success opens it. The client's view, a sequence of dial outcomes, is
  \<open>outcomes\<close>: each is a peer with \<open>None\<close> for a success or the instant and the random
  number of a failure. The gate of a peer that no outcome names is unchanged; after its last
  outcome a failed peer is not ready before the instant of the failure.
\<close>

type_synonym 'p outcome = "'p \<times> (instant \<times> dyadic) option"

definition apply_outcome :: "(dyadic \<Rightarrow> 'p \<Rightarrow> instant \<Rightarrow> 'b \<Rightarrow> 'b option) \<Rightarrow> ('p \<Rightarrow> 'b \<Rightarrow> 'b)
    \<Rightarrow> 'p outcome \<Rightarrow> 'b \<Rightarrow> 'b option" where
  "apply_outcome fail succeed oc b =
     (case snd oc of None \<Rightarrow> Some (succeed (fst oc) b) | Some (t, r) \<Rightarrow> fail r (fst oc) t b)"

fun apply_outcomes :: "(dyadic \<Rightarrow> 'p \<Rightarrow> instant \<Rightarrow> 'b \<Rightarrow> 'b option) \<Rightarrow> ('p \<Rightarrow> 'b \<Rightarrow> 'b)
    \<Rightarrow> 'p outcome list \<Rightarrow> 'b \<Rightarrow> 'b option" where
  "apply_outcomes fail succeed [] b = Some b"
| "apply_outcomes fail succeed (oc # ocs) b =
     Option.bind (apply_outcome fail succeed oc b) (apply_outcomes fail succeed ocs)"

locale dial_gate =
  fixes gate :: "'p \<Rightarrow> instant \<Rightarrow> 'b \<Rightarrow> bool"
    and fail :: "dyadic \<Rightarrow> 'p \<Rightarrow> instant \<Rightarrow> 'b \<Rightarrow> 'b option"
    and succeed :: "'p \<Rightarrow> 'b \<Rightarrow> 'b"
  assumes gate_mono: "gate p t b \<Longrightarrow> t \<le> t' \<Longrightarrow> gate p t' b"
    and fail_other: "fail r p t b = Some b' \<Longrightarrow> q \<noteq> p \<Longrightarrow> gate q t' b' = gate q t' b"
    and fail_self: "fail r p t b = Some b' \<Longrightarrow> gate p t' b' \<Longrightarrow> t \<le> t'"
    and succeed_gate: "gate q t (succeed p b) \<longleftrightarrow> q = p \<or> gate q t b"
begin

lemma apply_outcome_other:
  "apply_outcome fail succeed oc b = Some b' \<Longrightarrow> q \<noteq> fst oc \<Longrightarrow> gate q t b' = gate q t b"
  by (auto simp: apply_outcome_def succeed_gate fail_other split: option.splits)

lemma outcomes_other:
  "apply_outcomes fail succeed ocs b = Some b' \<Longrightarrow> q \<notin> fst ` set ocs \<Longrightarrow> gate q t b' = gate q t b"
proof (induction ocs arbitrary: b)
  case (Cons oc ocs)
  then show ?case
    by (auto simp: bind_eq_Some_conv dest: apply_outcome_other [of oc b _ q t])
qed simp

lemma outcomes_success:
  assumes "apply_outcomes fail succeed ocs b = Some b'" "distinct (map fst ocs)" "(p, None) \<in> set ocs"
  shows "gate p t b'"
  using assms
proof (induction ocs arbitrary: b)
  case (Cons oc ocs)
  from Cons.prems(1) obtain b1 where b1: "apply_outcome fail succeed oc b = Some b1"
    and rest: "apply_outcomes fail succeed ocs b1 = Some b'" by (auto simp: bind_eq_Some_conv)
  show ?case
  proof (cases "oc = (p, None)")
    case True
    with Cons.prems(2) have "p \<notin> fst ` set ocs" by auto
    with rest have "gate p t b' = gate p t b1" by (rule outcomes_other)
    with True b1 show ?thesis by (auto simp: apply_outcome_def succeed_gate)
  next
    case False
    with Cons.prems rest show ?thesis by (auto intro: Cons.IH)
  qed
qed simp

lemma outcomes_failure:
  assumes "apply_outcomes fail succeed ocs b = Some b'" "distinct (map fst ocs)"
    "(p, Some (t, r)) \<in> set ocs" "gate p t' b'"
  shows "t \<le> t'"
  using assms
proof (induction ocs arbitrary: b)
  case (Cons oc ocs)
  from Cons.prems(1) obtain b1 where b1: "apply_outcome fail succeed oc b = Some b1"
    and rest: "apply_outcomes fail succeed ocs b1 = Some b'" by (auto simp: bind_eq_Some_conv)
  show ?case
  proof (cases "oc = (p, Some (t, r))")
    case True
    with Cons.prems(2) have "p \<notin> fst ` set ocs" by auto
    with rest have "gate p t' b' = gate p t' b1" by (rule outcomes_other)
    with True b1 Cons.prems(4) show ?thesis
      by (auto simp: apply_outcome_def intro: fail_self)
  next
    case False
    with Cons.prems rest show ?thesis by (auto intro: Cons.IH)
  qed
qed simp

end

interpretation backoff_gate: dial_gate ready record_failure record_success
  by unfold_locales
    (auto simp: ready_record_failure_other ready_record_success
      intro: ready_mono ready_record_failure_self)

end
