(* ===== verification/Maintenance.thy ===== *)
theory Maintenance
  imports Dial_Backoff Peer_Store Event_Loop "HOL-Library.Sublist"
begin

section \<open>Mesh maintenance (src/p2p/maintenance.rs)\<close>

text \<open>
  The maintenance task wakes up periodically, asks the event loop for a snapshot of the
  connections, and dials: the bootstrap peers when none of them is connected, preferred peers
  that are not connected, and peers of the peer store below the low watermark. The model of a
  tick takes what the tick reads from outside as arguments: the snapshot, the peer store, the
  two shuffles, and for the i-th candidate the clock readings, the answer to the dial and the
  random number. A tick returns the attempts it made and the new backoff state, or \<open>None\<close>
  when the backoff's arithmetic panics.
\<close>

definition dial_timeout :: duration where
  "dial_timeout = from_secs 10"

definition backoff_base_secs :: nat where
  "backoff_base_secs = 1"

definition backoff_cap_secs :: nat where
  "backoff_cap_secs = 300"

definition peerstore_max_age_secs :: nat where
  "peerstore_max_age_secs = 7 * 24 * 3600"

definition max_preferred_dials_per_tick :: nat where
  "max_preferred_dials_per_tick = 16"

record maintenance_settings =
  interval :: duration
  low_water :: nat

subsection \<open>Addresses\<close>

definition split_peer_multiaddr :: "'p multiaddr \<Rightarrow> ('p \<times> 'p multiaddr) option" where
  "split_peer_multiaddr addr =
     (case multiaddr_pop addr of
        (Some (P2p peer_id), dial_addr) \<Rightarrow> Some (peer_id, dial_addr)
      | _ \<Rightarrow> None)"

definition is_undialable :: "'p multiaddr \<Rightarrow> bool" where
  "is_undialable addr \<longleftrightarrow>
     list_ex (\<lambda>p. case p of
         Ip4 ip \<Rightarrow> ipv4_is_loopback ip \<or> ipv4_is_unspecified ip
       | Ip6 ip \<Rightarrow> ipv6_is_loopback ip \<or> ipv6_is_unspecified ip
       | _ \<Rightarrow> False) addr"

lemma split_peer_multiaddr_Some_iff:
  "split_peer_multiaddr addr = Some (p, a) \<longleftrightarrow> addr = a @ [P2p p]"
proof (cases addr rule: rev_cases)
  case (snoc ys y)
  then show ?thesis by (cases y) (auto simp: split_peer_multiaddr_def)
qed (simp add: split_peer_multiaddr_def)

subsection \<open>Candidates\<close>

definition bootstrap_list :: "'p multiaddr list \<Rightarrow> ('p \<times> 'p multiaddr) list" where
  "bootstrap_list bootstrap_multiaddrs = List.map_filter split_peer_multiaddr bootstrap_multiaddrs"

definition bootstrap_candidates ::
    "('p \<times> 'p multiaddr) list \<Rightarrow> 'p set \<Rightarrow> ('p \<times> 'p multiaddr list) list" where
  "bootstrap_candidates bootstrap conn =
     (let bootstrap_connected = list_ex (\<lambda>(peer_id, _). peer_id \<in> conn) bootstrap
      in if \<not> bootstrap_connected then map (\<lambda>(peer_id, addr). (peer_id, [addr])) bootstrap else [])"

definition preferred_candidates ::
    "(('p \<times> 'p multiaddr list) list \<Rightarrow> ('p \<times> 'p multiaddr list) list) \<Rightarrow> 'p network_snapshot
      \<Rightarrow> ('p \<times> 'p multiaddr list) list" where
  "preferred_candidates shuffle snapshot =
     take max_preferred_dials_per_tick (shuffle
       (List.map_filter (\<lambda>(peer_id, hints).
          if peer_id \<in> snapshot_connected snapshot then None
          else let dialable = filter (\<lambda>addr. \<not> is_undialable addr) hints
               in if dialable \<noteq> [] then Some (peer_id, dialable) else None)
        (snapshot_preferred snapshot)))"

definition refill_candidates ::
    "(('p \<times> 'p multiaddr) list \<Rightarrow> ('p \<times> 'p multiaddr) list) \<Rightarrow> nat \<Rightarrow> 'p set
      \<Rightarrow> ('p \<times> 'p multiaddr) list \<Rightarrow> ('p \<times> 'p multiaddr) list" where
  "refill_candidates shuffle low conn stored =
     (let refill_budget = (low - card conn) + 2;
          candidates =
            (if card conn < low
             then shuffle (filter (\<lambda>(peer_id, addr). peer_id \<notin> conn \<and> \<not> is_undialable addr) stored)
             else [])
      in take refill_budget candidates)"

subsection \<open>Dialing the candidates\<close>

text \<open>The answer of \<open>timeout(DIAL_TIMEOUT, client.dial_and_wait(..))\<close>.\<close>

datatype dial_result = DialOk | DialErr boxed_error | DialTimedOut

record attempt_env =
  ready_now :: instant
  result :: dial_result
  failed_now :: instant
  jitter_random :: dyadic

text \<open>One attempt that was made: the peer, its addresses, and the readings that went with it.\<close>

type_synonym 'p attempt = "('p \<times> 'p multiaddr list) \<times> attempt_env"

fun dial_loop ::
    "(nat \<Rightarrow> attempt_env) \<Rightarrow> 'p set \<Rightarrow> 'p set \<Rightarrow> nat \<Rightarrow> ('p \<times> 'p multiaddr list) list
      \<Rightarrow> 'p dial_backoff \<Rightarrow> ('p attempt list \<times> 'p dial_backoff) option" where
  "dial_loop att conn attempted i [] b = Some ([], b)"
| "dial_loop att conn attempted i ((peer_id, as) # rest) b =
     (if peer_id \<in> conn \<or> peer_id \<in> attempted
      then dial_loop att conn attempted (Suc i) rest b
      else if \<not> ready peer_id (ready_now (att i)) b
      then dial_loop att conn attempted (Suc i) rest b
      else do {
        b' \<leftarrow> (case result (att i) of
                DialOk \<Rightarrow> Some (record_success peer_id b)
              | _ \<Rightarrow> record_failure (jitter_random (att i)) peer_id (failed_now (att i)) b);
        (made, b'') \<leftarrow> dial_loop att conn (insert peer_id attempted) (Suc i) rest b';
        Some (((peer_id, as), att i) # made, b'')
      })"

record 'p tick_input =
  prune_now :: instant
  prune_order :: "'p list"
  snapshot :: "boxed_error + 'p network_snapshot"
  stored :: "('p \<times> 'p multiaddr) list"
  shuffle_preferred :: "('p \<times> 'p multiaddr list) list \<Rightarrow> ('p \<times> 'p multiaddr list) list"
  shuffle_refill :: "('p \<times> 'p multiaddr) list \<Rightarrow> ('p \<times> 'p multiaddr) list"
  attempt_at :: "nat \<Rightarrow> attempt_env"

definition tick_candidates ::
    "('p \<times> 'p multiaddr) list \<Rightarrow> nat \<Rightarrow> 'p tick_input \<Rightarrow> 'p network_snapshot
      \<Rightarrow> ('p \<times> 'p multiaddr list) list" where
  "tick_candidates bootstrap low inp snap =
     bootstrap_candidates bootstrap (snapshot_connected snap) @
     preferred_candidates (shuffle_preferred inp) snap @
     map (\<lambda>(peer_id, addr). (peer_id, [addr]))
       (refill_candidates (shuffle_refill inp) low (snapshot_connected snap) (stored inp))"

text \<open>One pass of the loop: prune, snapshot, dial. Without a snapshot nothing is dialed.\<close>

definition maintenance_tick ::
    "('p \<times> 'p multiaddr) list \<Rightarrow> maintenance_settings \<Rightarrow> 'p tick_input \<Rightarrow> 'p dial_backoff
      \<Rightarrow> ('p attempt list \<times> 'p dial_backoff) option" where
  "maintenance_tick bootstrap cfg inp b =
     do {
       b1 \<leftarrow> prune (prune_order inp) (prune_now inp) b;
       (case snapshot inp of
          Inl _ \<Rightarrow> Some ([], b1)
        | Inr snap \<Rightarrow>
            dial_loop (attempt_at inp) (snapshot_connected snap) {} 0
              (tick_candidates bootstrap (low_water cfg) inp snap) b1)
     }"

text \<open>The task, over the ticks it lives through.\<close>

fun maintenance_ticks ::
    "('p \<times> 'p multiaddr) list \<Rightarrow> maintenance_settings \<Rightarrow> 'p tick_input list \<Rightarrow> 'p dial_backoff
      \<Rightarrow> ('p attempt list list \<times> 'p dial_backoff) option" where
  "maintenance_ticks bootstrap cfg [] b = Some ([], b)"
| "maintenance_ticks bootstrap cfg (inp # inps) b =
     do {
       (made, b') \<leftarrow> maintenance_tick bootstrap cfg inp b;
       (mades, b'') \<leftarrow> maintenance_ticks bootstrap cfg inps b';
       Some (made # mades, b'')
     }"

definition maintenance_run ::
    "'p multiaddr list \<Rightarrow> maintenance_settings \<Rightarrow> 'p tick_input list
      \<Rightarrow> ('p attempt list list \<times> 'p dial_backoff) option" where
  "maintenance_run bootstrap_multiaddrs cfg inps =
     maintenance_ticks (bootstrap_list bootstrap_multiaddrs) cfg inps
       (backoff_new (from_secs backoff_base_secs) (from_secs backoff_cap_secs))"

subsection \<open>What the dial loop does\<close>

text \<open>The attempts are some of the candidates, in their order.\<close>

lemma dial_loop_subseq:
  "dial_loop att conn attempted i cs b = Some (made, b') \<Longrightarrow> subseq (map fst made) cs"
  by (induction att conn attempted i cs b arbitrary: made b' rule: dial_loop.induct)
    (auto simp: bind_eq_Some_conv split: if_splits prod.splits)

text \<open>No peer is attempted twice, none that is connected or was attempted before.\<close>

lemma dial_loop_peers:
  "dial_loop att conn attempted i cs b = Some (made, b') \<Longrightarrow>
     distinct (map (fst \<circ> fst) made) \<and> (fst \<circ> fst) ` set made \<inter> (conn \<union> attempted) = {}"
proof (induction att conn attempted i cs b arbitrary: made b' rule: dial_loop.induct)
  case (2 att conn attempted i peer_id as rest b)
  show ?case
  proof (cases "peer_id \<in> conn \<or> peer_id \<in> attempted \<or> \<not> ready peer_id (ready_now (att i)) b")
    case True
    with 2 show ?thesis by (auto split: if_splits)
  next
    case False
    with "2.prems" obtain b1 made1 where
      b1: "(case result (att i) of DialOk \<Rightarrow> Some (record_success peer_id b)
        | _ \<Rightarrow> record_failure (jitter_random (att i)) peer_id (failed_now (att i)) b) = Some b1"
      and rest: "dial_loop att conn (insert peer_id attempted) (Suc i) rest b1 = Some (made1, b')"
      and made: "made = ((peer_id, as), att i) # made1"
      by (auto simp: bind_eq_Some_conv split: prod.splits)
    from "2.IH"(3) [OF _ _ b1 rest] False show ?thesis by (auto simp: made)
  qed
qed simp

text \<open>One case of the loop at a time: skipping a candidate, or attempting it.\<close>

lemma dial_loop_ConsE:
  assumes "dial_loop att conn attempted i ((p, as) # cs) b = Some (made, b')"
  obtains (skip) "p \<in> conn \<or> p \<in> attempted \<or> \<not> ready p (ready_now (att i)) b"
      "dial_loop att conn attempted (Suc i) cs b = Some (made, b')"
  | (attempt) b1 made1 where "p \<notin> conn" "p \<notin> attempted" "ready p (ready_now (att i)) b"
      "(case result (att i) of DialOk \<Rightarrow> Some (record_success p b)
        | _ \<Rightarrow> record_failure (jitter_random (att i)) p (failed_now (att i)) b) = Some b1"
      "dial_loop att conn (insert p attempted) (Suc i) cs b1 = Some (made1, b')"
      "made = ((p, as), att i) # made1"
  using assms by (auto simp: bind_eq_Some_conv split: if_splits prod.splits)

text \<open>The backoff sees exactly the outcomes of the attempts, in their order.\<close>

fun outcome_of :: "'p attempt \<Rightarrow> 'p outcome" where
  "outcome_of ((p, as), e) =
     (p, case result e of DialOk \<Rightarrow> None | _ \<Rightarrow> Some (failed_now e, jitter_random e))"

lemma fst_outcome_of: "fst (outcome_of m) = fst (fst m)"
  by (cases m rule: outcome_of.cases) simp

lemma apply_outcome_of:
  "apply_outcome record_failure record_success (outcome_of ((p, as), e)) b =
     (case result e of DialOk \<Rightarrow> Some (record_success p b)
        | _ \<Rightarrow> record_failure (jitter_random e) p (failed_now e) b)"
  by (simp add: apply_outcome_def split: dial_result.split)

lemma dial_loop_outcomes:
  "dial_loop att conn attempted i cs b = Some (made, b') \<Longrightarrow>
     apply_outcomes record_failure record_success (map outcome_of made) b = Some b'"
proof (induction cs arbitrary: attempted i b made)
  case (Cons c cs)
  obtain p as where c: "c = (p, as)" by fastforce
  from Cons.prems[unfolded c] show ?case
  proof (cases rule: dial_loop_ConsE)
    case skip
    from Cons.IH [OF skip(2)] show ?thesis .
  next
    case (attempt b1 made1)
    with Cons.IH [OF attempt(5)] show ?thesis
      by (simp only: list.map apply_outcomes.simps apply_outcome_of) simp
  qed
qed simp

text \<open>
  Every attempt is to a peer whose backoff allowed it at the instant the loop looked, judged by
  the backoff state the loop started with: the outcomes of the other attempts do not matter.
\<close>

lemma dial_loop_ready:
  "dial_loop att conn attempted i cs b = Some (made, b') \<Longrightarrow> ((p, as), e) \<in> set made \<Longrightarrow>
     ready p (ready_now e) b"
proof (induction cs arbitrary: attempted i b made)
  case (Cons c cs)
  obtain q bs where c: "c = (q, bs)" by fastforce
  from Cons.prems(1)[unfolded c] show ?case
  proof (cases rule: dial_loop_ConsE)
    case skip
    from Cons.IH [OF skip(2) Cons.prems(2)] show ?thesis .
  next
    case (attempt b1 made1)
    show ?thesis
    proof (cases "((p, as), e) = ((q, bs), att i)")
      case True
      with attempt(3) show ?thesis by simp
    next
      case False
      with Cons.prems(2) attempt(6) have m: "((p, as), e) \<in> set made1" by auto
      from dial_loop_peers [OF attempt(5)] m have "p \<noteq> q" by fastforce
      moreover from Cons.IH [OF attempt(5) m] have "ready p (ready_now e) b1" .
      ultimately show ?thesis
        using attempt(4) backoff_gate.apply_outcome_other [of "outcome_of ((q, bs), att i)" b b1 p]
        by (simp only: apply_outcome_of fst_outcome_of) simp
    qed
  qed
qed simp

text \<open>The readings of an attempt are those of some candidate.\<close>

lemma dial_loop_env:
  "dial_loop att conn attempted i cs b = Some (made, b') \<Longrightarrow> m \<in> set made \<Longrightarrow> \<exists>j. snd m = att j"
proof (induction cs arbitrary: attempted i b made)
  case (Cons c cs)
  obtain q bs where c: "c = (q, bs)" by fastforce
  from Cons.prems(1)[unfolded c] show ?case
  proof (cases rule: dial_loop_ConsE)
    case skip
    from Cons.IH [OF skip(2) Cons.prems(2)] show ?thesis .
  next
    case (attempt b1 made1)
    with Cons.IH [OF attempt(5)] Cons.prems(2) show ?thesis by auto
  qed
qed simp

text \<open>
  The entry a failed attempt leaves: the one \<open>record_failure\<close> wrote, since no other attempt of
  the loop is to the same peer.
\<close>

lemma apply_outcome_entry_other:
  assumes "apply_outcome record_failure record_success oc b = Some b1" "p \<noteq> fst oc"
  shows "backoff_state b1 p = backoff_state b p"
  using assms
  by (auto simp: apply_outcome_def record_success_def dest!: record_failure_SomeD split: option.splits)

lemma apply_outcome_params:
  assumes "apply_outcome record_failure record_success oc b = Some b1"
  shows "backoff_base b1 = backoff_base b \<and> backoff_cap b1 = backoff_cap b"
  using assms
  by (auto simp: apply_outcome_def record_success_def dest!: record_failure_SomeD split: option.splits)

lemma dial_loop_entry_other:
  "dial_loop att conn attempted i cs b = Some (made, b') \<Longrightarrow> p \<notin> (fst \<circ> fst) ` set made \<Longrightarrow>
     backoff_state b' p = backoff_state b p"
proof (induction cs arbitrary: attempted i b made)
  case (Cons c cs)
  obtain q bs where c: "c = (q, bs)" by fastforce
  from Cons.prems(1)[unfolded c] show ?case
  proof (cases rule: dial_loop_ConsE)
    case skip
    from Cons.IH [OF skip(2) Cons.prems(2)] show ?thesis .
  next
    case (attempt b1 made1)
    from attempt(4) have "apply_outcome record_failure record_success (outcome_of ((q, bs), att i)) b = Some b1"
      by (simp only: apply_outcome_of)
    moreover have "p \<noteq> q" "p \<notin> (fst \<circ> fst) ` set made1" using Cons.prems(2) attempt(6) by auto
    ultimately show ?thesis
      using Cons.IH [OF attempt(5)] apply_outcome_entry_other [of "outcome_of ((q, bs), att i)" b b1 p]
      by (simp only: fst_outcome_of) simp
  qed
qed simp

lemma dial_loop_failed_entry:
  "dial_loop att conn attempted i cs b = Some (made, b') \<Longrightarrow> ((p, as), e) \<in> set made \<Longrightarrow>
   result e \<noteq> DialOk \<Longrightarrow>
   \<exists>b0 b1. backoff_base b0 = backoff_base b \<and> backoff_cap b0 = backoff_cap b \<and>
     record_failure (jitter_random e) p (failed_now e) b0 = Some b1 \<and>
     backoff_state b' p = backoff_state b1 p"
proof (induction cs arbitrary: attempted i b made)
  case (Cons c cs)
  obtain q bs where c: "c = (q, bs)" by fastforce
  from Cons.prems(1)[unfolded c] show ?case
  proof (cases rule: dial_loop_ConsE)
    case skip
    from Cons.IH [OF skip(2) Cons.prems(2,3)] show ?thesis .
  next
    case (attempt b1 made1)
    from attempt(4) have oc: "apply_outcome record_failure record_success (outcome_of ((q, bs), att i)) b = Some b1"
      by (simp only: apply_outcome_of)
    show ?thesis
    proof (cases "((p, as), e) = ((q, bs), att i)")
      case True
      with attempt(4) Cons.prems(3)
      have "record_failure (jitter_random e) p (failed_now e) b = Some b1"
        by (auto split: dial_result.splits)
      moreover have "p \<notin> (fst \<circ> fst) ` set made1"
        using dial_loop_peers [OF attempt(5)] True by auto
      with dial_loop_entry_other [OF attempt(5)] have "backoff_state b' p = backoff_state b1 p" .
      ultimately show ?thesis by blast
    next
      case False
      with Cons.prems(2) attempt(6) have "((p, as), e) \<in> set made1" by auto
      from Cons.IH [OF attempt(5) this Cons.prems(3)] apply_outcome_params [OF oc]
      show ?thesis by simp
    qed
  qed
qed simp

lemma dial_loop_params:
  "dial_loop att conn attempted i cs b = Some (made, b') \<Longrightarrow>
     backoff_base b' = backoff_base b \<and> backoff_cap b' = backoff_cap b"
proof (induction cs arbitrary: attempted i b made)
  case (Cons c cs)
  obtain q bs where c: "c = (q, bs)" by fastforce
  from Cons.prems(1)[unfolded c] show ?case
  proof (cases rule: dial_loop_ConsE)
    case skip
    from Cons.IH [OF skip(2)] show ?thesis .
  next
    case (attempt b1 made1)
    from attempt(4) have "apply_outcome record_failure record_success (outcome_of ((q, bs), att i)) b = Some b1"
      by (simp only: apply_outcome_of)
    from Cons.IH [OF attempt(5)] apply_outcome_params [OF this] show ?thesis by simp
  qed
qed simp

text \<open>A candidate that is not connected and whose backoff allows it throughout is attempted.\<close>

lemma dial_loop_attempts:
  "dial_loop att conn attempted i cs b = Some (made, b') \<Longrightarrow> (p, as) \<in> set cs \<Longrightarrow>
     p \<notin> conn \<Longrightarrow> p \<notin> attempted \<Longrightarrow> (\<And>j. ready p (ready_now (att j)) b) \<Longrightarrow>
     p \<in> (fst \<circ> fst) ` set made"
proof (induction cs arbitrary: attempted i b made)
  case (Cons c cs)
  obtain q bs where c: "c = (q, bs)" by fastforce
  from Cons.prems(1)[unfolded c] show ?case
  proof (cases rule: dial_loop_ConsE)
    case skip
    with Cons.prems c have "(p, as) \<in> set cs" by auto
    from Cons.IH [OF skip(2) this] Cons.prems show ?thesis by blast
  next
    case (attempt b1 made1)
    show ?thesis
    proof (cases "p = q")
      case False
      with Cons.prems c have cs: "(p, as) \<in> set cs" by auto
      have "ready p (ready_now (att j)) b1" for j
        using attempt(4) False Cons.prems(5) [of j]
          backoff_gate.apply_outcome_other [of "outcome_of ((q, bs), att i)" b b1 p]
        by (simp only: apply_outcome_of fst_outcome_of) simp
      from Cons.IH [OF attempt(5) cs] this False Cons.prems(3,4)
      have "p \<in> (fst \<circ> fst) ` set made1" by blast
      with attempt(6) show ?thesis by auto
    qed (use attempt(6) in auto)
  qed
qed simp

text \<open>The candidates of a first part are all handled before those of a second part.\<close>

lemma dial_loop_append:
  "dial_loop att conn attempted i (cs @ ds) b = Some (made, b') \<Longrightarrow>
   \<exists>made1 made2 b1. made = made1 @ made2 \<and>
     dial_loop att conn attempted i cs b = Some (made1, b1) \<and>
     dial_loop att conn (attempted \<union> (fst \<circ> fst) ` set made1) (i + length cs) ds b1 = Some (made2, b')"
proof (induction cs arbitrary: attempted i b made)
  case (Cons c cs)
  obtain q bs where c: "c = (q, bs)" by fastforce
  from Cons.prems[unfolded c append_Cons] show ?case
  proof (cases rule: dial_loop_ConsE)
    case skip
    from Cons.IH [OF skip(2)] skip(1) show ?thesis by (auto simp: c)
  next
    case (attempt b1 made1)
    from Cons.IH [OF attempt(5)] obtain m1 m2 b2 where
      "made1 = m1 @ m2" "dial_loop att conn (insert q attempted) (Suc i) cs b1 = Some (m1, b2)"
      "dial_loop att conn (insert q attempted \<union> (fst \<circ> fst) ` set m1) (Suc i + length cs) ds b2 =
        Some (m2, b')" by blast
    with attempt show ?thesis
      by (intro exI [of _ "((q, bs), att i) # m1"] exI [of _ m2] exI [of _ b2])
        (auto simp: c Un_commute)
  qed
qed simp

subsection \<open>Where the candidates come from\<close>

lemma bootstrap_candidates_set:
  "(p, as) \<in> set (bootstrap_candidates boot conn) \<longleftrightarrow>
     (\<forall>q \<in> fst ` set boot. q \<notin> conn) \<and> (\<exists>a. as = [a] \<and> (p, a) \<in> set boot)"
  by (force simp: bootstrap_candidates_def list_ex_iff)

lemma length_bootstrap_candidates: "length (bootstrap_candidates boot conn) \<le> length boot"
  by (simp add: bootstrap_candidates_def)

text \<open>A shuffle permutes its argument.\<close>

definition is_shuffle :: "('a list \<Rightarrow> 'a list) \<Rightarrow> bool" where
  "is_shuffle f \<longleftrightarrow> (\<forall>xs. mset (f xs) = mset xs)"

lemma is_shuffle_set: "is_shuffle f \<Longrightarrow> set (f xs) = set xs"
  unfolding is_shuffle_def by (metis mset_eq_setD)

lemma preferred_candidates_dialable:
  assumes "is_shuffle f" "(p, as) \<in> set (preferred_candidates f snap)"
  shows "p \<notin> snapshot_connected snap \<and> as \<noteq> [] \<and> (\<forall>a \<in> set as. \<not> is_undialable a) \<and>
    (\<exists>hints. (p, hints) \<in> set (snapshot_preferred snap) \<and> set as \<subseteq> set hints)"
proof -
  from assms(2) have "(p, as) \<in> set (f (List.map_filter (\<lambda>(peer_id, hints).
      if peer_id \<in> snapshot_connected snap then None
      else let dialable = filter (\<lambda>addr. \<not> is_undialable addr) hints
           in if dialable \<noteq> [] then Some (peer_id, dialable) else None) (snapshot_preferred snap)))"
    unfolding preferred_candidates_def by (rule in_set_takeD)
  then show ?thesis
    unfolding is_shuffle_set [OF assms(1)] set_map_filter
    by (clarsimp simp: Let_def split: if_splits) blast
qed

lemma refill_candidates_dialable:
  assumes "is_shuffle f" "(p, a) \<in> set (refill_candidates f low conn st)"
  shows "p \<notin> conn \<and> \<not> is_undialable a \<and> (p, a) \<in> set st \<and> card conn < low"
proof -
  from assms(2) have "(p, a) \<in> set (if card conn < low
      then f (filter (\<lambda>(peer_id, addr). peer_id \<notin> conn \<and> \<not> is_undialable addr) st) else [])"
    unfolding refill_candidates_def Let_def by (rule in_set_takeD)
  then show ?thesis
    by (auto simp: is_shuffle_set [OF assms(1)] split: if_splits)
qed

lemma length_refill_candidates:
  "length (refill_candidates f low conn st) \<le> (if card conn < low then low - card conn + 2 else 0)"
  by (simp add: refill_candidates_def Let_def)

lemma length_tick_candidates:
  "length (tick_candidates boot low inp snap) \<le> length (bootstrap_candidates boot (snapshot_connected snap)) +
     max_preferred_dials_per_tick +
     (if card (snapshot_connected snap) < low then low - card (snapshot_connected snap) + 2 else 0)"
proof -
  let ?conn = "snapshot_connected snap"
  have "length (preferred_candidates (shuffle_preferred inp) snap) \<le> max_preferred_dials_per_tick"
    by (simp add: preferred_candidates_def)
  with length_refill_candidates [of "shuffle_refill inp" low ?conn "stored inp"]
  show ?thesis by (simp add: tick_candidates_def)
qed

subsection \<open>The task never panics\<close>

text \<open>
  With the task's own base and cap, no operation of the backoff overflows while the clock is at
  most \<open>T\<close> and fifteen minutes of it are left.
\<close>

definition backoff_sane :: "instant \<Rightarrow> 'p dial_backoff \<Rightarrow> bool" where
  "backoff_sane T b \<longleftrightarrow>
     backoff_base b = from_secs backoff_base_secs \<and> backoff_cap b = from_secs backoff_cap_secs \<and>
     (\<forall>p st. backoff_state b p = Some st \<longrightarrow> next_attempt st \<le> T + 2 * from_secs backoff_cap_secs)"

definition attempt_ok :: "instant \<Rightarrow> attempt_env \<Rightarrow> bool" where
  "attempt_ok T e \<longleftrightarrow> failed_now e \<le> T \<and> random_unit (jitter_random e)"

lemma backoff_sane_new:
  "backoff_sane T (backoff_new (from_secs backoff_base_secs) (from_secs backoff_cap_secs))"
  by (simp add: backoff_sane_def backoff_new_def)

lemma backoff_sane_success: "backoff_sane T b \<Longrightarrow> backoff_sane T (record_success p b)"
  by (simp add: backoff_sane_def record_success_def)

lemma backoff_sane_failure:
  assumes sane: "backoff_sane T b" and T: "T + 3 * from_secs backoff_cap_secs \<le> instant_max"
    and t: "t \<le> T" and r: "random_unit r"
  shows "\<exists>b'. record_failure r p t b = Some b' \<and> backoff_sane T b'"
proof -
  have "t + 2 * from_secs backoff_cap_secs \<le> instant_max" using T t by simp
  from record_failure_delay [of b backoff_base_secs backoff_cap_secs r t p, OF _ _ _ r this] sane
  obtain d where d: "record_failure r p t b = Some (b\<lparr>backoff_state := (backoff_state b)
      (p \<mapsto> \<lparr>failures = failures_of b p + 1, next_attempt = t + d\<rparr>)\<rparr>)"
    and hi: "2 * d \<le> 3 * capped_secs backoff_base_secs backoff_cap_secs
        (unat (failures_of b p + 1)) * nanos_per_sec"
    by (auto simp: backoff_sane_def backoff_cap_secs_def)
  have "capped_secs backoff_base_secs backoff_cap_secs n \<le> backoff_cap_secs" for n
    by (simp add: capped_secs_def)
  then have "3 * capped_secs backoff_base_secs backoff_cap_secs (unat (failures_of b p + 1)) * nanos_per_sec
      \<le> 3 * backoff_cap_secs * nanos_per_sec"
    by (intro mult_right_mono mult_left_mono) simp_all
  with hi have "2 * d \<le> 3 * backoff_cap_secs * nanos_per_sec" by (rule le_trans)
  then have "d \<le> 2 * from_secs backoff_cap_secs"
    by (simp add: from_secs_def backoff_cap_secs_def nanos_per_sec_def)
  with sane t d show ?thesis by (auto simp: backoff_sane_def)
qed

lemma dial_loop_total:
  assumes "backoff_sane T b" "T + 3 * from_secs backoff_cap_secs \<le> instant_max"
    and "\<And>j. attempt_ok T (att j)"
  shows "\<exists>made b'. dial_loop att conn attempted i cs b = Some (made, b') \<and> backoff_sane T b'"
  using assms(1)
proof (induction cs arbitrary: attempted i b)
  case (Cons c cs)
  obtain p as where c: "c = (p, as)" by fastforce
  show ?case
  proof (cases "p \<in> conn \<or> p \<in> attempted \<or> \<not> ready p (ready_now (att i)) b")
    case True
    with Cons.IH [OF Cons.prems, of attempted "Suc i"] show ?thesis by (auto simp: c)
  next
    case False
    have "\<exists>b1. (case result (att i) of DialOk \<Rightarrow> Some (record_success p b)
        | _ \<Rightarrow> record_failure (jitter_random (att i)) p (failed_now (att i)) b) = Some b1 \<and>
        backoff_sane T b1"
      using backoff_sane_failure [OF Cons.prems assms(2), of "failed_now (att i)" "jitter_random (att i)" p]
        backoff_sane_success [OF Cons.prems, of p] assms(3) [of i]
      by (simp add: attempt_ok_def split: dial_result.split)
    then obtain b1 where b1: "(case result (att i) of DialOk \<Rightarrow> Some (record_success p b)
        | _ \<Rightarrow> record_failure (jitter_random (att i)) p (failed_now (att i)) b) = Some b1"
      and sane1: "backoff_sane T b1" by blast
    from Cons.IH [OF sane1, of "insert p attempted" "Suc i"] b1 False show ?thesis
      by (auto simp: c)
  qed
qed simp

lemma prune_sane:
  assumes "backoff_sane T b" "T + 3 * from_secs backoff_cap_secs \<le> instant_max"
  shows "\<exists>b'. prune ord now b = Some b' \<and> backoff_sane T b'"
proof -
  have "next_attempt st + backoff_cap b \<le> instant_max" if "backoff_state b p = Some st" for p st
    using assms that by (fastforce simp: backoff_sane_def)
  then have "\<exists>b'. prune ord now b = Some b'" by (intro prune_total)
  then obtain b' where b': "prune ord now b = Some b'" by blast
  with assms(1) have "backoff_sane T b'"
    by (auto simp: prune_def backoff_sane_def Let_def split: if_splits option.splits)
  with b' show ?thesis by blast
qed

lemma maintenance_tick_total:
  assumes "backoff_sane T b" "T + 3 * from_secs backoff_cap_secs \<le> instant_max"
    and "\<And>j. attempt_ok T (attempt_at inp j)"
  shows "\<exists>made b'. maintenance_tick boot cfg inp b = Some (made, b') \<and> backoff_sane T b'"
proof -
  from prune_sane [OF assms(1,2)] obtain b1 where
    b1: "prune (prune_order inp) (prune_now inp) b = Some b1" "backoff_sane T b1" by blast
  show ?thesis
    using b1 dial_loop_total [OF b1(2) assms(2,3)]
    by (cases "snapshot inp") (auto simp: maintenance_tick_def)
qed

lemma maintenance_ticks_total:
  assumes "T + 3 * from_secs backoff_cap_secs \<le> instant_max"
    and "\<And>inp j. inp \<in> set inps \<Longrightarrow> attempt_ok T (attempt_at inp j)" and "backoff_sane T b"
  shows "\<exists>mades b'. maintenance_ticks boot cfg inps b = Some (mades, b')"
  using assms(2,3)
proof (induction inps arbitrary: b)
  case (Cons inp inps)
  from maintenance_tick_total [OF Cons.prems(2) assms(1), of inp boot cfg] Cons.prems(1)
  obtain made b1 where m: "maintenance_tick boot cfg inp b = Some (made, b1)" "backoff_sane T b1"
    by auto
  from Cons.IH [OF _ m(2)] Cons.prems(1) m(1) show ?case by fastforce
qed simp

end
