(* ===== verification/Dialing_Properties.thy ===== *)
theory Dialing_Properties
  imports Reference_Environment Maintenance
begin

section \<open>Properties of the backoff and of the mesh maintenance\<close>

text \<open>
  The properties of \<open>src/p2p/backoff.rs\<close> and \<open>src/p2p/maintenance.rs\<close>, with their witnesses.
\<close>

subsection \<open>Concrete inputs\<close>

text \<open>A first failure with the smallest random number delays by exactly half a second.\<close>

lemma first_delay: "mul_f64 (from_secs 1) (fl_add 53 (1, -1) (0, 0)) = Some 500000000"
proof -
  define j where "j = fl_add 53 (1, -1) (0, 0)"
  define x where "x = fl_mult 53 j (as_secs_f64 (from_secs 1))"
  have half: "dval (1, -1) = 1 / 2" by (simp add: dval_def pow2_def)
  have j: "dval j = 1 / 2"
    unfolding j_def fl_add_def half [symmetric] by (rule dval_fl_round_fits) simp_all
  have "dval x = 1 / 2"
    unfolding x_def fl_mult_def half [symmetric]
    by (rule dval_fl_round_fits) (simp_all add: j half half [simplified] dval_as_secs_f64_whole)
  then have "dval x * real nanos_per_sec = real 500000000" by (simp add: nanos_per_sec_def)
  then have "int (nanos_of_f64 x) = rne (real 500000000)" by (simp only: nanos_of_f64_rne)
  then have "nanos_of_f64 x = 500000000" by (simp only: rne_of_nat of_nat_eq_iff)
  then show ?thesis
    unfolding mul_f64_def j_def [symmetric] x_def [symmetric] from_secs_f64_def
    by (simp add: duration_max_def nanos_per_sec_def)
qed

definition sample_backoff :: "nat dial_backoff" where
  "sample_backoff = backoff_new (from_secs 1) (from_secs 300)"

lemma sample_failure:
  "t \<le> 10 ^ 12 \<Longrightarrow> record_failure (0, 0) p t sample_backoff = Some (sample_backoff
     \<lparr>backoff_state := [p \<mapsto> \<lparr>failures = 1, next_attempt = t + 500000000\<rparr>]\<rparr>)"
proof -
  assume t: "t \<le> 10 ^ 12"
  have "saturating_mul (from_secs 1) (saturating_pow 2 0) = from_secs 1"
    "min (from_secs 1) (from_secs 300) = from_secs 1"
    by (simp_all add: saturating_mul_def saturating_pow_def from_secs_def duration_max_def
        nanos_per_sec_def)
  with t first_delay show ?thesis
    by (simp add: record_failure_def sample_backoff_def backoff_new_def instant_add_def
        instant_max_def nanos_per_sec_def)
qed

text \<open>
  A tick of an isolated node with one bootstrap peer, one preferred peer with a loopback hint
  and a routable one, and one stored peer. Every dial ends with \<open>res\<close>.
\<close>

definition sample_addr :: "u8 \<Rightarrow> nat multiaddr" where
  "sample_addr d = [Ip4 (Ipv4 10 0 0 d), Tcp 4025]"

definition sample_snapshot :: "nat network_snapshot" where
  "sample_snapshot = \<lparr>snapshot_connected = {}, snapshot_preferred =
     [(5, [[Ip4 (Ipv4 127 0 0 1), Tcp 4025], sample_addr 5])]\<rparr>"

definition sample_tick :: "instant \<Rightarrow> dial_result \<Rightarrow> nat tick_input" where
  "sample_tick t res = \<lparr>prune_now = t, prune_order = [5, 2], snapshot = Inr sample_snapshot,
     stored = [(6, sample_addr 6)], shuffle_preferred = id, shuffle_refill = id,
     attempt_at = (\<lambda>i. \<lparr>ready_now = t, result = res, failed_now = t, jitter_random = (0, 0)\<rparr>)\<rparr>"

definition sample_maintenance :: maintenance_settings where
  "sample_maintenance = \<lparr>interval = from_secs 30, low_water = 80\<rparr>"

lemma sample_tick_simps [simp]:
  "prune_now (sample_tick t res) = t" "prune_order (sample_tick t res) = [5, 2]"
  "snapshot (sample_tick t res) = Inr sample_snapshot" "stored (sample_tick t res) = [(6, sample_addr 6)]"
  "shuffle_preferred (sample_tick t res) = id" "shuffle_refill (sample_tick t res) = id"
  "attempt_at (sample_tick t res) i =
     \<lparr>ready_now = t, result = res, failed_now = t, jitter_random = (0, 0)\<rparr>"
  by (simp_all add: sample_tick_def)

lemma sample_candidates:
  "tick_candidates [(2, sample_addr 2)] 80 (sample_tick t res) sample_snapshot =
     [(2, [sample_addr 2]), (5, [sample_addr 5]), (6, [sample_addr 6])]"
  by (simp add: tick_candidates_def bootstrap_candidates_def preferred_candidates_def
      refill_candidates_def sample_snapshot_def is_undialable_def sample_addr_def
      max_preferred_dials_per_tick_def map_filter_simps)

text \<open>A tick with nothing but the bootstrap peer.\<close>

definition lonely_tick :: "instant \<Rightarrow> dial_result \<Rightarrow> nat tick_input" where
  "lonely_tick t res = (sample_tick t res)
     \<lparr>snapshot := Inr \<lparr>snapshot_connected = {}, snapshot_preferred = []\<rparr>, stored := []\<rparr>"

lemma lonely_candidates:
  "tick_candidates [(2, sample_addr 2)] low (lonely_tick t res)
     \<lparr>snapshot_connected = {}, snapshot_preferred = []\<rparr> = [(2, [sample_addr 2])]"
  by (simp add: tick_candidates_def bootstrap_candidates_def preferred_candidates_def
      refill_candidates_def lonely_tick_def map_filter_simps)

abbreviation sample_attempt :: "nat \<Rightarrow> instant \<Rightarrow> dial_result \<Rightarrow> nat attempt" where
  "sample_attempt p t res \<equiv> ((p, [sample_addr (of_nat p)]),
     \<lparr>ready_now = t, result = res, failed_now = t, jitter_random = (0, 0)\<rparr>)"

lemma sample_tick_ok:
  "maintenance_tick [(2, sample_addr 2)] sample_maintenance (sample_tick t DialOk) sample_backoff =
     Some ([sample_attempt 2 t DialOk, sample_attempt 5 t DialOk, sample_attempt 6 t DialOk],
       sample_backoff)"
proof -
  have "prune [5, 2] t sample_backoff = Some sample_backoff"
    by (simp add: prune_def sample_backoff_def backoff_new_def entries_def map_filter_simps)
  moreover have "record_success p sample_backoff = sample_backoff" "ready p t sample_backoff" for p
    by (simp_all add: record_success_def ready_def sample_backoff_def backoff_new_def fun_upd_idem)
  moreover have "snapshot_connected sample_snapshot = {}" "low_water sample_maintenance = 80"
    by (simp_all add: sample_snapshot_def sample_maintenance_def)
  ultimately show ?thesis
    by (simp add: maintenance_tick_def sample_candidates)
qed

definition failed_backoff :: "instant \<Rightarrow> nat dial_backoff" where
  "failed_backoff t = sample_backoff
     \<lparr>backoff_state := [2 \<mapsto> \<lparr>failures = 1, next_attempt = t + 500000000\<rparr>]\<rparr>"

lemma lonely_tick_failed:
  assumes "t \<le> 10 ^ 12"
  shows "maintenance_tick [(2, sample_addr 2)] sample_maintenance (lonely_tick t DialTimedOut)
      sample_backoff = Some ([sample_attempt 2 t DialTimedOut], failed_backoff t)"
proof -
  have "prune [5, 2] t sample_backoff = Some sample_backoff" "ready p t sample_backoff" for p
    by (simp_all add: prune_def sample_backoff_def backoff_new_def entries_def map_filter_simps ready_def)
  with sample_failure [OF assms, of 2] show ?thesis
    by (simp add: maintenance_tick_def lonely_candidates failed_backoff_def)
      (simp add: lonely_tick_def lonely_candidates [unfolded lonely_tick_def])
qed

lemma lonely_tick_again:
  "maintenance_tick [(2, sample_addr 2)] sample_maintenance (lonely_tick 2000000000 DialOk)
      (failed_backoff 1000) = Some ([sample_attempt 2 2000000000 DialOk], sample_backoff)"
proof -
  have "prune [5, 2] 2000000000 (failed_backoff 1000) = Some (failed_backoff 1000)"
    by (simp add: prune_def failed_backoff_def sample_backoff_def backoff_new_def entries_def
        map_filter_simps instant_add_def expired_def from_secs_def instant_max_def nanos_per_sec_def
        fun_eq_iff)
  moreover have "ready 2 2000000000 (failed_backoff 1000)"
    by (simp add: ready_def failed_backoff_def)
  moreover have "record_success 2 (failed_backoff 1000) = sample_backoff"
    by (simp add: record_success_def failed_backoff_def sample_backoff_def backoff_new_def fun_eq_iff)
  ultimately show ?thesis
    by (simp add: maintenance_tick_def lonely_tick_def lonely_candidates [unfolded lonely_tick_def])
qed

subsection \<open>Backoff\<close>

lemma capped_secs_task: "capped_secs 1 300 (Suc k) = min (2 ^ k) 300"
proof -
  have "min (min (2 ^ k) (2 ^ 32 - 1)) 300 = min (2 ^ k) (300 :: nat)" by simp
  then show ?thesis by (simp add: capped_secs_def saturating_pow_def)
qed

lemma failures_of_failures:
  assumes "apply_outcomes record_failure record_success (map (\<lambda>tr. (p, Some tr)) trs) b = Some b'"
  shows "failures_of b' p = failures_of b p + of_nat (length trs) \<and>
    backoff_base b' = backoff_base b \<and> backoff_cap b' = backoff_cap b"
  using assms
proof (induction trs arbitrary: b)
  case (Cons tr trs)
  obtain t r where tr: "tr = (t, r)" by (cases tr)
  from Cons.prems obtain b1 where b1: "record_failure r p t b = Some b1"
    and rest: "apply_outcomes record_failure record_success (map (\<lambda>tr. (p, Some tr)) trs) b1 = Some b'"
    by (auto simp: apply_outcome_def tr bind_eq_Some_conv)
  from b1 have "failures_of b1 p = failures_of b p + 1 \<and> backoff_base b1 = backoff_base b \<and>
      backoff_cap b1 = backoff_cap b"
    by (auto simp: record_failure_def failures_of_def Let_def split: bind_splits option.splits)
  with Cons.IH [OF rest] show ?case by (simp add: ac_simps)
qed simp

text \<open>C18. The delay after the (k+1)-th consecutive failure: with the task's base of one second
  and cap of five minutes it is at least half and at most three halves of \<open>min (2^k) 300\<close>
  seconds, whatever the random number, and recording the failure does not panic.\<close>

theorem nth_failure_delay:
  assumes failed: "apply_outcomes record_failure record_success (map (\<lambda>tr. (p, Some tr)) trs)
      (backoff_new (from_secs 1) (from_secs 300)) = Some b"
    and k: "length trs < 2 ^ 32 - 1"
    and r: "random_unit r" and t: "t + 2 * from_secs 300 \<le> instant_max"
  shows "\<exists>b' st. record_failure r p t b = Some b' \<and> backoff_state b' p = Some st \<and>
    2 * t + from_secs (min (2 ^ length trs) 300) \<le> 2 * next_attempt st \<and>
    2 * next_attempt st \<le> 2 * t + 3 * from_secs (min (2 ^ length trs) 300)"
proof -
  have b: "failures_of b p = of_nat (length trs)" "backoff_base b = from_secs 1"
      "backoff_cap b = from_secs 300"
    using failures_of_failures [OF failed] by (simp_all add: backoff_new_def failures_of_def)
  have n: "unat (failures_of b p + 1) = Suc (length trs)"
    using k unfolding b(1) by (simp add: unat_word_ariths unat_of_nat)
  from record_failure_delay [OF b(2,3) _ r t, of p] show ?thesis
    unfolding n capped_secs_task by (auto simp: from_secs_def)
qed

theorem nth_failure_delay_witness:
  "\<exists>b' st. record_failure (0, 0) (5 :: nat) 0 (backoff_new (from_secs 1) (from_secs 300)) = Some b' \<and>
    backoff_state b' 5 = Some st \<and> from_secs 1 \<le> 2 * next_attempt st"
proof -
  have "apply_outcomes record_failure record_success (map (\<lambda>tr. (5 :: nat, Some tr)) [])
      (backoff_new (from_secs 1) (from_secs 300)) = Some (backoff_new (from_secs 1) (from_secs 300))"
    "random_unit (0, 0)" "0 + 2 * from_secs 300 \<le> instant_max"
    by (simp_all add: random_unit_def dval_def from_secs_def nanos_per_sec_def instant_max_def)
  from nth_failure_delay [OF this(1) _ this(2,3)] show ?thesis by auto
qed

text \<open>C28. Pruning is invisible to readiness: it changes the readiness of no peer at no later
  instant, and it keeps exactly the entries whose instant plus the cap is still ahead.\<close>

theorem prune_transparent:
  assumes "prune ord now b = Some b'" "now \<le> t"
  shows "ready p t b' = ready p t b \<and>
    dom (backoff_state b') =
      {q. \<exists>st. backoff_state b q = Some st \<and> now < next_attempt st + backoff_cap b}"
  using assms by (simp add: ready_prune prune_dom)

theorem prune_transparent_witness:
  "ready 2 600000000000 (failed_backoff 1000) \<and>
    dom (backoff_state (failed_backoff 1000)) = {2}"
proof -
  have "prune [2] 5 (failed_backoff 1000) = Some (failed_backoff 1000)"
    by (simp add: prune_def failed_backoff_def sample_backoff_def backoff_new_def entries_def
        map_filter_simps instant_add_def expired_def from_secs_def instant_max_def nanos_per_sec_def
        fun_eq_iff)
  from prune_transparent [OF this, of 600000000000 2] show ?thesis
    by (auto simp: ready_def failed_backoff_def)
qed

subsection \<open>What a tick attempts\<close>

lemma tick_loop:
  assumes "maintenance_tick boot cfg inp b = Some (made, b')" "snapshot inp = Inr snap"
  obtains b1 where "prune (prune_order inp) (prune_now inp) b = Some b1"
    "dial_loop (attempt_at inp) (snapshot_connected snap) {} 0
       (tick_candidates boot (low_water cfg) inp snap) b1 = Some (made, b')"
  using assms by (auto simp: maintenance_tick_def bind_eq_Some_conv)

lemma tick_attempts_ready:
  assumes tick: "maintenance_tick boot cfg inp b = Some (made, b')" "snapshot inp = Inr snap"
    and clock: "\<forall>i. prune_now inp \<le> ready_now (attempt_at inp i)" and m: "((p, as), e) \<in> set made"
  shows "ready p (ready_now e) b"
proof -
  from tick_loop [OF tick] obtain b1 where b1: "prune (prune_order inp) (prune_now inp) b = Some b1"
    and loop: "dial_loop (attempt_at inp) (snapshot_connected snap) {} 0
      (tick_candidates boot (low_water cfg) inp snap) b1 = Some (made, b')" .
  from dial_loop_env [OF loop m] clock have "prune_now inp \<le> ready_now e" by auto
  with dial_loop_ready [OF loop m] ready_prune [OF b1] show ?thesis by simp
qed

text \<open>C13. The attempts of a tick are some of its candidates in their order; no peer is attempted
  twice, none that is connected, and each only when its backoff had expired.\<close>

theorem tick_attempts_sound:
  assumes tick: "maintenance_tick boot cfg inp b = Some (made, b')"
    and snap: "snapshot inp = Inr snap" and clock: "\<forall>i. prune_now inp \<le> ready_now (attempt_at inp i)"
  shows "subseq (map fst made) (tick_candidates boot (low_water cfg) inp snap) \<and>
    distinct (map (fst \<circ> fst) made) \<and>
    (\<forall>m \<in> set made. fst (fst m) \<notin> snapshot_connected snap \<and> ready (fst (fst m)) (ready_now (snd m)) b)"
proof -
  from tick_loop [OF tick snap] obtain b1 where
    loop: "dial_loop (attempt_at inp) (snapshot_connected snap) {} 0
      (tick_candidates boot (low_water cfg) inp snap) b1 = Some (made, b')" .
  have "ready (fst (fst m)) (ready_now (snd m)) b" if "m \<in> set made" for m
    using tick_attempts_ready [OF tick snap clock, of "fst (fst m)" "snd (fst m)" "snd m"] that by simp
  with dial_loop_subseq [OF loop] dial_loop_peers [OF loop] show ?thesis by auto
qed

theorem tick_attempts_sound_witness:
  "distinct (map (fst \<circ> fst)
     [sample_attempt 2 7 DialOk, sample_attempt 5 7 DialOk, sample_attempt 6 7 DialOk])"
  using tick_attempts_sound [OF sample_tick_ok [of 7]] by simp

lemma subseq_subset: "subseq xs ys \<Longrightarrow> set xs \<subseteq> set ys"
  by (auto elim: list_emb_set)

lemma tick_made_candidates:
  assumes "maintenance_tick boot cfg inp b = Some (made, b')" "snapshot inp = Inr snap"
  shows "fst ` set made \<subseteq> set (tick_candidates boot (low_water cfg) inp snap)"
    "length made \<le> length (tick_candidates boot (low_water cfg) inp snap)"
proof -
  from tick_loop [OF assms] obtain b1 where
    "dial_loop (attempt_at inp) (snapshot_connected snap) {} 0
       (tick_candidates boot (low_water cfg) inp snap) b1 = Some (made, b')" .
  from dial_loop_subseq [OF this]
  have sub: "subseq (map fst made) (tick_candidates boot (low_water cfg) inp snap)" .
  from subseq_subset [OF sub] show "fst ` set made \<subseteq> set (tick_candidates boot (low_water cfg) inp snap)"
    by simp
  from list_emb_length [OF sub]
  show "length made \<le> length (tick_candidates boot (low_water cfg) inp snap)" by simp
qed

text \<open>Where an attempt's addresses come from: a bootstrap peer's configured address, only
  while no bootstrap peer is connected; dial hints of a preferred peer; or an address of the
  peer store, only below the low watermark. Hints and stored addresses that are loopback or
  unspecified are never dialed.\<close>

lemma tick_addresses:
  assumes tick: "maintenance_tick boot cfg inp b = Some (made, b')" and snap: "snapshot inp = Inr snap"
    and shuffles: "is_shuffle (shuffle_preferred inp)" "is_shuffle (shuffle_refill inp)"
    and made: "((p, as), e) \<in> set made"
  shows "(\<exists>a. as = [a] \<and> (p, a) \<in> set boot \<and> fst ` set boot \<inter> snapshot_connected snap = {}) \<or>
    (as \<noteq> [] \<and> filter is_undialable as = [] \<and>
      ((\<exists>hints. (p, hints) \<in> set (snapshot_preferred snap) \<and> set as \<subseteq> set hints) \<or>
       (\<exists>a. as = [a] \<and> (p, a) \<in> set (stored inp) \<and> card (snapshot_connected snap) < low_water cfg)))"
proof -
  from tick_made_candidates(1) [OF tick snap] made
  have "(p, as) \<in> set (tick_candidates boot (low_water cfg) inp snap)" by force
  then consider (boot) "(p, as) \<in> set (bootstrap_candidates boot (snapshot_connected snap))"
    | (preferred) "(p, as) \<in> set (preferred_candidates (shuffle_preferred inp) snap)"
    | (refill) a where "as = [a]" "(p, a) \<in> set (refill_candidates (shuffle_refill inp)
        (low_water cfg) (snapshot_connected snap) (stored inp))"
    by (auto simp: tick_candidates_def)
  then show ?thesis
  proof cases
    case boot
    then show ?thesis by (auto simp: bootstrap_candidates_set)
  next
    case preferred
    from preferred_candidates_dialable [OF shuffles(1) preferred] show ?thesis
      by (auto simp: filter_empty_conv)
  next
    case refill
    with refill_candidates_dialable [OF shuffles(2) refill(2)] show ?thesis by simp
  qed
qed

text \<open>The attempts over three lists of candidates.\<close>

lemma dial_loop_segments:
  assumes "dial_loop att conn attempted i (cs @ ds @ es) b = Some (made, b')"
  shows "\<exists>m1 m2 m3. made = m1 @ m2 @ m3 \<and> subseq (map fst m1) cs \<and> subseq (map fst m2) ds \<and>
    subseq (map fst m3) es"
proof -
  from dial_loop_append [OF assms] obtain m1 m b1 where m: "made = m1 @ m"
    "dial_loop att conn attempted i cs b = Some (m1, b1)"
    "dial_loop att conn (attempted \<union> (fst \<circ> fst) ` set m1) (i + length cs) (ds @ es) b1 = Some (m, b')"
    by blast
  from dial_loop_append [OF m(3)] obtain m2 m3 b2 A j where "m = m2 @ m3"
    "dial_loop att conn (attempted \<union> (fst \<circ> fst) ` set m1) (i + length cs) ds b1 = Some (m2, b2)"
    "dial_loop att conn A j es b2 = Some (m3, b')" by blast
  with m(1) dial_loop_subseq [OF m(2)] show ?thesis
    by (intro exI [of _ m1] exI [of _ m2] exI [of _ m3]) (simp add: dial_loop_subseq)
qed

text \<open>C27. A tick is bounded, source by source: its attempts are, in this order, at most one per
  configured bootstrap address, and these only while no bootstrap peer is connected; at most 16 to
  preferred peers, at hints of theirs; and at most as many to addresses of the peer store as
  connections are missing to the low watermark, plus two, none if there are enough.\<close>

theorem tick_bounded:
  assumes tick: "maintenance_tick boot cfg inp b = Some (made, b')" and snap: "snapshot inp = Inr snap"
    and shuffles: "is_shuffle (shuffle_preferred inp)" "is_shuffle (shuffle_refill inp)"
  shows "\<exists>to_boot to_preferred to_stored. made = to_boot @ to_preferred @ to_stored \<and>
    length to_boot \<le> (if fst ` set boot \<inter> snapshot_connected snap = {} then length boot else 0) \<and>
    fst ` set to_boot \<subseteq> (\<lambda>(p, a). (p, [a])) ` set boot \<and>
    length to_preferred \<le> 16 \<and>
    (\<forall>m \<in> set to_preferred. \<exists>hints. (fst (fst m), hints) \<in> set (snapshot_preferred snap) \<and>
      set (snd (fst m)) \<subseteq> set hints) \<and>
    length to_stored \<le> (if card (snapshot_connected snap) < low_water cfg
      then low_water cfg - card (snapshot_connected snap) + 2 else 0) \<and>
    fst ` set to_stored \<subseteq> (\<lambda>(p, a). (p, [a])) ` set (stored inp)"
proof -
  let ?conn = "snapshot_connected snap"
  let ?boot = "bootstrap_candidates boot ?conn" and ?pref = "preferred_candidates (shuffle_preferred inp) snap"
    and ?refill = "refill_candidates (shuffle_refill inp) (low_water cfg) ?conn (stored inp)"
  from tick_loop [OF tick snap] obtain b1 where "dial_loop (attempt_at inp) ?conn {} 0
      (tick_candidates boot (low_water cfg) inp snap) b1 = Some (made, b')" .
  from dial_loop_segments [OF this [unfolded tick_candidates_def]] obtain mb mp mr where
    made: "made = mb @ mp @ mr"
    and sub: "subseq (map fst mb) ?boot" "subseq (map fst mp) ?pref"
      "subseq (map fst mr) (map (\<lambda>(p, a). (p, [a])) ?refill)" by blast
  note lengths = sub [THEN list_emb_length] and sets = sub [THEN subseq_subset, unfolded set_map]
  have "length mb \<le> (if fst ` set boot \<inter> ?conn = {} then length boot else 0)"
  proof (cases "fst ` set boot \<inter> ?conn = {}")
    case True
    with lengths(1) length_bootstrap_candidates [of boot ?conn] show ?thesis by simp
  next
    case False
    then have "?boot = []" by (auto simp: bootstrap_candidates_def list_ex_iff)
    with lengths(1) show ?thesis by simp
  qed
  moreover have "set ?boot \<subseteq> (\<lambda>(p, a). (p, [a])) ` set boot"
    by (auto simp: bootstrap_candidates_def)
  with sets(1) have "fst ` set mb \<subseteq> (\<lambda>(p, a). (p, [a])) ` set boot" by (rule subset_trans)
  moreover have "length mp \<le> 16"
    using lengths(2) by (simp add: preferred_candidates_def max_preferred_dials_per_tick_def)
  moreover have "\<exists>hints. (fst (fst m), hints) \<in> set (snapshot_preferred snap) \<and> set (snd (fst m)) \<subseteq> set hints"
    if "m \<in> set mp" for m
  proof -
    from sets(2) that have "(fst (fst m), snd (fst m)) \<in> set ?pref" by auto
    from preferred_candidates_dialable [OF shuffles(1) this] show ?thesis by blast
  qed
  moreover have "length mr \<le> (if card ?conn < low_water cfg then low_water cfg - card ?conn + 2 else 0)"
    using lengths(3) length_refill_candidates [of "shuffle_refill inp" "low_water cfg" ?conn "stored inp"] by simp
  moreover have "set ?refill \<subseteq> set (stored inp)"
    using refill_candidates_dialable [OF shuffles(2)] by (intro subsetI) (simp add: split_paired_all)
  from subset_trans [OF sets(3) [unfolded set_map] image_mono [OF this]]
  have "fst ` set mr \<subseteq> (\<lambda>(p, a). (p, [a])) ` set (stored inp)" .
  ultimately show ?thesis
    using made by (intro exI [of _ mb] exI [of _ mp] exI [of _ mr] conjI ballI)
qed

theorem tick_bounded_witness:
  "\<exists>to_boot to_preferred to_stored.
     [sample_attempt 2 7 DialOk, sample_attempt 5 7 DialOk, sample_attempt 6 7 DialOk] =
       to_boot @ to_preferred @ to_stored \<and>
     length to_boot \<le> 1 \<and> length to_preferred \<le> 16 \<and> length to_stored \<le> 82"
proof -
  have "is_shuffle (shuffle_preferred (sample_tick 7 DialOk))" "is_shuffle (shuffle_refill (sample_tick 7 DialOk))"
    and snap: "snapshot (sample_tick 7 DialOk) = Inr sample_snapshot"
    by (simp_all add: sample_tick_def is_shuffle_def)
  from tick_bounded [OF sample_tick_ok [of 7] snap this(1,2)] show ?thesis
    by (auto simp: sample_maintenance_def sample_snapshot_def split: if_splits)
qed

text \<open>C14. Re-anchoring cannot be starved: when no bootstrap peer is connected, every bootstrap
  peer whose backoff has expired is attempted in this tick, before every attempt to a peer that
  is not one, whatever the hints and the peer store hold.\<close>

theorem bootstrap_first:
  assumes tick: "maintenance_tick boot cfg inp b = Some (made, b')" and snap: "snapshot inp = Inr snap"
    and isolated: "fst ` set boot \<inter> snapshot_connected snap = {}"
    and boot: "(p, a) \<in> set boot" and ready: "\<forall>i. ready p (ready_now (attempt_at inp i)) b"
    and clock: "\<forall>i. prune_now inp \<le> ready_now (attempt_at inp i)"
  shows "\<exists>first rest. made = first @ rest \<and> p \<in> (fst \<circ> fst) ` set first \<and>
    fst ` set first \<subseteq> (\<lambda>(q, a). (q, [a])) ` set boot"
proof -
  let ?conn = "snapshot_connected snap"
  from tick_loop [OF tick snap] obtain b1 where b1: "prune (prune_order inp) (prune_now inp) b = Some b1"
    and loop: "dial_loop (attempt_at inp) ?conn {} 0 (tick_candidates boot (low_water cfg) inp snap) b1
      = Some (made, b')" .
  have cands: "bootstrap_candidates boot ?conn = map (\<lambda>(q, a). (q, [a])) boot"
    using isolated by (force simp: bootstrap_candidates_def list_ex_iff)
  obtain rest where "tick_candidates boot (low_water cfg) inp snap =
      map (\<lambda>(q, a). (q, [a])) boot @ rest"
    by (simp add: tick_candidates_def cands)
  with loop dial_loop_append obtain made1 made2 b2 where made: "made = made1 @ made2"
    and first: "dial_loop (attempt_at inp) ?conn {} 0 (map (\<lambda>(q, a). (q, [a])) boot) b1 = Some (made1, b2)"
    by metis
  have "(p, [a]) \<in> set (map (\<lambda>(q, a). (q, [a])) boot)" using boot by force
  moreover have "p \<notin> ?conn" using boot isolated by force
  moreover have "ready p (ready_now (attempt_at inp j)) b1" for j
    using ready clock ready_prune [OF b1] by simp
  ultimately have "p \<in> (fst \<circ> fst) ` set made1" by (intro dial_loop_attempts [OF first]) simp_all
  moreover have "set (map fst made1) \<subseteq> set (map (\<lambda>(q, a). (q, [a])) boot)"
    by (rule subseq_subset [OF dial_loop_subseq [OF first]])
  then have "fst ` set made1 \<subseteq> (\<lambda>(q, a). (q, [a])) ` set boot" by simp
  ultimately show ?thesis using made by blast
qed

theorem bootstrap_first_witness:
  "\<exists>first rest. [sample_attempt 2 7 DialOk, sample_attempt 5 7 DialOk, sample_attempt 6 7 DialOk] =
     first @ rest \<and> 2 \<in> (fst \<circ> fst) ` set first"
  using bootstrap_first [OF sample_tick_ok [of 7], of sample_snapshot 2 "sample_addr 2"]
  by (auto simp: sample_snapshot_def ready_def sample_backoff_def backoff_new_def)

text \<open>C19. The maintenance task never panics: while fifteen minutes are left on the monotonic
  clock after every failure, no backoff arithmetic of any number of ticks overflows.\<close>

theorem maintenance_never_panics:
  assumes "T + 3 * from_secs 300 \<le> instant_max"
    and "\<forall>inp \<in> set inps. \<forall>j. failed_now (attempt_at inp j) \<le> T \<and>
      random_unit (jitter_random (attempt_at inp j))"
  shows "\<exists>mades b. maintenance_run boots cfg inps = Some (mades, b)"
  unfolding maintenance_run_def
  using assms backoff_sane_new [of T]
  by (intro maintenance_ticks_total [of T]) (simp_all add: attempt_ok_def backoff_cap_secs_def)

theorem maintenance_never_panics_witness:
  "\<exists>mades b. maintenance_run [[sample_addr 2 ! 0, P2p 2]] sample_maintenance
     [sample_tick 7 DialTimedOut, sample_tick 8 (DialErr ChannelClosed)] = Some (mades, b)"
  by (rule maintenance_never_panics [of 8])
    (auto simp: from_secs_def nanos_per_sec_def instant_max_def random_unit_def dval_def)

text \<open>C17. With the delays the task uses, a peer whose dial failed in one tick is not dialed again in
  the next one before half a second has passed since the failure, even when the tick comes at
  once and whatever the random factor.\<close>

theorem retry_spacing:
  assumes tick1: "maintenance_tick boot cfg inp1 b = Some (made1, b1)" "snapshot inp1 = Inr snap1"
    and tick2: "maintenance_tick boot cfg inp2 b1 = Some (made2, b2)" "snapshot inp2 = Inr snap2"
    and params: "backoff_base b = from_secs 1" "backoff_cap b = from_secs 300"
    and failed: "((p, at_first), e1) \<in> set made1" "result e1 \<noteq> DialOk"
    and again: "((p, at_second), e2) \<in> set made2"
    and env: "random_unit (jitter_random e1)" "failed_now e1 + 2 * from_secs 300 \<le> instant_max"
    and clock: "\<forall>i. prune_now inp2 \<le> ready_now (attempt_at inp2 i)"
  shows "2 * failed_now e1 + from_secs 1 \<le> 2 * ready_now e2"
proof -
  from tick_loop [OF tick1] obtain c1 where c1: "prune (prune_order inp1) (prune_now inp1) b = Some c1"
    and loop1: "dial_loop (attempt_at inp1) (snapshot_connected snap1) {} 0
      (tick_candidates boot (low_water cfg) inp1 snap1) c1 = Some (made1, b1)" .
  from c1 params have c1_params: "backoff_base c1 = from_secs 1" "backoff_cap c1 = from_secs 300"
    by (auto simp: prune_def Let_def split: if_splits)
  from dial_loop_failed_entry [OF loop1 failed] c1_params obtain b0 b0' where
    b0: "backoff_base b0 = from_secs 1" "backoff_cap b0 = from_secs 300"
      "record_failure (jitter_random e1) p (failed_now e1) b0 = Some b0'"
    and entry: "backoff_state b1 p = backoff_state b0' p" by auto
  have one: "1 \<le> capped_secs 1 300 n" for n
    by (simp add: capped_secs_def saturating_pow_def)
  from record_failure_delay [OF b0(1,2) _ env, of p] b0(3) obtain d where
    st: "backoff_state b1 p = Some \<lparr>failures = failures_of b0 p + 1, next_attempt = failed_now e1 + d\<rparr>"
    and d: "capped_secs 1 300 (unat (failures_of b0 p + 1)) * nanos_per_sec \<le> 2 * d"
    by (auto simp: entry)
  have "1 * nanos_per_sec \<le> 2 * d" using mult_right_mono [OF one] d by (rule le_trans) simp
  moreover from tick_attempts_ready [OF tick2 clock again] have "ready p (ready_now e2) b1" .
  ultimately show ?thesis by (simp add: ready_def st from_secs_def)
qed

theorem retry_spacing_witness:
  "2 * (1000 :: nat) + from_secs 1 \<le> 2 * 2000000000"
  using retry_spacing [OF lonely_tick_failed [of 1000] _ lonely_tick_again,
      where p = 2 and at_first = "[sample_addr 2]" and at_second = "[sample_addr 2]"]
  by (simp add: lonely_tick_def sample_backoff_def backoff_new_def random_unit_def dval_def
      from_secs_def nanos_per_sec_def instant_max_def)

end
