(* ===== verification/Mesh_System.thy ===== *)
theory Mesh_System
  imports Maintenance P2P_Client
begin

section \<open>The maintenance task on the running event loop\<close>

text \<open>
  \<open>Maintenance\<close> takes what a tick reads from outside as arguments. Here the tick of
  \<open>src/p2p/maintenance.rs\<close> is composed with the client and the event loop: the snapshot is the
  answer of \<open>client.network_snapshot()\<close>, the stored peers are read from the shared peer store,
  and every dial is a call of \<open>client.dial_and_wait\<close> that may be cut off by the timeout. The
  turns say what the loop handles meanwhile. The composed tick refines the tick of
  \<open>Maintenance\<close>, so its lemmas carry over.
\<close>

record 'p dial_env =
  dial_turn_of :: "'p turn"
  timed_out :: bool
  looked_at :: instant
  gave_up_at :: instant
  drawn :: dyadic

text \<open>
  \<open>timeout(DIAL_TIMEOUT, client.dial_and_wait(peer_id, addrs))\<close>. When the time is up the call is
  dropped; what became of its command is the turn's.
\<close>

definition dial_in_time ::
    "('w, 'p) swarm_ops \<Rightarrow> ('c, 'r) broadcast_ops \<Rightarrow> 'p dial_env \<Rightarrow> 'p \<Rightarrow> 'p multiaddr list
      \<Rightarrow> ('w, 'p, 'c) event_loop \<Rightarrow> dial_result \<times> ('w, 'p, 'c) event_loop" where
  "dial_in_time ops bops e peer_id as s =
     (case dial_and_wait ops bops (dial_turn_of e) peer_id as s of
        (r, s1) \<Rightarrow>
          (if timed_out e then DialTimedOut
           else (case r of Inr _ \<Rightarrow> DialOk | Inl err \<Rightarrow> DialErr err), s1))"

definition attempt_of :: "'p dial_env \<Rightarrow> dial_result \<Rightarrow> attempt_env" where
  "attempt_of e r =
     \<lparr>ready_now = looked_at e, result = r, failed_now = gave_up_at e, jitter_random = drawn e\<rparr>"

fun mesh_dials ::
    "('w, 'p) swarm_ops \<Rightarrow> ('c, 'r) broadcast_ops \<Rightarrow> (nat \<Rightarrow> 'p dial_env) \<Rightarrow> 'p set \<Rightarrow> 'p set \<Rightarrow> nat
      \<Rightarrow> ('p \<times> 'p multiaddr list) list \<Rightarrow> ('w, 'p, 'c) event_loop \<Rightarrow> 'p dial_backoff
      \<Rightarrow> ('p attempt list \<times> ('w, 'p, 'c) event_loop \<times> 'p dial_backoff) option" where
  "mesh_dials ops bops envs conn attempted i [] s b = Some ([], s, b)"
| "mesh_dials ops bops envs conn attempted i ((peer_id, as) # rest) s b =
     (if peer_id \<in> conn \<or> peer_id \<in> attempted
      then mesh_dials ops bops envs conn attempted (Suc i) rest s b
      else if \<not> ready peer_id (looked_at (envs i)) b
      then mesh_dials ops bops envs conn attempted (Suc i) rest s b
      else (case dial_in_time ops bops (envs i) peer_id as s of
        (res, s1) \<Rightarrow>
          do {
            b' \<leftarrow> (case res of
                    DialOk \<Rightarrow> Some (record_success peer_id b)
                  | _ \<Rightarrow> record_failure (drawn (envs i)) peer_id (gave_up_at (envs i)) b);
            (made, s2, b'') \<leftarrow>
              mesh_dials ops bops envs conn (insert peer_id attempted) (Suc i) rest s1 b';
            Some (((peer_id, as), attempt_of (envs i) res) # made, s2, b'')
          }))"

text \<open>What a tick meets: \<open>store_gap\<close> is what the loop handles before the store is read.\<close>

record 'p mesh_env =
  mesh_now :: instant
  mesh_prune_order :: "'p list"
  snapshot_turn :: "'p turn"
  store_gap :: "'p loop_input list"
  store_order :: "string list"
  store_now :: nat
  mesh_shuffle_preferred :: "('p \<times> 'p multiaddr list) list \<Rightarrow> ('p \<times> 'p multiaddr list) list"
  mesh_shuffle_refill :: "('p \<times> 'p multiaddr) list \<Rightarrow> ('p \<times> 'p multiaddr) list"
  dial_env_at :: "nat \<Rightarrow> 'p dial_env"

definition stored_candidates ::
    "(string \<Rightarrow> 'p option) \<Rightarrow> (string \<Rightarrow> 'p multiaddr option) \<Rightarrow> 'p mesh_env \<Rightarrow> ('w, 'p, 'c) event_loop
      \<Rightarrow> ('p \<times> 'p multiaddr) list" where
  "stored_candidates parse_peer parse_addr env s =
     dial_candidates parse_peer parse_addr (store_order env) peerstore_max_age_secs
       (store_now env) (peerstore s)"

definition mesh_candidates ::
    "('p \<times> 'p multiaddr) list \<Rightarrow> nat \<Rightarrow> 'p mesh_env \<Rightarrow> 'p network_snapshot \<Rightarrow> ('p \<times> 'p multiaddr) list
      \<Rightarrow> ('p \<times> 'p multiaddr list) list" where
  "mesh_candidates bootstrap low env snap known =
     bootstrap_candidates bootstrap (snapshot_connected snap) @
     preferred_candidates (mesh_shuffle_preferred env) snap @
     map (\<lambda>(peer_id, addr). (peer_id, [addr]))
       (refill_candidates (mesh_shuffle_refill env) low (snapshot_connected snap) known)"

definition mesh_tick ::
    "('w, 'p) swarm_ops \<Rightarrow> ('c, 'r) broadcast_ops \<Rightarrow> (string \<Rightarrow> 'p option)
      \<Rightarrow> (string \<Rightarrow> 'p multiaddr option) \<Rightarrow> ('p \<times> 'p multiaddr) list \<Rightarrow> maintenance_settings
      \<Rightarrow> 'p mesh_env \<Rightarrow> ('w, 'p, 'c) event_loop \<Rightarrow> 'p dial_backoff
      \<Rightarrow> ('p attempt list \<times> ('w, 'p, 'c) event_loop \<times> 'p dial_backoff) option" where
  "mesh_tick ops bops parse_peer parse_addr bootstrap cfg env s b =
     do {
       b1 \<leftarrow> prune (mesh_prune_order env) (mesh_now env) b;
       (case network_snapshot ops bops (snapshot_turn env) s of
          (r, s1) \<Rightarrow>
            (case typed_reply snapshot_of r of
               Inl _ \<Rightarrow> Some ([], s1, b1)
             | Inr snap \<Rightarrow>
                 (let s2 = run_loop ops bops (store_gap env) s1;
                      known = stored_candidates parse_peer parse_addr env s2
                  in mesh_dials ops bops (dial_env_at env) (snapshot_connected snap) {} 0
                       (mesh_candidates bootstrap (low_water cfg) env snap known) s2 b1)))
     }"

subsection \<open>Refinement\<close>

lemma attempt_of_simps [simp]:
  "ready_now (attempt_of e r) = looked_at e" "result (attempt_of e r) = r"
  "failed_now (attempt_of e r) = gave_up_at e" "jitter_random (attempt_of e r) = drawn e"
  by (simp_all add: attempt_of_def)

lemma dial_loop_cong:
  "(\<And>j. i \<le> j \<Longrightarrow> att j = att' j) \<Longrightarrow>
     dial_loop att conn attempted i cs b = dial_loop att' conn attempted i cs b"
proof (induction cs arbitrary: attempted i b)
  case (Cons c cs)
  obtain p as where c: "c = (p, as)" by fastforce
  have rest: "dial_loop att conn attempted' (Suc i) cs b' = dial_loop att' conn attempted' (Suc i) cs b'"
    for attempted' b' by (rule Cons.IH) (simp add: Cons.prems)
  have "att i = att' i" by (simp add: Cons.prems)
  then show ?case by (cases "result (att' i)") (simp_all add: c rest)
qed simp

text \<open>The readings of a run of the composed loop, with the results its dials had.\<close>

lemma mesh_dials_refines:
  "mesh_dials ops bops envs conn attempted i cs s b = Some (made, s', b') \<Longrightarrow>
   \<exists>res. dial_loop (\<lambda>j. attempt_of (envs j) (res j)) conn attempted i cs b = Some (made, b')"
proof (induction cs arbitrary: attempted i s b made)
  case (Cons c cs)
  obtain p as where c: "c = (p, as)" by fastforce
  show ?case
  proof (cases "p \<in> conn \<or> p \<in> attempted \<or> \<not> ready p (looked_at (envs i)) b")
    case True
    with Cons.prems c have "mesh_dials ops bops envs conn attempted (Suc i) cs s b = Some (made, s', b')"
      by (auto split: if_splits)
    from Cons.IH [OF this] True show ?thesis by (auto simp: c)
  next
    case False
    obtain r s1 where d: "dial_in_time ops bops (envs i) p as s = (r, s1)" by fastforce
    from Cons.prems False d obtain b1 made1 where
      b1: "(case r of DialOk \<Rightarrow> Some (record_success p b)
        | _ \<Rightarrow> record_failure (drawn (envs i)) p (gave_up_at (envs i)) b) = Some b1"
      and rest: "mesh_dials ops bops envs conn (insert p attempted) (Suc i) cs s1 b1 = Some (made1, s', b')"
      and made: "made = ((p, as), attempt_of (envs i) r) # made1"
      by (auto simp: c bind_eq_Some_conv split: prod.splits)
    from Cons.IH [OF rest] obtain res where
      res: "dial_loop (\<lambda>j. attempt_of (envs j) (res j)) conn (insert p attempted) (Suc i) cs b1 =
        Some (made1, b')" by blast
    let ?res = "res(i := r)"
    have "dial_loop (\<lambda>j. attempt_of (envs j) (?res j)) conn (insert p attempted) (Suc i) cs b1 =
        Some (made1, b')"
      by (subst dial_loop_cong [where att' = "\<lambda>j. attempt_of (envs j) (res j)"]) (simp_all add: res)
    with b1 False made show ?thesis
      by (intro exI [of _ ?res]) (cases r; simp add: c)
  qed
qed simp

definition tick_input_of ::
    "'p mesh_env \<Rightarrow> boxed_error + 'p network_snapshot \<Rightarrow> ('p \<times> 'p multiaddr) list
      \<Rightarrow> (nat \<Rightarrow> dial_result) \<Rightarrow> 'p tick_input" where
  "tick_input_of env snap known res =
     \<lparr>prune_now = mesh_now env, prune_order = mesh_prune_order env, snapshot = snap, stored = known,
      shuffle_preferred = mesh_shuffle_preferred env, shuffle_refill = mesh_shuffle_refill env,
      attempt_at = (\<lambda>j. attempt_of (dial_env_at env j) (res j))\<rparr>"

lemma tick_input_of_simps [simp]:
  "prune_now (tick_input_of env snap known res) = mesh_now env"
  "prune_order (tick_input_of env snap known res) = mesh_prune_order env"
  "snapshot (tick_input_of env snap known res) = snap"
  "stored (tick_input_of env snap known res) = known"
  "shuffle_preferred (tick_input_of env snap known res) = mesh_shuffle_preferred env"
  "shuffle_refill (tick_input_of env snap known res) = mesh_shuffle_refill env"
  "attempt_at (tick_input_of env snap known res) = (\<lambda>j. attempt_of (dial_env_at env j) (res j))"
  "tick_candidates bootstrap low (tick_input_of env snap known res) sn =
     mesh_candidates bootstrap low env sn known"
  by (simp_all add: tick_input_of_def tick_candidates_def mesh_candidates_def)

text \<open>The state the snapshot is answered in, and the one whose store is read.\<close>

definition store_state ::
    "('w, 'p) swarm_ops \<Rightarrow> ('c, 'r) broadcast_ops \<Rightarrow> 'p mesh_env \<Rightarrow> ('w, 'p, 'c) event_loop
      \<Rightarrow> ('w, 'p, 'c) event_loop" where
  "store_state ops bops env s =
     run_loop ops bops (store_gap env) (snd (network_snapshot ops bops (snapshot_turn env) s))"

lemma mesh_tick_simulates:
  assumes "mesh_tick ops bops pp pa boot cfg env s b = Some (made, s', b')"
  shows "\<exists>res. maintenance_tick boot cfg
      (tick_input_of env (typed_reply snapshot_of (fst (network_snapshot ops bops (snapshot_turn env) s)))
        (stored_candidates pp pa env (store_state ops bops env s)) res) b = Some (made, b')"
proof -
  obtain r s1 where r: "network_snapshot ops bops (snapshot_turn env) s = (r, s1)" by fastforce
  from assms obtain b1 where b1: "prune (mesh_prune_order env) (mesh_now env) b = Some b1"
    by (auto simp: mesh_tick_def bind_eq_Some_conv)
  show ?thesis
  proof (cases "typed_reply snapshot_of r")
    case (Inl e)
    with assms r b1 show ?thesis by (simp add: mesh_tick_def maintenance_tick_def)
  next
    case (Inr snap)
    let ?s2 = "run_loop ops bops (store_gap env) s1"
    from assms r b1 Inr have "mesh_dials ops bops (dial_env_at env) (snapshot_connected snap) {} 0
        (mesh_candidates boot (low_water cfg) env snap (stored_candidates pp pa env ?s2)) ?s2 b1 =
      Some (made, s', b')"
      by (simp add: mesh_tick_def Let_def)
    from mesh_dials_refines [OF this] r b1 Inr show ?thesis
      by (simp add: maintenance_tick_def store_state_def)
  qed
qed

subsection \<open>What the snapshot says\<close>

lemma snapshot_exact:
  assumes fresh: "fresh_turn ops bops t s"
  defines "s1 \<equiv> state_at_call ops bops t s"
  shows "typed_reply snapshot_of (fst (network_snapshot ops bops t s)) =
    Inr \<lparr>snapshot_connected = dom (connected s1), snapshot_preferred = entries (dial_hints s1) (visit_order t)\<rparr>"
proof -
  have "replies (handle_command ops (visit_order t) (NetworkSnapshot (reply_to t)) s1) =
      replies s1 @ [(reply_to t, Inr (SnapshotOf \<lparr>snapshot_connected = dom (connected s1),
        snapshot_preferred = entries (dial_hints s1) (visit_order t)\<rparr>))]"
    by (simp add: answer_def)
  from call_answered [where command = NetworkSnapshot, OF fresh this [unfolded s1_def]] show ?thesis
    by (simp add: network_snapshot_def typed_reply_def s1_def)
qed

text \<open>Only \<open>SetPreferredPeers\<close> changes the dial hints.\<close>

fun updates_preferred :: "'p loop_input \<Rightarrow> bool" where
  "updates_preferred (CommandInput _ (SetPreferredPeers _ _)) \<longleftrightarrow> True"
| "updates_preferred _ \<longleftrightarrow> False"

lemma hints_kept:
  "\<not> list_ex updates_preferred inputs \<Longrightarrow> dial_hints (run_loop ops bops inputs s) = dial_hints s"
proof (induction inputs arbitrary: s)
  case (Cons i inputs)
  show ?case
  proof (cases i)
    case (SwarmInput rd ev)
    with Cons show ?thesis by (simp add: event_frame del: handle_event.simps)
  next
    case (CommandInput ord c)
    with Cons.prems have "dial_hints (handle_command ops ord c s) = dial_hints s"
      by (cases c) (simp_all split: prod.split)
    with Cons CommandInput show ?thesis by (simp del: handle_command.simps)
  qed simp
qed simp

end
