(* ===== verification/Mesh_Properties.thy ===== *)
theory Mesh_Properties
  imports Dialing_Properties Mesh_System
begin

section \<open>Properties of the maintenance task on the running event loop\<close>

text \<open>
  What \<open>src/p2p/maintenance.rs\<close>, \<open>src/p2p/network.rs\<close> and \<open>src/p2p/peerstore.rs\<close> do together.
\<close>

subsection \<open>A concrete tick\<close>

text \<open>
  A node without connections that was told to prefer peer 5 runs a tick: the snapshot is answered
  at once, the peer store is empty, and the dial of peer 5 times out.
\<close>

definition preferring :: "(swarm_call list, nat, queue_channel) event_loop" where
  "preferring = handle_command sample_ops [1] (SetPreferredPeers [(5, [sample_addr 5])] 0) sample_loop"

definition quiet_dial :: "nat dial_env" where
  "quiet_dial = \<lparr>dial_turn_of = sample_turn 2 [], timed_out = True, looked_at = 7, gave_up_at = 7,
     drawn = (0, 0)\<rparr>"

definition quiet_mesh :: "nat mesh_env" where
  "quiet_mesh = \<lparr>mesh_now = 7, mesh_prune_order = [], snapshot_turn = (sample_turn 1 [])
       \<lparr>visit_order := [5]\<rparr>, store_gap = [], store_order = [], store_now = 1000,
     mesh_shuffle_preferred = id, mesh_shuffle_refill = id, dial_env_at = (\<lambda>i. quiet_dial)\<rparr>"

abbreviation prefer_tick where
  "prefer_tick \<equiv> mesh_tick sample_ops queue_channel_ops (\<lambda>k. None) (\<lambda>a. None) []
     sample_maintenance quiet_mesh preferring sample_backoff"

lemma preferring_simps [simp]:
  "dial_hints preferring = [5 \<mapsto> [sample_addr 5]]" "connected preferring = Map.empty"
  "peerstore preferring = peer_store_default" "fst ` set (replies preferring) = {0}"
  by (simp_all add: preferring_def handle_set_preferred_result sample_loop_def event_loop_new_def
      sample_cap)

lemma quiet_mesh_simps [simp]:
  "mesh_now quiet_mesh = 7" "mesh_prune_order quiet_mesh = []" "store_gap quiet_mesh = []"
  "before (snapshot_turn quiet_mesh) = []" "visit_order (snapshot_turn quiet_mesh) = [5]"
  "store_order quiet_mesh = []" "mesh_shuffle_preferred quiet_mesh = id"
  "mesh_shuffle_refill quiet_mesh = id" "dial_env_at quiet_mesh = (\<lambda>i. quiet_dial)"
  "looked_at quiet_dial = 7" "gave_up_at quiet_dial = 7" "timed_out quiet_dial"
  "drawn quiet_dial = (0, 0)"
  by (simp_all add: quiet_mesh_def quiet_dial_def sample_turn_def)

lemma quiet_fresh: "fresh_turn sample_ops queue_channel_ops (snapshot_turn quiet_mesh) preferring"
  by (simp add: fresh_turn_def) (simp add: quiet_mesh_def sample_turn_def)

lemma quiet_state: "state_at_call sample_ops queue_channel_ops (snapshot_turn quiet_mesh) preferring = preferring"
  by (simp add: state_at_call_def)

lemma quiet_store:
  "store_state sample_ops queue_channel_ops quiet_mesh preferring =
     answer 1 (Inr (SnapshotOf \<lparr>snapshot_connected = {}, snapshot_preferred = [(5, [sample_addr 5])]\<rparr>))
       preferring"
proof -
  have "reply_to (snapshot_turn quiet_mesh) = 1" "afterwards (snapshot_turn quiet_mesh) = []"
    by (simp_all add: quiet_mesh_def sample_turn_def)
  with call_answered [where command = NetworkSnapshot, OF quiet_fresh] show ?thesis
    by (simp add: store_state_def network_snapshot_def quiet_state answer_def map_filter_simps entries_def)
qed

lemma prefer_tick:
  "\<exists>s. prefer_tick = Some ([sample_attempt 5 7 DialTimedOut], s, sample_backoff
     \<lparr>backoff_state := [5 \<mapsto> \<lparr>failures = 1, next_attempt = 500000007\<rparr>]\<rparr>)"
proof -
  let ?snap = "\<lparr>snapshot_connected = {}, snapshot_preferred = [(5, [sample_addr 5])]\<rparr>"
  obtain r s1 where r: "network_snapshot sample_ops queue_channel_ops (snapshot_turn quiet_mesh) preferring
      = (r, s1)" by fastforce
  with snapshot_exact [OF quiet_fresh] have snap: "typed_reply snapshot_of r = Inr ?snap"
    by (simp add: quiet_state entries_def map_filter_simps)
  have "prune [] 7 sample_backoff = Some sample_backoff" "ready 5 7 sample_backoff"
    by (simp_all add: prune_def sample_backoff_def backoff_new_def entries_def map_filter_simps ready_def)
  moreover have "mesh_candidates [] 80 quiet_mesh ?snap [] = [(5, [sample_addr 5])]"
    by (simp add: mesh_candidates_def bootstrap_candidates_def preferred_candidates_def
        refill_candidates_def is_undialable_def sample_addr_def max_preferred_dials_per_tick_def
        map_filter_simps)
  moreover obtain rd s2 where "dial_in_time sample_ops queue_channel_ops quiet_dial 5 [sample_addr 5] s1
      = (rd, s2)" "rd = DialTimedOut"
    by (cases "dial_and_wait sample_ops queue_channel_ops (dial_turn_of quiet_dial) 5 [sample_addr 5] s1")
      (simp add: dial_in_time_def)
  ultimately show ?thesis
    using sample_failure [of 7 5]
    by (simp add: mesh_tick_def r snap stored_candidates_def dial_candidates_def entries_def
        map_filter_simps sample_maintenance_def
        attempt_of_def)
qed

lemma mesh_tick_input:
  assumes tick: "mesh_tick ops bops pp pa boot cfg env s b = Some (made, s', b')"
    and fresh: "fresh_turn ops bops (snapshot_turn env) s"
  defines "s1 \<equiv> state_at_call ops bops (snapshot_turn env) s"
  defines "snap \<equiv> \<lparr>snapshot_connected = dom (connected s1),
    snapshot_preferred = entries (dial_hints s1) (visit_order (snapshot_turn env))\<rparr>"
  obtains inp where "maintenance_tick boot cfg inp b = Some (made, b')" "snapshot inp = Inr snap"
    "stored inp = stored_candidates pp pa env (store_state ops bops env s)"
    "prune_now inp = mesh_now env" "shuffle_preferred inp = mesh_shuffle_preferred env"
    "shuffle_refill inp = mesh_shuffle_refill env"
    "\<And>j. ready_now (attempt_at inp j) = looked_at (dial_env_at env j)"
proof -
  from mesh_tick_simulates [OF tick] obtain res where t: "maintenance_tick boot cfg
      (tick_input_of env (typed_reply snapshot_of (fst (network_snapshot ops bops (snapshot_turn env) s)))
        (stored_candidates pp pa env (store_state ops bops env s)) res) b = Some (made, b')" ..
  from snapshot_exact [OF fresh]
  show thesis by (intro that [OF t]) (simp_all add: snap_def s1_def)
qed

text \<open>C15. Where the addresses that the service dials on its own come from, with the event loop and
  the peer store in the picture: the peer had no connection when the loop answered the snapshot,
  and each attempt is to a configured bootstrap address, to dial hints that the loop held for
  that peer, or to an address that the peer store held for it when it was read, last seen at
  most seven days before; hints and stored addresses that are loopback or unspecified are never
  dialed.\<close>

theorem mesh_tick_sources:
  assumes tick: "mesh_tick ops bops pp pa boot cfg env s b = Some (made, s', b')"
    and fresh: "fresh_turn ops bops (snapshot_turn env) s"
    and store: "iterates (dom (peers (peerstore (store_state ops bops env s)))) (store_order env)"
    and shuffles: "is_shuffle (mesh_shuffle_preferred env)" "is_shuffle (mesh_shuffle_refill env)"
    and made: "((p, as), e) \<in> set made"
  shows "let s1 = state_at_call ops bops (snapshot_turn env) s;
             st = peerstore (store_state ops bops env s)
    in connected s1 p = None \<and>
      ((\<exists>a. as = [a] \<and> (p, a) \<in> set boot) \<or>
       (\<exists>hints. dial_hints s1 p = Some hints \<and> as \<noteq> [] \<and> set as \<subseteq> set hints \<and> filter is_undialable as = []) \<or>
       (\<exists>a key x seen. as = [a] \<and> pp key = Some p \<and> pa x = Some a \<and> x \<in> set (known_addrs st key) \<and>
          seen_at st key = Some seen \<and> store_now env - seen \<le> 7 * 24 * 3600 \<and> \<not> is_undialable a))"
proof -
  let ?s1 = "state_at_call ops bops (snapshot_turn env) s"
  from mesh_tick_input [OF tick fresh] obtain inp where
    t: "maintenance_tick boot cfg inp b = Some (made, b')"
    and snap: "snapshot inp = Inr \<lparr>snapshot_connected = dom (connected ?s1),
      snapshot_preferred = entries (dial_hints ?s1) (visit_order (snapshot_turn env))\<rparr>"
    and st: "stored inp = stored_candidates pp pa env (store_state ops bops env s)"
    and sh: "shuffle_preferred inp = mesh_shuffle_preferred env" "shuffle_refill inp = mesh_shuffle_refill env"
    by metis
  from tick_loop [OF t snap] obtain b1 where "dial_loop (attempt_at inp) (dom (connected ?s1)) {} 0
      (tick_candidates boot (low_water cfg) inp \<lparr>snapshot_connected = dom (connected ?s1),
        snapshot_preferred = entries (dial_hints ?s1) (visit_order (snapshot_turn env))\<rparr>) b1 = Some (made, b')"
    by auto
  from dial_loop_peers [OF this] made have "p \<notin> dom (connected ?s1)" by force
  then have "connected ?s1 p = None" by auto
  moreover from tick_addresses [OF t snap _ _ made] shuffles sh
  consider (boot) a where "as = [a]" "(p, a) \<in> set boot"
    | (hints) hints where "dial_hints ?s1 p = Some hints" "as \<noteq> []" "set as \<subseteq> set hints"
        "filter is_undialable as = []"
    | (stored) a where "as = [a]" "(p, a) \<in> set (stored inp)" "\<not> is_undialable a"
    by (auto simp: set_entries split: if_splits)
  then have "(\<exists>a. as = [a] \<and> (p, a) \<in> set boot) \<or>
       (\<exists>hints. dial_hints ?s1 p = Some hints \<and> as \<noteq> [] \<and> set as \<subseteq> set hints \<and> filter is_undialable as = []) \<or>
       (\<exists>a key x seen. as = [a] \<and> pp key = Some p \<and> pa x = Some a \<and>
          x \<in> set (known_addrs (peerstore (store_state ops bops env s)) key) \<and>
          seen_at (peerstore (store_state ops bops env s)) key = Some seen \<and>
          store_now env - seen \<le> 7 * 24 * 3600 \<and> \<not> is_undialable a)"
  proof cases
    case stored
    then show ?thesis
      unfolding st stored_candidates_def set_dial_candidates [OF store] peerstore_max_age_secs_def
      by blast
  qed blast+
  ultimately show ?thesis unfolding Let_def by blast
qed

theorem mesh_tick_sources_witness:
  "\<exists>hints. dial_hints preferring 5 = Some hints \<and> sample_addr 5 \<in> set hints"
proof -
  from prefer_tick obtain s b' where tick: "prefer_tick = Some ([sample_attempt 5 7 DialTimedOut], s, b')"
    by blast
  have "iterates (dom (peers (peerstore (store_state sample_ops queue_channel_ops quiet_mesh preferring))))
      (store_order quiet_mesh)"
    by (simp add: quiet_store answer_def peer_store_default_def iterates_def)
  from mesh_tick_sources [OF tick quiet_fresh this, of 5 "[sample_addr 5]"] show ?thesis
    by (auto simp: is_shuffle_def quiet_state quiet_store)
qed

text \<open>A candidate without a connection is attempted when its backoff has expired.\<close>

lemma mesh_tick_attempts:
  assumes tick: "mesh_tick ops bops pp pa boot cfg env s b = Some (made, s', b')"
    and fresh: "fresh_turn ops bops (snapshot_turn env) s"
  defines "s1 \<equiv> state_at_call ops bops (snapshot_turn env) s"
  assumes cand: "(p, as) \<in> set (mesh_candidates boot (low_water cfg) env
      \<lparr>snapshot_connected = dom (connected s1),
       snapshot_preferred = entries (dial_hints s1) (visit_order (snapshot_turn env))\<rparr>
      (stored_candidates pp pa env (store_state ops bops env s)))"
    and absent: "connected s1 p = None"
    and ready: "\<forall>j. mesh_now env \<le> looked_at (dial_env_at env j) \<and>
      ready p (looked_at (dial_env_at env j)) b"
  shows "p \<in> (fst \<circ> fst) ` set made"
proof -
  let ?snap = "\<lparr>snapshot_connected = dom (connected s1),
    snapshot_preferred = entries (dial_hints s1) (visit_order (snapshot_turn env))\<rparr>"
  from mesh_tick_input [OF tick fresh] obtain inp where
    t: "maintenance_tick boot cfg inp b = Some (made, b')" and snap: "snapshot inp = Inr ?snap"
    and st: "stored inp = stored_candidates pp pa env (store_state ops bops env s)"
    and now: "prune_now inp = mesh_now env"
    and sh: "shuffle_preferred inp = mesh_shuffle_preferred env" "shuffle_refill inp = mesh_shuffle_refill env"
    and clock: "\<And>j. ready_now (attempt_at inp j) = looked_at (dial_env_at env j)"
    unfolding s1_def by metis
  from tick_loop [OF t snap] obtain b1 where b1: "prune (prune_order inp) (prune_now inp) b = Some b1"
    and loop: "dial_loop (attempt_at inp) (dom (connected s1)) {} 0
      (tick_candidates boot (low_water cfg) inp ?snap) b1 = Some (made, b')" by auto
  show ?thesis
  proof (rule dial_loop_attempts [OF loop])
    show "(p, as) \<in> set (tick_candidates boot (low_water cfg) inp ?snap)"
      using cand by (simp add: tick_candidates_def mesh_candidates_def sh st)
    show "ready p (ready_now (attempt_at inp j)) b1" for j
      using ready ready_prune [OF b1] by (simp add: clock now)
  qed (use absent in auto)
qed

text \<open>A peer with a hint that may be dialed is among the candidates when there are at most 16.\<close>

lemma preferred_candidate:
  assumes shuffle: "is_shuffle f" and few: "length (snapshot_preferred snap) \<le> 16"
    and p: "(p, hints) \<in> set (snapshot_preferred snap)" "p \<notin> snapshot_connected snap"
    and hint: "\<exists>a \<in> set hints. \<not> is_undialable a"
  shows "(p, filter (\<lambda>a. \<not> is_undialable a) hints) \<in> set (preferred_candidates f snap)"
proof -
  let ?cs = "List.map_filter (\<lambda>(peer_id, hints).
      if peer_id \<in> snapshot_connected snap then None
      else let dialable = filter (\<lambda>addr. \<not> is_undialable addr) hints
           in if dialable \<noteq> [] then Some (peer_id, dialable) else None) (snapshot_preferred snap)"
  have "mset (f ?cs) = mset ?cs" using shuffle unfolding is_shuffle_def by blast
  then have "length (f ?cs) = length ?cs" by (rule mset_eq_length)
  also have "\<dots> \<le> 16" using length_map_filter_le few by (rule le_trans)
  finally have "preferred_candidates f snap = f ?cs"
    by (simp add: preferred_candidates_def max_preferred_dials_per_tick_def)
  moreover have "filter (\<lambda>a. \<not> is_undialable a) hints \<noteq> []" using hint by (auto simp: filter_empty_conv)
  then have "(p, filter (\<lambda>a. \<not> is_undialable a) hints) \<in> set ?cs"
    using p unfolding set_map_filter by (intro CollectI bexI [of _ "(p, hints)"]) (simp_all add: Let_def)
  ultimately show ?thesis by (simp add: is_shuffle_set [OF shuffle])
qed

text \<open>C16. A preferred peer is dialed: once the loop has taken \<open>SetPreferredPeers\<close> with at most 16
  peers, the next tick attempts every accepted one that has no connection when the snapshot is
  answered, has a hint that is neither loopback nor unspecified, and whose backoff has expired,
  whatever the loop handled in between except a further \<open>SetPreferredPeers\<close>. The peers of the
  command are taken to be distinct.\<close>

theorem preferred_peer_is_dialed:
  assumes s: "s = run_loop ops bops later (handle_command ops ord (SetPreferredPeers ps sd) s0)"
    and quiet: "\<not> list_ex updates_preferred (later @ before (snapshot_turn env))"
    and few: "length ps \<le> 16" "distinct (map fst ps)"
    and entry: "(p, hints) \<in> set (take (protected_cap (settings s0)) ps)"
    and hint: "\<exists>a \<in> set hints. \<not> is_undialable a"
    and tick: "mesh_tick ops bops pp pa boot cfg env s b = Some (made, s', b')"
    and fresh: "fresh_turn ops bops (snapshot_turn env) s"
    and order: "iterates (dom (dial_hints (state_at_call ops bops (snapshot_turn env) s)))
      (visit_order (snapshot_turn env))"
    and shuffle: "is_shuffle (mesh_shuffle_preferred env)"
    and absent: "connected (state_at_call ops bops (snapshot_turn env) s) p = None"
    and ready: "\<forall>j. mesh_now env \<le> looked_at (dial_env_at env j) \<and>
      ready p (looked_at (dial_env_at env j)) b"
  shows "p \<in> (fst \<circ> fst) ` set made"
proof -
  let ?s1 = "state_at_call ops bops (snapshot_turn env) s" and ?cap = "protected_cap (settings s0)"
  let ?snap = "\<lparr>snapshot_connected = dom (connected ?s1),
    snapshot_preferred = entries (dial_hints ?s1) (visit_order (snapshot_turn env))\<rparr>"
  have hints: "dial_hints ?s1 = insert_all (take ?cap ps) Map.empty"
    using quiet by (simp add: s state_at_call_def hints_kept handle_set_preferred_result)
  have dist: "distinct (map fst (take ?cap ps))"
    using few(2) by (simp add: distinct_take flip: take_map)
  have "length (snapshot_preferred ?snap) \<le> length (visit_order (snapshot_turn env))"
    by (simp add: entries_def length_map_filter_le)
  also have "\<dots> = card (fst ` set (take ?cap ps))"
    by (simp add: iterates_length [OF order] hints dom_insert_all)
  also have "\<dots> \<le> length (take ?cap ps)" by (metis card_length length_map list.set_map)
  also have "\<dots> \<le> 16" using few(1) by simp
  finally have short: "length (snapshot_preferred ?snap) \<le> 16" .
  have "dial_hints ?s1 p = Some hints" unfolding hints by (rule insert_all_distinct [OF dist entry])
  then have "(p, hints) \<in> set (snapshot_preferred ?snap)"
    using iterates_set [OF order] by (auto simp: set_entries)
  from preferred_candidate [OF shuffle short this] absent hint
  have cand: "(p, filter (\<lambda>a. \<not> is_undialable a) hints)
      \<in> set (preferred_candidates (mesh_shuffle_preferred env) ?snap)" by (simp add: domIff)
  then show ?thesis
    by (intro mesh_tick_attempts [OF tick fresh _ absent ready,
          where as = "filter (\<lambda>a. \<not> is_undialable a) hints"])
      (simp add: mesh_candidates_def)
qed

theorem preferred_peer_is_dialed_witness:
  "5 \<in> (fst \<circ> fst) ` set [sample_attempt 5 7 DialTimedOut]"
proof -
  from prefer_tick obtain s b' where tick: "prefer_tick = Some ([sample_attempt 5 7 DialTimedOut], s, b')"
    by blast
  have "preferring = run_loop sample_ops queue_channel_ops []
      (handle_command sample_ops [1] (SetPreferredPeers [(5, [sample_addr 5])] 0) sample_loop)"
    by (simp add: preferring_def)
  from preferred_peer_is_dialed [OF this _ _ _ _ _ tick quiet_fresh, of 5 "[sample_addr 5]"] show ?thesis
    by (simp add: quiet_state iterates_def is_shuffle_def ready_def sample_backoff_def backoff_new_def
        is_undialable_def sample_addr_def sample_loop_def event_loop_new_def sample_cap)
qed

text \<open>C20. The node does not depend on bootstrap and preferred peers alone: below the low watermark a
  tick attempts every peer of the peer store that it may dial and that has no connection, when
  it was seen within seven days, its backoff has expired and the addresses to choose from fit
  the refill budget of the tick, whichever way they are shuffled.\<close>

theorem remembered_peer_is_dialed:
  assumes tick: "mesh_tick ops bops pp pa boot cfg env s b = Some (made, s', b')"
    and fresh: "fresh_turn ops bops (snapshot_turn env) s"
    and store: "iterates (dom (peers (peerstore (store_state ops bops env s)))) (store_order env)"
    and known: "seen_at (peerstore (store_state ops bops env s)) key = Some seen"
      "store_now env - seen \<le> 7 * 24 * 3600" "pp key = Some p"
      "x \<in> set (known_addrs (peerstore (store_state ops bops env s)) key)" "pa x = Some a"
      "\<not> is_undialable a"
    and absent: "connected (state_at_call ops bops (snapshot_turn env) s) p = None"
    and low: "card (dom (connected (state_at_call ops bops (snapshot_turn env) s))) < low_water cfg"
    and few: "length (filter
        (\<lambda>(q, a). connected (state_at_call ops bops (snapshot_turn env) s) q = None \<and> \<not> is_undialable a)
        (stored_candidates pp pa env (store_state ops bops env s)))
      \<le> low_water cfg - card (dom (connected (state_at_call ops bops (snapshot_turn env) s))) + 2"
    and shuffle: "is_shuffle (mesh_shuffle_refill env)"
    and ready: "\<forall>j. mesh_now env \<le> looked_at (dial_env_at env j) \<and>
      ready p (looked_at (dial_env_at env j)) b"
  shows "p \<in> (fst \<circ> fst) ` set made"
proof -
  let ?conn = "dom (connected (state_at_call ops bops (snapshot_turn env) s))"
  let ?stored = "stored_candidates pp pa env (store_state ops bops env s)"
  let ?cs = "filter (\<lambda>(q, a). q \<notin> ?conn \<and> \<not> is_undialable a) ?stored"
  have "(p, a) \<in> set ?stored"
    unfolding stored_candidates_def set_dial_candidates [OF store] peerstore_max_age_secs_def
    using known by blast
  then have cand: "(p, a) \<in> set ?cs" using absent known(6) by auto
  have "mset (mesh_shuffle_refill env ?cs) = mset ?cs" using shuffle unfolding is_shuffle_def by blast
  then have "length (mesh_shuffle_refill env ?cs) = length ?cs" by (rule mset_eq_length)
  also have "\<dots> \<le> low_water cfg - card ?conn + 2" using few by (simp add: domIff)
  finally have "refill_candidates (mesh_shuffle_refill env) (low_water cfg) ?conn ?stored =
      mesh_shuffle_refill env ?cs" using low by (simp add: refill_candidates_def)
  then have "(p, a) \<in> set (refill_candidates (mesh_shuffle_refill env) (low_water cfg) ?conn ?stored)"
    using cand is_shuffle_set [OF shuffle] by simp
  then show ?thesis
    by (intro mesh_tick_attempts [OF tick fresh _ absent ready, where as = "[a]"])
      (force simp: mesh_candidates_def)
qed

text \<open>A node that knows one peer from its store and has no connection.\<close>

definition knowing :: "(swarm_call list, nat, queue_channel) event_loop" where
  "knowing = sample_loop\<lparr>peerstore := record_peer id id ''k'' [''a''] 950 peer_store_default\<rparr>"

definition knowing_mesh :: "nat mesh_env" where
  "knowing_mesh = quiet_mesh\<lparr>store_order := [''k'']\<rparr>"

abbreviation knowing_addr :: "string \<Rightarrow> nat multiaddr option" where
  "knowing_addr \<equiv> (\<lambda>text. Some (sample_addr 5))"

lemma knowing_simps [simp]:
  "dial_hints knowing = Map.empty" "connected knowing = Map.empty" "replies knowing = []"
  "peerstore knowing = \<lparr>peers = [''k'' \<mapsto> \<lparr>addrs = [''a''], last_seen_unix = 950\<rparr>]\<rparr>"
  by (simp_all add: knowing_def sample_loop_def event_loop_new_def record_peer_def push_addr_def
      peer_store_default_def max_addrs_per_peer_def)

lemma knowing_mesh_simps [simp]:
  "mesh_now knowing_mesh = 7" "mesh_prune_order knowing_mesh = []" "store_gap knowing_mesh = []"
  "snapshot_turn knowing_mesh = snapshot_turn quiet_mesh" "store_order knowing_mesh = [''k'']"
  "mesh_shuffle_preferred knowing_mesh = id" "mesh_shuffle_refill knowing_mesh = id"
  "dial_env_at knowing_mesh = (\<lambda>i. quiet_dial)" "store_now knowing_mesh = 1000"
  by (simp_all add: knowing_mesh_def) (simp add: quiet_mesh_def)

lemma knowing_fresh: "fresh_turn sample_ops queue_channel_ops (snapshot_turn quiet_mesh) knowing"
  by (simp add: fresh_turn_def) (simp add: quiet_mesh_def sample_turn_def)

lemma knowing_state:
  "state_at_call sample_ops queue_channel_ops (snapshot_turn quiet_mesh) knowing = knowing"
  by (simp add: state_at_call_def)

lemma knowing_store:
  "peerstore (store_state sample_ops queue_channel_ops knowing_mesh knowing) = peerstore knowing"
  "peerstore (snd (network_snapshot sample_ops queue_channel_ops (snapshot_turn quiet_mesh) knowing)) =
     peerstore knowing"
proof -
  have "afterwards (snapshot_turn quiet_mesh) = []" by (simp add: quiet_mesh_def sample_turn_def)
  then show "peerstore (snd (network_snapshot sample_ops queue_channel_ops (snapshot_turn quiet_mesh) knowing)) =
     peerstore knowing"
    by (simp add: network_snapshot_def send_command_and_wait_def Let_def answer_def split: delivery.split)
  then show "peerstore (store_state sample_ops queue_channel_ops knowing_mesh knowing) = peerstore knowing"
    by (simp add: store_state_def)
qed

lemma knowing_stored:
  "peerstore s = peerstore knowing \<Longrightarrow>
     stored_candidates (\<lambda>key. Some 5) knowing_addr knowing_mesh s = [(5, sample_addr 5)]"
  by (simp add: stored_candidates_def dial_candidates_def entries_def peerstore_max_age_secs_def)

abbreviation knowing_tick where
  "knowing_tick \<equiv> mesh_tick sample_ops queue_channel_ops (\<lambda>key. Some 5) knowing_addr []
     sample_maintenance knowing_mesh knowing sample_backoff"

lemma sample_addr_dialable: "\<not> is_undialable (sample_addr 5)"
  by (simp add: is_undialable_def sample_addr_def)

lemma knowing_tick:
  "\<exists>s b. knowing_tick = Some ([sample_attempt 5 7 DialTimedOut], s, b)"
proof -
  let ?snap = "\<lparr>snapshot_connected = {}, snapshot_preferred = []\<rparr>"
  obtain r s1 where r: "network_snapshot sample_ops queue_channel_ops (snapshot_turn quiet_mesh) knowing
      = (r, s1)" by fastforce
  with snapshot_exact [OF knowing_fresh] have snap: "typed_reply snapshot_of r = Inr ?snap"
    by (simp add: knowing_state entries_def)
  have stored: "stored_candidates (\<lambda>key. Some 5) knowing_addr knowing_mesh s1 = [(5, sample_addr 5)]"
    using knowing_store(2) r by (intro knowing_stored) simp
  have "prune [] 7 sample_backoff = Some sample_backoff" "ready 5 7 sample_backoff"
    by (simp_all add: prune_def sample_backoff_def backoff_new_def entries_def ready_def)
  moreover have "mesh_candidates [] 80 knowing_mesh ?snap [(5, sample_addr 5)] = [(5, [sample_addr 5])]"
    by (simp add: mesh_candidates_def bootstrap_candidates_def preferred_candidates_def
        refill_candidates_def is_undialable_def sample_addr_def)
  moreover obtain rd s2 where "dial_in_time sample_ops queue_channel_ops quiet_dial 5 [sample_addr 5] s1
      = (rd, s2)" "rd = DialTimedOut"
    by (cases "dial_and_wait sample_ops queue_channel_ops (dial_turn_of quiet_dial) 5 [sample_addr 5] s1")
      (simp add: dial_in_time_def)
  ultimately show ?thesis
    using sample_failure [of 7 5]
    by (simp add: mesh_tick_def r snap stored sample_maintenance_def attempt_of_def)
qed

theorem remembered_peer_is_dialed_witness:
  "5 \<in> (fst \<circ> fst) ` set [sample_attempt 5 7 DialTimedOut]"
proof -
  from knowing_tick obtain s b where
    tick: "knowing_tick = Some ([sample_attempt 5 7 DialTimedOut], s, b)" by blast
  from knowing_fresh have fresh: "fresh_turn sample_ops queue_channel_ops (snapshot_turn knowing_mesh) knowing"
    by simp
  show ?thesis
    by (rule remembered_peer_is_dialed [OF tick fresh, where key = "''k''" and seen = 950 and x = "''a''"
          and a = "sample_addr 5"])
      (simp_all add: knowing_store knowing_stored [OF knowing_store(1)] knowing_state iterates_def
        seen_at_def known_addrs_def sample_addr_dialable sample_maintenance_def
        is_shuffle_def ready_def sample_backoff_def backoff_new_def)
qed

end
