(* ===== verification/Pubsub_Properties.thy ===== *)
theory Pubsub_Properties
  imports Reference_Environment
begin

section \<open>Properties of the fan-out and of the gRPC service\<close>

text \<open>
  The properties of \<open>src/subscriptions.rs\<close> and \<open>src/grpc.rs\<close>, with their witnesses, which use
  the concrete channel and swarm of \<open>Reference_Environment\<close>.
\<close>

subsection \<open>Fan-out\<close>

text \<open>Publishing delivers to every receiver of the topic, after what it already waits for,
  dropping the oldest messages beyond the channel's room, touches no other topic and no other
  receiver's place, and returns the number of receivers.\<close>

theorem publish_fanout:
  assumes "broadcast_ok bops v"
  shows "fst (publish bops env subs) = card (topic_receivers v subs (topic env)) \<and>
    (\<forall>t. topic_receivers v (snd (publish bops env subs)) t = topic_receivers v subs t) \<and>
    (\<forall>t. \<forall>r \<in> topic_receivers v subs t. topic_queue v (snd (publish bops env subs)) t r =
       (if t = topic env then newest (topic_room v subs t) (topic_queue v subs t r @ [env])
        else topic_queue v subs t r))"
  using publish_count [OF assms] publish_view [OF assms] by simp

definition sample_envelope :: "u8 \<Rightarrow> envelope" where
  "sample_envelope b = \<lparr>topic = ''ALIVE'', source_peer_id = ''q'', data = [b], received_at_millis = 5\<rparr>"

definition sample_subscribed :: "queue_channel subscriptions" where
  "sample_subscribed = snd (subscribe queue_channel_ops ''ALIVE'' (subscriptions_new 2))"

lemma sample_subscribed_receivers:
  "topic_receivers queue_channel_view sample_subscribed ''ALIVE'' = {0}"
  by (auto simp: sample_subscribed_def subscribe_def subscriptions_new_def qc_subscribe_def
      qc_new_def topic_receivers_def queue_channel_view_def qc_active_iff)

theorem publish_fanout_witness:
  "fst (publish queue_channel_ops (sample_envelope 1) sample_subscribed) = 1"
  using publish_fanout [OF queue_channel_ok, of "sample_envelope 1" sample_subscribed]
  by (simp add: sample_envelope_def sample_subscribed_receivers)

text \<open>A loop with one subscriber to a topic, and the arrival of a message on it.\<close>

definition subscribed_loop :: "(swarm_call list, nat, queue_channel) event_loop" where
  "subscribed_loop = sample_loop\<lparr>subscriptions := sample_subscribed\<rparr>"

definition sample_message :: "u8 \<Rightarrow> nat loop_input" where
  "sample_message b = SwarmInput sample_reading (GossipsubMessage (Some 4) ''ALIVE'' [b])"

lemma subscribed_loop_view:
  "0 \<in> topic_receivers queue_channel_view (subscriptions subscribed_loop) ''ALIVE''"
  "topic_queue queue_channel_view (subscriptions subscribed_loop) ''ALIVE'' 0 = []"
  "topic_room queue_channel_view (subscriptions subscribed_loop) ''ALIVE'' = 2"
  "topic_missed queue_channel_view (subscriptions subscribed_loop) ''ALIVE'' 0 = 0"
  by (auto simp: subscribed_loop_def sample_subscribed_receivers)
    (simp_all add: sample_subscribed_def subscribe_def subscriptions_new_def qc_subscribe_def
      qc_new_def topic_queue_def topic_room_def topic_missed_def queue_channel_view_def)

text \<open>C7. A subscriber of a topic gets, in order and without loss, exactly the messages with a
  source that the event loop receives on the topic, for every run in which they fit the
  channel's room; commands and all other events add nothing.\<close>

theorem subscriber_receives_exactly:
  assumes "broadcast_ok bops v" "r \<in> topic_receivers v (subscriptions s) t"
    and "length (topic_queue v (subscriptions s) t r) + length (on_topic t (published inputs))
      \<le> topic_room v (subscriptions s) t"
  shows "topic_queue v (subscriptions (run_loop ops bops inputs s)) t r =
      topic_queue v (subscriptions s) t r @ on_topic t (published inputs) \<and>
    topic_missed v (subscriptions (run_loop ops bops inputs s)) t r =
      topic_missed v (subscriptions s) t r"
  using publish_all_lossless [OF assms] by (simp add: run_loop_subscriptions)

theorem subscriber_receives_exactly_witness:
  "map data (topic_queue queue_channel_view (subscriptions (run_loop sample_ops queue_channel_ops
     [sample_message 8, sample_message 9] subscribed_loop)) ''ALIVE'' 0) = [[8], [9]]"
proof -
  have "length (topic_queue queue_channel_view (subscriptions subscribed_loop) ''ALIVE'' 0) +
      length (on_topic ''ALIVE'' (published [sample_message 8, sample_message 9])) \<le>
      topic_room queue_channel_view (subscriptions subscribed_loop) ''ALIVE''"
    by (simp add: subscribed_loop_view on_topic_def sample_message_def)
  from subscriber_receives_exactly [OF queue_channel_ok subscribed_loop_view(1) this] show ?thesis
    by (simp add: subscribed_loop_view on_topic_def sample_message_def del: run_loop.simps)
qed

subsection \<open>Subscribe\<close>

lemma subscribe_call_state:
  assumes "grpc_subscribe w ops bops t name s = (Inr receiver, s')"
  shows "\<exists>subs. name \<noteq> [] \<and> subscribe bops name (subscriptions s) = (receiver, subs) \<and>
    delivery t = Handled \<and>
    subscriptions s' = publish_all bops (published (before t) @ published (afterwards t)) subs"
proof -
  obtain subs where sub: "subscribe bops name (subscriptions s) = (receiver, subs)" and name: "name \<noteq> []"
    and call: "\<exists>r. client_subscribe ops bops t name (s\<lparr>subscriptions := subs\<rparr>) = (Inr r, s')"
    using assms by (auto simp: grpc_subscribe_def split: if_splits prod.splits sum.splits)
  then have "delivery t = Handled"
    by (auto simp: client_subscribe_def send_command_and_wait_def Let_def split: delivery.splits)
  moreover from this call have "subscriptions s' =
      publish_all bops (published (before t) @ published (afterwards t)) subs"
    by (auto simp: client_subscribe_def send_command_and_wait_def Let_def run_loop_subscriptions
        command_frame publish_all_def simp del: handle_command.simps publish_all_simps
        split: delivery.splits)
  ultimately show ?thesis using sub name by blast
qed

text \<open>C8. No message falls between subscribing and streaming: once \<open>Subscribe\<close> succeeds, its
  stream yields exactly the messages on the topic that the event loop received while the handler
  waited, before and after it took the command, in order.\<close>

theorem subscribe_no_gap:
  assumes ok: "broadcast_ok bops v"
    and sub: "grpc_subscribe w ops bops t name s = (Inr receiver, s')"
    and room: "length (on_topic name (published (before t) @ published (afterwards t))) \<le>
      topic_room v (subscriptions s') name"
    and n: "length (on_topic name (published (before t) @ published (afterwards t))) < n"
  shows "\<exists>s''. subscribe_stream bops name receiver n s' =
    (map envelope_message (on_topic name (published (before t) @ published (afterwards t))), False, s'')"
proof -
  let ?es = "published (before t) @ published (afterwards t)"
  from subscribe_call_state [OF sub] obtain subs where
    subs: "subscribe bops name (subscriptions s) = (receiver, subs)"
    and s': "subscriptions s' = publish_all bops ?es subs" by blast
  note view = subscribe_view [OF ok subs]
  have r: "receiver \<in> topic_receivers v subs name" by (simp add: view)
  have fits: "length (topic_queue v subs name receiver) + length (on_topic name ?es) \<le> topic_room v subs name"
    using room by (simp add: view(3) s' publish_all_view [OF ok])
  from publish_all_lossless [OF ok r fits]
  have "topic_queue v (subscriptions s') name receiver = on_topic name ?es"
    "topic_missed v (subscriptions s') name receiver = 0"
    using subscribe_missed [OF ok subs] by (simp_all add: s' view(3))
  with subscribe_stream_drain [OF ok, of receiver s' name n] n r show ?thesis
    by (auto simp: s' publish_all_view [OF ok])
qed

theorem subscribe_no_gap_witness:
  "\<exists>receiver s' s''. grpc_subscribe sample_wire sample_ops queue_channel_ops
      (sample_turn 3 [sample_message 8]) ''ALIVE'' sample_loop = (Inr receiver, s') \<and>
    subscribe_stream queue_channel_ops ''ALIVE'' receiver 5 s' =
      (map envelope_message (on_topic ''ALIVE'' (published [sample_message 8])), False, s'')"
proof -
  let ?t = "sample_turn 3 [sample_message 8]"
  obtain receiver s' where sub: "grpc_subscribe sample_wire sample_ops queue_channel_ops ?t ''ALIVE''
      sample_loop = (Inr receiver, s')"
    and room: "topic_room queue_channel_view (subscriptions s') ''ALIVE'' = 4"
    by (simp add: grpc_subscribe_def client_subscribe_def send_command_and_wait_def sample_turn_def
        sample_message_def subscribe_def sample_loop_def event_loop_new_def subscriptions_new_def
        qc_new_def qc_subscribe_def answer_def handle_message_def publish_def qc_send_def
        topic_room_def queue_channel_view_def sample_reading_def Let_def)
  have "on_topic ''ALIVE'' (published (before ?t) @ published (afterwards ?t)) =
      on_topic ''ALIVE'' (published [sample_message 8])"
    "length (on_topic ''ALIVE'' (published [sample_message 8])) = 1"
    by (simp_all add: sample_turn_def sample_message_def on_topic_def)
  with subscribe_no_gap [OF queue_channel_ok sub, of 5] room sub show ?thesis by auto
qed

text \<open>A stream that fell behind says so once and goes on with the oldest retained message:
  it counts one \<open>subscriber_lagged\<close> event and yields the retained messages in order.\<close>

theorem lagged_stream_recovers:
  assumes "broadcast_ok bops v" "r \<in> topic_receivers v (subscriptions s) t"
    and "0 < topic_missed v (subscriptions s) t r"
    and "length (topic_queue v (subscriptions s) t r) + 1 < n"
  shows "\<exists>s'. subscribe_stream bops t r n s =
      (map envelope_message (topic_queue v (subscriptions s) t r), False, s') \<and>
    event_count (loop_metrics s') ''subscriber_lagged'' =
      event_count (loop_metrics s) ''subscriber_lagged'' + 1"
  using subscribe_stream_lagged [OF assms]
  by (auto simp: increment_event_def event_count_def)

definition lagged_loop :: "(swarm_call list, nat, queue_channel) event_loop" where
  "lagged_loop = run_loop sample_ops queue_channel_ops
     [sample_message 7, sample_message 8, sample_message 9] subscribed_loop"

lemma lagged_loop_view:
  "0 \<in> topic_receivers queue_channel_view (subscriptions lagged_loop) ''ALIVE''"
  "map data (topic_queue queue_channel_view (subscriptions lagged_loop) ''ALIVE'' 0) = [[8], [9]]"
  "topic_missed queue_channel_view (subscriptions lagged_loop) ''ALIVE'' 0 = 1"
proof -
  note view = publish_view [OF queue_channel_ok] subscribed_loop_view newest_def
  show "0 \<in> topic_receivers queue_channel_view (subscriptions lagged_loop) ''ALIVE''"
    "map data (topic_queue queue_channel_view (subscriptions lagged_loop) ''ALIVE'' 0) = [[8], [9]]"
    "topic_missed queue_channel_view (subscriptions lagged_loop) ''ALIVE'' 0 = 1"
    by (simp_all add: lagged_loop_def run_loop_subscriptions sample_message_def view
        del: run_loop.simps)
qed

theorem lagged_stream_recovers_witness:
  "\<exists>out s'. subscribe_stream queue_channel_ops ''ALIVE'' 0 5 lagged_loop = (out, False, s') \<and>
    map pe_payload out = [[8], [9]] \<and>
    event_count (loop_metrics s') ''subscriber_lagged'' =
      event_count (loop_metrics lagged_loop) ''subscriber_lagged'' + 1"
proof -
  let ?q = "topic_queue queue_channel_view (subscriptions lagged_loop) ''ALIVE'' 0"
  have "length (map data ?q) = 2" by (simp only: lagged_loop_view) simp
  then have "length ?q = 2" by simp
  moreover have "map pe_payload (map envelope_message ?q) = map data ?q"
    by (simp add: envelope_message_def)
  ultimately show ?thesis
    using lagged_stream_recovers [OF queue_channel_ok lagged_loop_view(1), of 5]
    by (auto simp: lagged_loop_view)
qed

subsection \<open>Publish\<close>

text \<open>What the swarm answers to a publish, and the state once the handler runs again.\<close>

definition publish_call ::
    "('w, 'p) swarm_ops \<Rightarrow> ('c, 'r) broadcast_ops \<Rightarrow> 'p turn \<Rightarrow> publish_request
      \<Rightarrow> ('w, 'p, 'c) event_loop \<Rightarrow> (publish_error + unit) \<times> ('w, 'p, 'c) event_loop" where
  "publish_call ops bops t req s =
     (let s1 = run_loop ops bops (before t) s
      in (fst (gs_publish ops (pr_topic req) (pr_payload req) (swarm s1)),
          run_loop ops bops (afterwards t) (handle_command ops (visit_order t)
            (PublishMessage (pr_topic req) (pr_payload req) (reply_to t)) s1)))"

lemma client_publish_result:
  assumes "fresh_turn ops bops t s"
  shows "client_publish ops bops t (pr_topic req) (pr_payload req) s =
    (case publish_call ops bops t req s of
       (res, s2) \<Rightarrow> (case res of Inr _ \<Rightarrow> Inr Done | Inl e \<Rightarrow> Inl (BoxedPublishError e), s2))"
proof -
  let ?s1 = "state_at_call ops bops t s"
  let ?res = "fst (gs_publish ops (pr_topic req) (pr_payload req) (swarm ?s1))"
  have "replies (handle_command ops (visit_order t)
      (PublishMessage (pr_topic req) (pr_payload req) (reply_to t)) ?s1) = replies ?s1 @
      [(reply_to t, case ?res of Inr _ \<Rightarrow> Inr Done | Inl e \<Rightarrow> Inl (BoxedPublishError e))]"
    by (simp add: answer_def split: prod.split)
  from call_answered [where command = "PublishMessage (pr_topic req) (pr_payload req)", OF assms this]
  show ?thesis
    by (simp add: client_publish_def publish_call_def state_at_call_def Let_def)
qed

text \<open>C25. What \<open>Publish\<close> does on every branch: a mesh without peers is not an error for the
  caller, it is counted as such and not as a sent message; a sent message is counted twice over
  (the total and the event); any other gossipsub error is an internal status that is counted;
  and the echo goes to the local subscribers exactly when it was asked for and the call
  succeeds.\<close>

theorem publish_branches:
  assumes "fresh_turn ops bops t s" and "pr_topic req \<noteq> []"
  shows "grpc_publish w ops bops rd me t req s =
    (case publish_call ops bops t req s of
       (res, s2) \<Rightarrow>
         let echo = (\<lambda>s. if pr_echo req
               then s\<lparr>subscriptions := snd (publish bops (echo_envelope rd me req) (subscriptions s))\<rparr>
               else s)
         in case res of
              Inr _ \<Rightarrow> (Inr (), echo (count_event ''message_published'' (count_sent s2)))
            | Inl NoPeersSubscribedToTopic \<Rightarrow> (Inr (), echo (count_event ''publish_no_peers'' s2))
            | Inl e \<Rightarrow> (Inl \<lparr>code = InternalCode, message_text = publish_error_text w e\<rparr>,
                 count_event ''publish_error'' s2))"
  using assms(2)
  by (cases "publish_call ops bops t req s")
    (auto simp: grpc_publish_def client_publish_result [OF assms(1)] internal_status_def Let_def
      split: sum.split publish_error.split)

theorem publish_branches_witness:
  "fst (grpc_publish sample_wire (recording_swarm (Inr ()) (Inl NoPeersSubscribedToTopic))
     queue_channel_ops sample_reading 1 (sample_turn 7 [])
     \<lparr>pr_topic = ''ALIVE'', pr_payload = [1], pr_echo = True\<rparr> sample_loop) = Inr ()"
  by (subst publish_branches [OF sample_fresh_turn])
    (simp_all add: publish_call_def recording_swarm_def sample_turn_def Let_def)

subsection \<open>Dial\<close>

lemma settles_reply: "settles ev = Some (p, r) \<Longrightarrow> r = Inr Done \<or> (\<exists>e. r = Inl (DialFailed e))"
  by (cases ev rule: settles.cases) (auto split: if_splits)

lemma dial_verdict_reply:
  "dial_verdict p inputs = Some r \<Longrightarrow> r = Inr Done \<or> (\<exists>e. r = Inl (DialFailed e))"
  by (induction p inputs rule: dial_verdict.induct)
    (use settles_reply in \<open>fastforce split: option.splits prod.splits if_splits\<close>)+

lemma dial_outcome_cases:
  "dial_outcome ops p as inputs s = Inr Done \<or> dial_outcome ops p as inputs s = Inl ChannelClosed \<or>
    (\<exists>e. dial_outcome ops p as inputs s = Inl (BoxedDialError e) \<or>
         dial_outcome ops p as inputs s = Inl (DialFailed e))"
proof -
  define later where "later = (case dial_verdict p inputs of Some r \<Rightarrow> r | None \<Rightarrow> Inl ChannelClosed)"
  have "later = Inr Done \<or> later = Inl ChannelClosed \<or> (\<exists>e. later = Inl (DialFailed e))"
    using dial_verdict_reply [of p inputs] by (auto simp: later_def split: option.split)
  then show ?thesis
    unfolding dial_outcome_def later_def [symmetric] Let_def
    by (auto split: sum.split dial_error.split)
qed

text \<open>C24. A \<open>Dial\<close> whose texts parse fails with FAILED_PRECONDITION exactly when the dialed peer
  has another identity, with NOT_FOUND for every other dial error, whether the swarm refused at
  once or the attempt failed later, and with INTERNAL only when the event loop ended; otherwise
  it succeeds.\<close>

theorem dial_status:
  assumes "peer_from_str w (dr_peer_id req) = Inr p" "addr_from_str w (dr_multiaddr req) = Inr a"
    and turn: "dial_turn ops bops t s"
  shows "map_sum code id (fst (grpc_dial w ops bops t req s)) =
    (case dial_outcome ops p [a] (afterwards t) (run_loop ops bops (before t) s) of
       Inr _ \<Rightarrow> Inr ()
     | Inl e \<Rightarrow> Inl (if e = ChannelClosed then InternalCode
         else if e = BoxedDialError WrongPeerId \<or> e = DialFailed WrongPeerId then FailedPrecondition
         else NotFoundCode))"
proof -
  have res: "fst (dial_and_wait ops bops t p [a] s) =
      dial_outcome ops p [a] (afterwards t) (run_loop ops bops (before t) s)"
    using dial_and_wait_result [OF turn] by (simp add: state_at_call_def)
  have dial: "fst (grpc_dial w ops bops t req s) =
      (case dial_outcome ops p [a] (afterwards t) (run_loop ops bops (before t) s) of
         Inl e \<Rightarrow> Inl (map_dial_error_to_status w e) | Inr _ \<Rightarrow> Inr ())"
    using assms(1,2) unfolding res [symmetric]
    by (simp add: grpc_dial_def parse_peer_id_def parse_multiaddr_def split: prod.split sum.split)
  have status: "code (map_dial_error_to_status w e) = (if e = BoxedDialError WrongPeerId \<or>
      e = DialFailed WrongPeerId then FailedPrecondition else NotFoundCode)"
    if "e = BoxedDialError d \<or> e = DialFailed d" for e d
    using that by (cases d) (auto simp: map_dial_error_to_status_def classify_dial_error_def)
  from dial_outcome_cases [of ops p "[a]" "afterwards t" "run_loop ops bops (before t) s"] show ?thesis
  proof (elim disjE exE)
    fix e
    assume "dial_outcome ops p [a] (afterwards t) (run_loop ops bops (before t) s) = Inl (BoxedDialError e)"
    then show ?thesis using status by (simp add: dial)
  next
    fix e
    assume "dial_outcome ops p [a] (afterwards t) (run_loop ops bops (before t) s) = Inl (DialFailed e)"
    then show ?thesis using status by (simp add: dial)
  qed (simp_all add: dial map_dial_error_to_status_def classify_dial_error_def internal_status_def)
qed

theorem dial_status_witness:
  "map_sum code id (fst (grpc_dial sample_wire sample_ops queue_channel_ops
     (sample_turn 7 [SwarmInput sample_reading (OutgoingConnectionError (Some 2) WrongPeerId)])
     \<lparr>dr_peer_id = ''pp'', dr_multiaddr = ''a''\<rparr> sample_loop)) = Inl FailedPrecondition"
  by (subst dial_status [OF _ _ sample_dial_turn])
    (simp_all add: sample_wire_def dial_outcome_def sample_turn_def sample_loop_def
      event_loop_new_def Let_def)

text \<open>A \<open>Dial\<close> with a peer id or an address that does not parse, and a \<open>Publish\<close> or a
  \<open>Subscribe\<close> with an empty topic, are refused with INVALID_ARGUMENT and change nothing: no
  command is sent, nothing is counted, no receiver is created.\<close>

theorem bad_requests_refused:
  assumes "peer_from_str w (dr_peer_id req) = Inl e \<or> addr_from_str w (dr_multiaddr req) = Inl e"
    and "pr_topic preq = []"
  shows "map_prod (map_sum code id) id (grpc_dial w ops bops t req s) = (Inl InvalidArgument, s) \<and>
    map_prod (map_sum code id) id (grpc_publish w ops bops rd me t preq s) = (Inl InvalidArgument, s) \<and>
    map_prod (map_sum code id) id (grpc_subscribe w ops bops t [] s) = (Inl InvalidArgument, s)"
  using assms
  by (auto simp: grpc_dial_def parse_peer_id_def parse_multiaddr_def grpc_publish_def
      grpc_subscribe_def invalid_argument_def split: sum.splits)

theorem bad_requests_refused_witness:
  "map_prod (map_sum code id) id (grpc_dial sample_wire sample_ops queue_channel_ops
     (sample_turn 7 []) \<lparr>dr_peer_id = ''pp'', dr_multiaddr = ''b''\<rparr> sample_loop) =
   (Inl InvalidArgument, sample_loop)"
  by (rule conjunct1 [OF bad_requests_refused [where e = "''bad''" and
        preq = "\<lparr>pr_topic = [], pr_payload = [], pr_echo = False\<rparr>"]])
    (simp_all add: sample_wire_def)

subsection \<open>Preferred peers and the peer list\<close>

text \<open>Lenient parsing keeps one entry per peer id that parses and no other: every valid id
  appears exactly once, with the valid addresses of its first entry.\<close>

theorem lenient_parsing:
  "distinct (map fst (lenient_peers w {} req)) \<and>
   fst ` set (lenient_peers w {} req) = set (valid_ids w req) \<and>
   (\<forall>(p, as) \<in> set (lenient_peers w {} req). first_entry w req p as)"
  using lenient_peers_ids [of w "{}" req] by (auto dest: lenient_peers_first)

theorem lenient_parsing_witness:
  "lenient_peers sample_wire {}
     [\<lparr>pp_peer_id = ''p'', pp_multiaddrs = [''a'', ''b'']\<rparr>, \<lparr>pp_peer_id = [], pp_multiaddrs = []\<rparr>,
      \<lparr>pp_peer_id = ''q'', pp_multiaddrs = []\<rparr>] = [(1, [[Ip4 (Ipv4 10 0 0 9), Tcp 4025]])] \<and>
   distinct (map fst (lenient_peers sample_wire {} [\<lparr>pp_peer_id = ''p'', pp_multiaddrs = []\<rparr>]))"
  using lenient_parsing [of sample_wire "[\<lparr>pp_peer_id = ''p'', pp_multiaddrs = []\<rparr>]"]
  by (simp add: sample_wire_def valid_addrs_def map_filter_simps)

text \<open>\<open>SetPreferredPeers\<close> end to end: the answer counts the distinct valid peers up to the
  cap as accepted and the rest as truncated, entries that do not parse counting as neither; and
  right after the loop took the command the dial hints are those of the accepted entries.\<close>

theorem set_preferred_counts:
  assumes fresh: "fresh_turn ops bops t s"
  shows "let wanted = lenient_peers w {} req; s1 = run_loop ops bops (before t) s;
      cap = protected_cap (settings s1);
      s2 = handle_command ops (visit_order t) (SetPreferredPeers wanted (reply_to t)) s1
    in grpc_set_preferred_peers w ops bops t req s =
         (Inr (of_nat (min cap (card (set (valid_ids w req)))),
               of_nat (card (set (valid_ids w req)) - cap)), run_loop ops bops (afterwards t) s2) \<and>
       dial_hints s2 = insert_all (take cap wanted) Map.empty"
proof -
  let ?wanted = "lenient_peers w {} req" and ?s1 = "state_at_call ops bops t s"
  have len: "length ?wanted = card (set (valid_ids w req))"
    using lenient_peers_ids [of w "{}" req] by (metis Diff_empty distinct_card length_map list.set_map)
  have ans: "replies (handle_command ops (visit_order t) (SetPreferredPeers ?wanted (reply_to t)) ?s1) =
      replies ?s1 @ [(reply_to t, Inr (AcceptedTruncated
        (of_nat (length (take (protected_cap (settings ?s1)) ?wanted)))
        (of_nat (length ?wanted - protected_cap (settings ?s1)))))]"
    by (simp only: handle_command.simps handle_set_preferred_result)
  from call_answered [where command = "SetPreferredPeers ?wanted", OF fresh ans]
  show ?thesis
    by (simp add: grpc_set_preferred_peers_def client_set_preferred_peers_def typed_reply_def
        state_at_call_def Let_def len min.commute handle_set_preferred_result(2))
qed

theorem set_preferred_counts_witness:
  "fst (grpc_set_preferred_peers sample_wire sample_ops queue_channel_ops (sample_turn 7 [])
     [\<lparr>pp_peer_id = ''p'', pp_multiaddrs = [''a'']\<rparr>, \<lparr>pp_peer_id = [], pp_multiaddrs = []\<rparr>,
      \<lparr>pp_peer_id = ''qq'', pp_multiaddrs = []\<rparr>, \<lparr>pp_peer_id = ''qqq'', pp_multiaddrs = []\<rparr>]
     sample_loop) = Inr (2, 1)"
proof -
  let ?req = "[\<lparr>pp_peer_id = ''p'', pp_multiaddrs = [''a'']\<rparr>, \<lparr>pp_peer_id = [], pp_multiaddrs = []\<rparr>,
      \<lparr>pp_peer_id = ''qq'', pp_multiaddrs = []\<rparr>, \<lparr>pp_peer_id = ''qqq'', pp_multiaddrs = []\<rparr>]"
  have "set (valid_ids sample_wire ?req) = {Suc 0, Suc (Suc 0), Suc (Suc (Suc 0))}" by (simp add: sample_wire_def)
  moreover have "run_loop sample_ops queue_channel_ops (before (sample_turn 7 [])) sample_loop = sample_loop"
    "settings sample_loop = sample_settings"
    by (simp_all add: sample_turn_def sample_loop_def event_loop_new_def)
  ultimately show ?thesis
    using set_preferred_counts [OF sample_fresh_turn [of sample_ops queue_channel_ops 7 "[]"],
        of sample_wire ?req]
    unfolding Let_def by (simp only: sample_cap) simp
qed

lemma entries_iterated:
  "set ks \<subseteq> dom m \<Longrightarrow> entries m ks = map (\<lambda>k. (k, the (m k))) ks"
  by (induction ks) (auto simp: entries_def map_filter_simps)

text \<open>C33. \<open>GetPeers\<close> lists every connected peer once, with the addresses of the connection
  table, its score, and a flag that is true exactly for the protected peers, bootstrap peers
  included.\<close>

theorem get_peers_exact:
  assumes fresh: "fresh_turn ops bops t s"
    and ord: "iterates (dom (connected (run_loop ops bops (before t) s))) (visit_order t)"
  shows "let s1 = run_loop ops bops (before t) s
    in fst (grpc_get_peers w ops bops rd t s) =
      Inr (map (\<lambda>p. \<lparr>pi_peer_id = peer_to_string rd p,
             pi_multiaddrs = map (addr_to_string rd) (the (connected s1 p)),
             pi_preferred = (p \<in> protected s1),
             pi_score = (case gs_peer_score ops (swarm s1) p of None \<Rightarrow> 0 | Some x \<Rightarrow> x)\<rparr>)
        (visit_order t))"
proof -
  let ?s1 = "state_at_call ops bops t s"
  have "set (visit_order t) \<subseteq> dom (connected ?s1)"
    using iterates_set [OF ord] by (simp add: state_at_call_def)
  note ents = entries_iterated [OF this]
  have ans: "replies (handle_command ops (visit_order t) (GetPeers (reply_to t)) ?s1) =
      replies ?s1 @ [(reply_to t, Inr (PeersOf (peer_snapshots ops (visit_order t) ?s1)))]"
    by (simp add: answer_def)
  from call_answered [where command = GetPeers, OF fresh ans] show ?thesis
    by (simp add: grpc_get_peers_def client_get_peers_def typed_reply_def Let_def
        peer_snapshots_def ents) (simp add: state_at_call_def)
qed

theorem get_peers_exact_witness:
  "fst (grpc_get_peers sample_wire sample_ops queue_channel_ops sample_reading
     \<lparr>before = [SwarmInput sample_reading (ConnectionEstablished 2 (sample_endpoint False 1) 0)],
      delivery = Handled, visit_order = [2], reply_to = 7, afterwards = []\<rparr> sample_loop) =
   Inr [\<lparr>pi_peer_id = ''pp'', pi_multiaddrs = [''a''], pi_preferred = False, pi_score = 0\<rparr>]"
proof -
  let ?t = "\<lparr>before = [SwarmInput sample_reading (ConnectionEstablished 2 (sample_endpoint False 1) 0)],
      delivery = Handled, visit_order = [2], reply_to = 7, afterwards = []\<rparr>"
  have start: "connected sample_loop = Map.empty" "replies sample_loop = []" "protected sample_loop = {1}"
    by (simp_all add: sample_loop_def event_loop_new_def)
  have fresh: "fresh_turn sample_ops queue_channel_ops ?t sample_loop"
    by (simp add: fresh_turn_def handle_established_dials start sample_endpoint_def)
  have ord: "iterates (dom (connected (run_loop sample_ops queue_channel_ops (before ?t) sample_loop)))
      (visit_order ?t)"
    by (simp add: iterates_def start)
  show ?thesis
    using get_peers_exact [OF fresh ord, of sample_wire sample_reading]
    by (simp add: start sample_reading_def sample_ops_def recording_swarm_def numeral_2_eq_2)
qed

end
