(* ===== verification/Http_Endpoints.thy ===== *)
theory Http_Endpoints
  imports Metrics
begin

section \<open>The HTTP endpoints (src/http)\<close>

text \<open>
  The two handlers behind \<open>/metrics\<close> and \<open>/health\<close>, and the routing of a GET request to them.
  prometheus-client's text encoder, the printed peer id and chrono's timestamp are arguments;
  the JSON body is its list of fields.
\<close>

datatype http_response =
    HttpText string string
  | HttpJson "(string \<times> string) list"
  | HttpInternalError string
  | HttpNotFound

definition metrics_endpoint ::
    "'e + string \<Rightarrow> (metrics \<Rightarrow> string + string) \<Rightarrow> metrics \<Rightarrow> http_response \<times> metrics" where
  "metrics_endpoint status encode m =
     (let m1 = m\<lparr>http_requests_total := http_requests_total m + 1\<rparr>;
          m2 = update_memory_usage status m1
      in (case encode m2 of
            Inl e \<Rightarrow> HttpInternalError (''Failed to encode metrics: '' @ e)
          | Inr buffer \<Rightarrow> HttpText ''text/plain; version=0.0.4; charset=utf-8'' buffer, m2))"

definition health_endpoint :: "string \<Rightarrow> string \<Rightarrow> metrics \<Rightarrow> http_response \<times> metrics" where
  "health_endpoint peer_id now m =
     (HttpJson [(''status'', ''healthy''), (''peer_id'', peer_id), (''timestamp'', now)],
      m\<lparr>http_requests_total := http_requests_total m + 1\<rparr>)"

definition http_route ::
    "string \<Rightarrow> string \<Rightarrow> 'e + string \<Rightarrow> (metrics \<Rightarrow> string + string) \<Rightarrow> string \<Rightarrow> metrics
      \<Rightarrow> http_response \<times> metrics" where
  "http_route peer_id now status encode path m =
     (if path = ''/metrics'' then metrics_endpoint status encode m
      else if path = ''/health'' then health_endpoint peer_id now m
      else (HttpNotFound, m))"

end
