(* ===== verification/Grpc_Concurrent.thy ===== *)
theory Grpc_Concurrent
  imports Grpc_Service Http_Endpoints
begin

section \<open>The handlers of the service side by side (src/grpc.rs)\<close>

text \<open>
  \<open>Grpc_Service\<close> runs one handler at a time. Here every handler is cut at its only await on the
  event loop, and the pieces interleave: network events, commands taken from the channel, calls
  that start, return or are cancelled, polls of response streams, and the HTTP endpoints. The
  state is the network of \<open>Event_Loop_Network\<close> with the commands in flight and the tasks that
  wait. A task is named by the number of its \<open>oneshot\<close> sender, which is never reused. The
  envelopes handed to the registry are recorded in \<open>history\<close>; no step reads it.
\<close>

subsection \<open>The handlers, cut where they wait\<close>

text \<open>The rest of \<open>publish\<close> once the event loop has answered.\<close>

definition publish_failed :: "'p reply \<Rightarrow> boxed_error option" where
  "publish_failed r =
     (case r of
        Inr _ \<Rightarrow> None
      | Inl e \<Rightarrow> if e = BoxedPublishError NoPeersSubscribedToTopic then None else Some e)"

definition publish_counted :: "'p reply \<Rightarrow> ('w, 'p, 'c) event_loop \<Rightarrow> ('w, 'p, 'c) event_loop" where
  "publish_counted r s =
     (case r of
        Inr _ \<Rightarrow> count_event ''message_published'' (count_sent s)
      | Inl _ \<Rightarrow> count_event ''publish_no_peers'' s)"

definition publish_finish ::
    "'p wire \<Rightarrow> ('c, 'r) broadcast_ops \<Rightarrow> 'p reading \<Rightarrow> 'p \<Rightarrow> publish_request \<Rightarrow> 'p reply
      \<Rightarrow> ('w, 'p, 'c) event_loop \<Rightarrow> (status + unit) \<times> ('w, 'p, 'c) event_loop" where
  "publish_finish w bops rd local_peer_id req r s =
     (case publish_failed r of
        Some e \<Rightarrow> (Inl (internal_status w e), count_event ''publish_error'' s)
      | None \<Rightarrow>
          (let s1 = publish_counted r s
           in (Inr (),
               if pr_echo req
               then s1\<lparr>subscriptions :=
                 snd (publish bops (echo_envelope rd local_peer_id req) (subscriptions s1))\<rparr>
               else s1)))"

text \<open>The rest of \<open>subscribe\<close>.\<close>

definition subscribe_finish ::
    "'p wire \<Rightarrow> ('c, 'r) broadcast_ops \<Rightarrow> string \<Rightarrow> 'r \<Rightarrow> 'p reply
      \<Rightarrow> ('w, 'p, 'c) event_loop \<Rightarrow> (status + 'r) \<times> ('w, 'p, 'c) event_loop" where
  "subscribe_finish w bops topic_name receiver r s =
     (case r of
        Inl e \<Rightarrow>
          (Inl (internal_status w e),
           s\<lparr>subscriptions := drop_receiver bops topic_name receiver (subscriptions s)\<rparr>)
      | Inr _ \<Rightarrow> (Inr receiver, s))"

text \<open>One turn of the response stream's loop.\<close>

datatype stream_item = Yields envelope | Skips nat | Ends | Waits

definition stream_poll ::
    "('c, 'r) broadcast_ops \<Rightarrow> string \<Rightarrow> 'r \<Rightarrow> ('w, 'p, 'c) event_loop
      \<Rightarrow> stream_item \<times> ('w, 'p, 'c) event_loop" where
  "stream_poll bops topic_name receiver s =
     (case receive bops topic_name receiver (subscriptions s) of
        (res, subs) \<Rightarrow>
          (let s1 = s\<lparr>subscriptions := subs\<rparr>
           in case res of
                Received envelope \<Rightarrow> (Yields envelope, s1)
              | Lagged k \<Rightarrow> (Skips k, count_event ''subscriber_lagged'' s1)
              | Closed \<Rightarrow> (Ends, s1)
              | Pending \<Rightarrow> (Waits, s1)))"

text \<open>The pieces are the handlers of \<open>Grpc_Service\<close>.\<close>

lemma grpc_publish_cut:
  "grpc_publish w ops bops rd local_peer_id t req s =
     (if pr_topic req = [] then (Inl (invalid_argument ''topic must not be empty''), s)
      else case client_publish ops bops t (pr_topic req) (pr_payload req) s of
        (r, s1) \<Rightarrow> publish_finish w bops rd local_peer_id req r s1)"
proof -
  obtain r s1 where "client_publish ops bops t (pr_topic req) (pr_payload req) s = (r, s1)" by fastforce
  then show ?thesis
    by (cases r) (auto simp: grpc_publish_def publish_finish_def publish_failed_def
        publish_counted_def Let_def)
qed

lemma grpc_subscribe_cut:
  "grpc_subscribe w ops bops t topic_name s =
     (if topic_name = [] then (Inl (invalid_argument ''topic must not be empty''), s)
      else case subscribe bops topic_name (subscriptions s) of
        (receiver, subs) \<Rightarrow>
          (case client_subscribe ops bops t topic_name (s\<lparr>subscriptions := subs\<rparr>) of
             (r, s1) \<Rightarrow> subscribe_finish w bops topic_name receiver r s1))"
  by (simp add: grpc_subscribe_def subscribe_finish_def split: prod.split sum.split)

lemma subscribe_stream_cut:
  "subscribe_stream bops t r (Suc n) s =
     (case stream_poll bops t r s of
        (Yields e, s1) \<Rightarrow>
          (case subscribe_stream bops t r n s1 of (out, fin, s2) \<Rightarrow> (envelope_message e # out, fin, s2))
      | (Skips k, s1) \<Rightarrow> subscribe_stream bops t r n s1
      | (Ends, s1) \<Rightarrow> ([], True, s1)
      | (Waits, s1) \<Rightarrow> ([], False, s1))"
  by (simp add: stream_poll_def Let_def split: prod.split recv_result.split)

text \<open>What the rest of \<open>publish\<close> hands to the registry, and what it counts.\<close>

definition echoed :: "'p reading \<Rightarrow> 'p \<Rightarrow> publish_request \<Rightarrow> 'p reply \<Rightarrow> envelope list" where
  "echoed rd local_peer_id req r =
     (if publish_failed r = None \<and> pr_echo req then [echo_envelope rd local_peer_id req] else [])"

lemma publish_finish_subscriptions:
  "publish_finish w bops rd lp req r s = (res, s') \<Longrightarrow>
     subscriptions s' = publish_all bops (echoed rd lp req r) (subscriptions s)"
  by (auto simp: publish_finish_def publish_counted_def echoed_def count_event_def count_sent_def
      Let_def split: option.splits sum.splits if_splits)

subsection \<open>The system\<close>

text \<open>
  A subscription of the gRPC service: its topic and receiver, the length of the history when it
  was made, and what its stream has yielded and skipped so far.
\<close>

record 'r subscription =
  sub_topic :: string
  sub_receiver :: 'r
  sub_since :: nat
  sub_yielded :: "envelope list"
  sub_lost :: nat

datatype ('p, 'r) rpc_task =
    PublishCall publish_request
  | SubscribeCall "'r subscription"
  | StreamOpen "'r subscription"
  | OtherCall "'p command"

text \<open>The command a task that waits has sent.\<close>

fun command_of :: "sender \<Rightarrow> ('p, 'r) rpc_task \<Rightarrow> 'p command option" where
  "command_of sd (PublishCall req) = Some (PublishMessage (pr_topic req) (pr_payload req) sd)"
| "command_of sd (SubscribeCall sub) = Some (Subscribe (sub_topic sub) sd)"
| "command_of sd (OtherCall c) = Some c"
| "command_of sd (StreamOpen sub) = None"

record ('w, 'p, 'c, 'r) system =
  net :: "('w, 'p, 'c) network"
  in_flight :: "'p command list"
  tasks :: "sender \<rightharpoonup> ('p, 'r) rpc_task"
  next_sender :: sender
  history :: "envelope list"

abbreviation loop_of :: "('w, 'p, 'c, 'r) system \<Rightarrow> ('w, 'p, 'c) event_loop" where
  "loop_of n \<equiv> event_loop (net n)"

definition with_loop ::
    "('w, 'p, 'c) event_loop \<Rightarrow> ('w, 'p, 'c, 'r) system \<Rightarrow> ('w, 'p, 'c, 'r) system" where
  "with_loop s n = n\<lparr>net := (net n)\<lparr>event_loop := s\<rparr>\<rparr>"

text \<open>\<open>send_command_and_wait\<close> up to its await: the command is sent and the task waits.\<close>

definition start_call ::
    "'p command \<Rightarrow> ('p, 'r) rpc_task \<Rightarrow> ('w, 'p, 'c, 'r) system \<Rightarrow> ('w, 'p, 'c, 'r) system" where
  "start_call c tk n =
     n\<lparr>in_flight := in_flight n @ [c], tasks := (tasks n)(next_sender n \<mapsto> tk),
       next_sender := Suc (next_sender n)\<rparr>"

definition set_task ::
    "sender \<Rightarrow> ('p, 'r) rpc_task option \<Rightarrow> ('w, 'p, 'c, 'r) system \<Rightarrow> ('w, 'p, 'c, 'r) system" where
  "set_task sd tk n = n\<lparr>tasks := (tasks n)(sd := tk)\<rparr>"

definition hand_out :: "envelope list \<Rightarrow> ('w, 'p, 'c, 'r) system \<Rightarrow> ('w, 'p, 'c, 'r) system" where
  "hand_out es n = n\<lparr>history := history n @ es\<rparr>"

fun after_poll :: "stream_item \<Rightarrow> 'r subscription \<Rightarrow> ('p, 'r) rpc_task option" where
  "after_poll (Yields e) sub = Some (StreamOpen (sub\<lparr>sub_yielded := sub_yielded sub @ [e]\<rparr>))"
| "after_poll (Skips k) sub = Some (StreamOpen (sub\<lparr>sub_lost := sub_lost sub + k\<rparr>))"
| "after_poll Ends sub = None"
| "after_poll Waits sub = Some (StreamOpen sub)"

text \<open>A task that is dropped drops the receiver it holds.\<close>

fun release :: "('c, 'r) broadcast_ops \<Rightarrow> ('p, 'r) rpc_task \<Rightarrow> ('w, 'p, 'c) event_loop \<Rightarrow> ('w, 'p, 'c) event_loop" where
  "release bops (SubscribeCall sub) s =
     s\<lparr>subscriptions := drop_receiver bops (sub_topic sub) (sub_receiver sub) (subscriptions s)\<rparr>"
| "release bops (StreamOpen sub) s =
     s\<lparr>subscriptions := drop_receiver bops (sub_topic sub) (sub_receiver sub) (subscriptions s)\<rparr>"
| "release bops (PublishCall req) s = s"
| "release bops (OtherCall c) s = s"

text \<open>The swarm's events, as libp2p announces them (\<open>net_step\<close>).\<close>

inductive net_event ::
    "('w, 'p) swarm_ops \<Rightarrow> ('c, 'r) broadcast_ops \<Rightarrow> 'p reading \<Rightarrow> 'p swarm_event
      \<Rightarrow> ('w, 'p, 'c) network \<Rightarrow> ('w, 'p, 'c) network \<Rightarrow> bool"
  for ops bops rd where
  opens: "i \<notin> fst ` set (live n) \<Longrightarrow>
     net_event ops bops rd (ConnectionEstablished p ep i) n
       \<lparr>event_loop = handle_event ops bops rd (ConnectionEstablished p ep i) (event_loop n),
        live = (i, p, ep) # live n\<rparr>"
| closes: "(i, p, ep) \<in> set (live n) \<Longrightarrow> L = remove1 (i, p, ep) (live n) \<Longrightarrow>
     net_event ops bops rd (ConnectionClosed p ep (length (live_of p L))) n
       \<lparr>event_loop = handle_event ops bops rd
          (ConnectionClosed p ep (length (live_of p L))) (event_loop n),
        live = L\<rparr>"
| others: "\<not> is_connection_event ev \<Longrightarrow>
     net_event ops bops rd ev n
       \<lparr>event_loop = handle_event ops bops rd ev (event_loop n), live = live n\<rparr>"

lemma net_event_step: "net_event ops bops rd ev n n' \<Longrightarrow> net_step ops bops n n'"
  by (cases rule: net_event.cases) (auto intro: net_step.intros simp del: handle_event.simps)

lemma net_event_loop:
  "net_event ops bops rd ev n n' \<Longrightarrow> event_loop n' = handle_event ops bops rd ev (event_loop n)"
  by (cases rule: net_event.cases) (auto simp del: handle_event.simps)

text \<open>
  One step of the process. The commands sent and not yet taken are taken in any order: the channel
  is a queue, but a call whose sender is not ready waits before its command enters it, so the order
  of the calls is not that of the commands. A waiting task may be cancelled at any time. Calls
  of \<open>publish\<close> and \<open>subscribe\<close> with an empty topic return without a step. \<open>OtherCall\<close> is every
  other use of the client: the handlers whose rest only translates the answer, the
  maintenance task and the calls of \<open>main\<close>.
\<close>

inductive sys_step ::
    "'p wire \<Rightarrow> ('w, 'p) swarm_ops \<Rightarrow> ('c, 'r) broadcast_ops \<Rightarrow> 'p
      \<Rightarrow> ('w, 'p, 'c, 'r) system \<Rightarrow> ('w, 'p, 'c, 'r) system \<Rightarrow> bool"
  for w ops bops local_peer_id where
  network_event: "net_event ops bops rd ev (net n) m \<Longrightarrow>
     sys_step w ops bops local_peer_id n (hand_out (published [SwarmInput rd ev]) (n\<lparr>net := m\<rparr>))"
| take_command: "in_flight n = q1 @ c # q2 \<Longrightarrow> order_ok c (loop_of n) ord \<Longrightarrow>
     sys_step w ops bops local_peer_id n
       (with_loop (handle_command ops ord c (loop_of n)) (n\<lparr>in_flight := q1 @ q2\<rparr>))"
| publish_call: "pr_topic req \<noteq> [] \<Longrightarrow>
     sys_step w ops bops local_peer_id n
       (start_call (PublishMessage (pr_topic req) (pr_payload req) (next_sender n)) (PublishCall req) n)"
| publish_return: "tasks n sd = Some (PublishCall req) \<Longrightarrow>
     map_of (replies (loop_of n)) sd = Some r \<Longrightarrow>
     publish_finish w bops rd local_peer_id req r (loop_of n) = (res, s) \<Longrightarrow>
     sys_step w ops bops local_peer_id n
       (hand_out (echoed rd local_peer_id req r) (set_task sd None (with_loop s n)))"
| subscribe_call: "t \<noteq> [] \<Longrightarrow> subscribe bops t (subscriptions (loop_of n)) = (receiver, subs) \<Longrightarrow>
     sys_step w ops bops local_peer_id n
       (start_call (Subscribe t (next_sender n))
          (SubscribeCall \<lparr>sub_topic = t, sub_receiver = receiver, sub_since = length (history n),
             sub_yielded = [], sub_lost = 0\<rparr>)
          (with_loop ((loop_of n)\<lparr>subscriptions := subs\<rparr>) n))"
| subscribe_return: "tasks n sd = Some (SubscribeCall sub) \<Longrightarrow>
     map_of (replies (loop_of n)) sd = Some r \<Longrightarrow>
     subscribe_finish w bops (sub_topic sub) (sub_receiver sub) r (loop_of n) = (Inr receiver, s) \<Longrightarrow>
     sys_step w ops bops local_peer_id n
       (set_task sd (Some (StreamOpen (sub\<lparr>sub_receiver := receiver\<rparr>))) (with_loop s n))"
| subscribe_error: "tasks n sd = Some (SubscribeCall sub) \<Longrightarrow>
     map_of (replies (loop_of n)) sd = Some r \<Longrightarrow>
     subscribe_finish w bops (sub_topic sub) (sub_receiver sub) r (loop_of n) = (Inl st, s) \<Longrightarrow>
     sys_step w ops bops local_peer_id n (set_task sd None (with_loop s n))"
| poll: "tasks n sd = Some (StreamOpen sub) \<Longrightarrow>
     stream_poll bops (sub_topic sub) (sub_receiver sub) (loop_of n) = (item, s) \<Longrightarrow>
     sys_step w ops bops local_peer_id n (set_task sd (after_poll item sub) (with_loop s n))"
| cancel: "tasks n sd = Some tk \<Longrightarrow>
     sys_step w ops bops local_peer_id n
       (set_task sd None (with_loop (release bops tk (loop_of n)) n))"
| other_call: "sender_of c = next_sender n \<Longrightarrow>
     sys_step w ops bops local_peer_id n (start_call c (OtherCall c) n)"
| other_return: "tasks n sd = Some (OtherCall c) \<Longrightarrow> map_of (replies (loop_of n)) sd = Some r \<Longrightarrow>
     sys_step w ops bops local_peer_id n (set_task sd None n)"
| http_request: "http_route peer now (file :: string + string) encode path (loop_metrics (loop_of n)) = (resp, m) \<Longrightarrow>
     sys_step w ops bops local_peer_id n (with_loop ((loop_of n)\<lparr>loop_metrics := m\<rparr>) n)"

text \<open>The start: the loop \<open>initial_loop\<close> builds, no connection, no call.\<close>

definition sys_start :: "('w, 'p, 'c, 'r) system \<Rightarrow> bool" where
  "sys_start n \<longleftrightarrow> live (net n) = [] \<and> in_flight n = [] \<and> tasks n = Map.empty \<and>
     next_sender n = 0 \<and> history n = [] \<and>
     (\<exists>w k store cfg boots. finite boots \<and>
        loop_of n = event_loop_new w (subscriptions_new k) metrics_new store cfg boots)"

definition sys_reachable ::
    "'p wire \<Rightarrow> ('w, 'p) swarm_ops \<Rightarrow> ('c, 'r) broadcast_ops \<Rightarrow> 'p
      \<Rightarrow> ('w, 'p, 'c, 'r) system \<Rightarrow> bool" where
  "sys_reachable w ops bops local_peer_id n \<longleftrightarrow>
     (\<exists>n0. sys_start n0 \<and> (sys_step w ops bops local_peer_id)\<^sup>*\<^sup>* n0 n)"

end
