(* ===== verification/System_Invariants.thy ===== *)
theory System_Invariants
  imports Grpc_Concurrent
begin

section \<open>Invariants of the interleaved system\<close>

text \<open>
  What every step of \<open>Grpc_Concurrent\<close> keeps: the invariants of the network, which the handlers
  do not disturb; the account of the \<open>oneshot\<close> senders; and the place of every subscriber in its
  topic's messages. Each is an interpretation of \<open>invariant_system\<close> on the system's steps.
\<close>

lemmas system_defs = with_loop_def start_call_def set_task_def hand_out_def

lemma with_loop_simps [simp]:
  "loop_of (with_loop s n) = s" "live (net (with_loop s n)) = live (net n)"
  "in_flight (with_loop s n) = in_flight n" "tasks (with_loop s n) = tasks n"
  "next_sender (with_loop s n) = next_sender n" "history (with_loop s n) = history n"
  by (simp_all add: with_loop_def)

lemma set_task_simps [simp]:
  "net (set_task sd tk n) = net n" "in_flight (set_task sd tk n) = in_flight n"
  "tasks (set_task sd tk n) = (tasks n)(sd := tk)" "next_sender (set_task sd tk n) = next_sender n"
  "history (set_task sd tk n) = history n"
  by (simp_all add: set_task_def)

lemma start_call_simps [simp]:
  "net (start_call c tk n) = net n" "in_flight (start_call c tk n) = in_flight n @ [c]"
  "tasks (start_call c tk n) = (tasks n)(next_sender n \<mapsto> tk)"
  "next_sender (start_call c tk n) = Suc (next_sender n)" "history (start_call c tk n) = history n"
  by (simp_all add: start_call_def)

lemma hand_out_simps [simp]:
  "net (hand_out es n) = net n" "in_flight (hand_out es n) = in_flight n"
  "tasks (hand_out es n) = tasks n" "next_sender (hand_out es n) = next_sender n"
  "history (hand_out es n) = history n @ es"
  by (simp_all add: hand_out_def)

subsection \<open>The network inside the system\<close>

text \<open>The handlers touch the shared subscriptions and counters only.\<close>

definition core_eq :: "('w, 'p, 'c) event_loop \<Rightarrow> ('w, 'p, 'c) event_loop \<Rightarrow> bool" where
  "core_eq s s' \<longleftrightarrow>
     swarm s' = swarm s \<and> pending_dials s' = pending_dials s \<and> peerstore s' = peerstore s \<and>
     settings s' = settings s \<and> limits s' = limits s \<and> connected s' = connected s \<and>
     protected s' = protected s \<and> bootstrap_peers s' = bootstrap_peers s \<and>
     dial_hints s' = dial_hints s \<and> replies s' = replies s \<and>
     connected_peers (loop_metrics s') = connected_peers (loop_metrics s)"

lemma core_eq_refl [simp]: "core_eq s s"
  by (simp add: core_eq_def)

lemma core_eq_subscriptions [simp]: "core_eq s (s\<lparr>subscriptions := subs\<rparr>)"
  by (simp add: core_eq_def)

lemma core_eq_metrics:
  "connected_peers m = connected_peers (loop_metrics s) \<Longrightarrow> core_eq s (s\<lparr>loop_metrics := m\<rparr>)"
  by (simp add: core_eq_def)

lemma publish_finish_core: "publish_finish w bops rd lp req r s = (res, s') \<Longrightarrow> core_eq s s'"
  by (auto simp: publish_finish_def publish_counted_def count_event_def count_sent_def
      increment_event_def core_eq_def Let_def split: option.splits sum.splits if_splits)

lemma subscribe_finish_core: "subscribe_finish w bops t q r s = (res, s') \<Longrightarrow> core_eq s s'"
  by (auto simp: subscribe_finish_def split: sum.splits)

lemma stream_poll_core: "stream_poll bops t q s = (item, s') \<Longrightarrow> core_eq s s'"
  by (auto simp: stream_poll_def count_event_def increment_event_def core_eq_def Let_def
      split: prod.splits recv_result.splits)

lemma release_core [simp]: "core_eq s (release bops tk s)"
  by (cases tk) simp_all

lemma http_route_peers:
  "http_route peer now file encode path m = (resp, m') \<Longrightarrow>
     connected_peers m' = connected_peers m \<and> total_messages_sent m' = total_messages_sent m \<and>
     p2p_events m' = p2p_events m"
  by (auto simp: http_route_def metrics_endpoint_def health_endpoint_def update_memory_usage_def
      Let_def split: if_splits sum.splits)

lemma sys_step_net:
  assumes "sys_step w ops bops lp n t"
  shows "net_step ops bops (net n) (net t) \<or>
    live (net t) = live (net n) \<and> core_eq (loop_of n) (loop_of t)"
  using assms
proof (cases rule: sys_step.cases)
  case (network_event rd ev m)
  then show ?thesis by (auto dest: net_event_step)
next
  case (take_command q1 c q2 ord)
  have "net_step ops bops (net n)
      \<lparr>event_loop = handle_command ops ord c (loop_of n), live = live (net n)\<rparr>"
    using take_command(3) by (rule net_step.command)
  moreover have "net t = \<lparr>event_loop = handle_command ops ord c (loop_of n), live = live (net n)\<rparr>"
    using take_command(1) by (simp add: with_loop_def)
  ultimately show ?thesis by simp
qed (auto dest: publish_finish_core subscribe_finish_core stream_poll_core http_route_peers
    intro: core_eq_metrics)

definition net_inv :: "('w, 'p, 'c, 'r) system \<Rightarrow> bool" where
  "net_inv n \<longleftrightarrow> protected_inv (net n) \<and> table_inv (net n) \<and> cap_inv (net n)"

lemma net_inv_core:
  assumes "net_inv n" "live (net t) = live (net n)" "core_eq (loop_of n) (loop_of t)"
  shows "net_inv t"
proof -
  note eqs = assms(2) assms(3) [unfolded core_eq_def]
  have "protected_inv (net t) = protected_inv (net n)" "table_inv (net t) = table_inv (net n)"
    "cap_inv (net t) = cap_inv (net n)"
    by (simp_all only: protected_inv_def table_inv_def cap_inv_def Let_def eqs)
  with assms(1) show ?thesis by (simp add: net_inv_def)
qed

lemma metrics_new_peers: "connected_peers metrics_new = 0"
  by (simp add: metrics_new_def)

lemma sys_start_net: "sys_start n \<Longrightarrow> net_start (net n)"
  unfolding sys_start_def net_start_def using metrics_new_peers by blast

interpretation net_sys: invariant_system sys_start "sys_step w ops bops lp" net_inv for w ops bops lp
proof unfold_locales
  fix n :: "('a, 'b, 'c, 'd) system"
  assume "sys_start n"
  from sys_start_net [OF this] show "net_inv n"
    unfolding net_inv_def
    by (auto intro: protected_net.invar_initial table_net.invar_initial cap_net.invar_initial)
next
  fix n t :: "('a, 'b, 'c, 'd) system"
  assume inv: "net_inv n" and step: "sys_step w ops bops lp n t"
  from sys_step_net [OF step] show "net_inv t"
  proof (elim disjE conjE)
    assume "net_step ops bops (net n) (net t)"
    with inv show ?thesis
      unfolding net_inv_def
      by (blast intro: protected_net.invar_step table_net.invar_step cap_net.invar_step)
  qed (rule net_inv_core [OF inv])
qed

subsection \<open>What a step does to the calls\<close>

text \<open>
  Seen from the calls there are four kinds of steps: an event of the network, a command taken, a
  call started, and the others, which change at most one task.
\<close>

lemma sys_step_kinds:
  assumes "sys_step w ops bops lp n t"
  obtains (event) rd ev where "net_event ops bops rd ev (net n) (net t)"
      "in_flight t = in_flight n" "tasks t = tasks n" "next_sender t = next_sender n"
      "history t = history n @ published [SwarmInput rd ev]"
    | (take_one) q1 c q2 ord where "in_flight n = q1 @ c # q2" "order_ok c (loop_of n) ord"
      "loop_of t = handle_command ops ord c (loop_of n)" "live (net t) = live (net n)"
      "in_flight t = q1 @ q2" "tasks t = tasks n" "next_sender t = next_sender n" "history t = history n"
    | (call) c tk where "sender_of c = next_sender n" "in_flight t = in_flight n @ [c]"
      "tasks t = (tasks n)(next_sender n \<mapsto> tk)" "next_sender t = Suc (next_sender n)"
      "core_eq (loop_of n) (loop_of t)" "command_of (next_sender n) tk = Some c"
    | (rest) "in_flight t = in_flight n" "next_sender t = next_sender n"
      "core_eq (loop_of n) (loop_of t)"
      "\<And>sd tk. tasks t sd = Some tk \<Longrightarrow> tasks n sd = Some tk \<or>
         command_of sd tk = None \<and> (\<exists>old. tasks n sd = Some old \<and>
           (command_of sd old = None \<or> sd \<in> fst ` set (replies (loop_of n))))"
  using assms
proof (cases rule: sys_step.cases)
  case (network_event rd ev m)
  then show ?thesis by (intro event [of rd ev]) auto
next
  case (take_command q1 c q2 ord)
  then show ?thesis by (intro take_one [of q1 c q2 ord]) auto
next
  case (publish_call req)
  then show ?thesis by (intro call) auto
next
  case (publish_return sd req r rd res s)
  then show ?thesis by (intro rest) (auto dest: publish_finish_core split: if_splits)
next
  case (subscribe_call t' receiver subs)
  then show ?thesis by (intro call) auto
next
  case (subscribe_return sd sub r receiver s)
  then show ?thesis
    by (intro rest) (auto dest: subscribe_finish_core map_of_SomeD intro: rev_image_eqI split: if_splits)
next
  case (subscribe_error sd sub r st s)
  then show ?thesis by (intro rest) (auto dest: subscribe_finish_core split: if_splits)
next
  case (poll sd sub item s)
  then show ?thesis
    by (intro rest) (cases item; auto dest: stream_poll_core split: if_splits)+
next
  case (cancel sd tk)
  then show ?thesis by (intro rest) (auto split: if_splits)
next
  case (other_call c)
  then show ?thesis by (intro call) auto
next
  case (other_return sd c r)
  then show ?thesis by (intro rest) (auto split: if_splits)
next
  case (http_request peer now st encode path resp m)
  then show ?thesis
    by (intro rest) (auto dest: http_route_peers intro: core_eq_metrics)
qed

subsection \<open>The account of the senders\<close>

text \<open>Every sender issued so far is in flight, answered or parked on a dial, exactly once.\<close>

definition account_inv :: "('w, 'p, 'c, 'r) system \<Rightarrow> bool" where
  "account_inv n \<longleftrightarrow>
     (\<exists>taken. dials_account (loop_of n) taken \<and>
        taken + mset (map sender_of (in_flight n)) = mset [0..<next_sender n])"

lemma core_account: "core_eq s s' \<Longrightarrow> dials_account s issued \<Longrightarrow> dials_account s' issued"
  by (simp add: core_eq_def account_unchanged)

lemma account_inv_step:
  assumes inv: "account_inv n" and step: "sys_step w ops bops lp n t"
  shows "account_inv t"
proof -
  from inv obtain taken where acc: "dials_account (loop_of n) taken"
    and sum: "taken + mset (map sender_of (in_flight n)) = mset [0..<next_sender n]"
    by (auto simp: account_inv_def)
  from step show ?thesis
  proof (cases rule: sys_step_kinds)
    case (event rd ev)
    with net_event_loop [OF event(1)] account_event [OF acc, of ops bops rd ev] sum show ?thesis
      unfolding account_inv_def by (intro exI [of _ taken]) simp
  next
    case (take_one q1 c q2 ord)
    from account_command [OF acc] take_one sum show ?thesis
      unfolding account_inv_def by (intro exI [of _ "add_mset (sender_of c) taken"]) simp
  next
    case (call c tk)
    with core_account [OF _ acc] sum show ?thesis
      unfolding account_inv_def by (intro exI [of _ taken]) simp
  next
    case rest
    with core_account [OF _ acc] sum show ?thesis
      unfolding account_inv_def by (intro exI [of _ taken]) simp
  qed
qed

interpretation account_sys: invariant_system sys_start "sys_step w ops bops lp" account_inv
  for w ops bops lp
proof unfold_locales
  fix n :: "('a, 'b, 'c, 'd) system"
  assume "sys_start n"
  then show "account_inv n"
    unfolding account_inv_def sys_start_def by (intro exI [of _ "{#}"]) (auto simp: account_new)
qed (rule account_inv_step)

text \<open>No sender is in two places.\<close>

lemma queue_in_waiting:
  "finite (dom m) \<Longrightarrow> sd \<in> set (queue_of m p) \<Longrightarrow> sd \<in># waiting m"
  by (cases "m p") (auto simp: queue_of_def waiting_remove)

lemma count_upt: "count (mset [0..<n]) x = (if x < n then 1 else 0)"
  using distinct_count_atmost_1 [of "[0..<n]"] by (simp del: mset_upt)

lemma one_place:
  fixes x y z :: nat
  assumes "x + y + z = (if b then 1 else 0)"
  shows "0 < x \<Longrightarrow> y = 0" "0 < x \<Longrightarrow> z = 0" "0 < x \<Longrightarrow> b" "0 < y \<Longrightarrow> b" "0 < z \<Longrightarrow> b"
    "b \<Longrightarrow> 0 < x \<or> 0 < y \<or> 0 < z" "x \<le> 1"
  using assms by (auto split: if_splits)

lemma in_mset_map: "x \<in># mset (map f xs) \<longleftrightarrow> x \<in> f ` set xs"
  by auto

lemma account_count:
  assumes "account_inv n"
  shows "count (answered (loop_of n)) sd + count (waiting (pending_dials (loop_of n))) sd +
    count (mset (map sender_of (in_flight n))) sd = (if sd < next_sender n then 1 else 0)"
proof -
  from assms have "answered (loop_of n) + waiting (pending_dials (loop_of n)) +
      mset (map sender_of (in_flight n)) = mset [0..<next_sender n]"
    by (auto simp: account_inv_def dials_account_def)
  then show ?thesis by (metis count_union count_upt)
qed

lemma account_finite: "account_inv n \<Longrightarrow> finite (dom (pending_dials (loop_of n)))"
  by (auto simp: account_inv_def dials_account_def)

lemma in_answered: "sd \<in> fst ` set (replies s) \<longleftrightarrow> sd \<in># answered s"
  by (simp add: answered_def)

lemmas account_place =
  one_place [OF account_count, unfolded count_eq_zero_iff count_greater_zero_iff]

lemma account_places:
  assumes inv: "account_inv n"
  shows "sd \<in> fst ` set (replies (loop_of n)) \<Longrightarrow> sd \<notin> sender_of ` set (in_flight n)"
    "sd \<in> fst ` set (replies (loop_of n)) \<Longrightarrow> sd \<notin> set (queue_of (pending_dials (loop_of n)) p)"
    "sd \<in> sender_of ` set (in_flight n) \<Longrightarrow> sd < next_sender n"
    "sd \<in> fst ` set (replies (loop_of n)) \<Longrightarrow> sd < next_sender n"
    "sd \<in> set (queue_of (pending_dials (loop_of n)) p) \<Longrightarrow> sd < next_sender n"
  using account_place(1-5) [OF inv, of sd] queue_in_waiting [OF account_finite [OF inv], of sd p]
  unfolding in_answered in_mset_map by blast+

lemma account_somewhere:
  assumes inv: "account_inv n" and sd: "sd < next_sender n"
  obtains "sd \<in> fst ` set (replies (loop_of n))"
    | p where "sd \<in> set (queue_of (pending_dials (loop_of n)) p)"
    | "sd \<in> sender_of ` set (in_flight n)"
proof -
  have "\<exists>p. sd \<in> set (queue_of (pending_dials (loop_of n)) p)"
    if "sd \<in># waiting (pending_dials (loop_of n))"
  proof -
    from that account_finite [OF inv] obtain p sds where
      "pending_dials (loop_of n) p = Some sds" "sd \<in> set sds"
      by (auto simp: waiting_def set_mset_sum)
    then show ?thesis by (auto simp: queue_of_def intro: exI [of _ p])
  qed
  with account_place(6) [OF inv sd] that show ?thesis unfolding in_answered in_mset_map by blast
qed

lemma account_once:
  assumes "account_inv n"
  shows "distinct (map fst (replies (loop_of n)))"
proof -
  have "count (mset (map fst (replies (loop_of n)))) sd \<le> 1" for sd
    using one_place(7) [OF account_count [OF assms, of sd]] by (simp add: answered_def)
  moreover have "count (mset (map fst (replies (loop_of n)))) sd \<noteq> 0"
    if "sd \<in> set (map fst (replies (loop_of n)))" for sd
    using that unfolding count_eq_zero_iff set_mset_mset by blast
  ultimately show ?thesis
    unfolding distinct_count_atmost_1 by (metis count_eq_zero_iff le_less_Suc_eq less_one nat_less_le set_mset_mset One_nat_def)
qed

subsection \<open>The calls\<close>

text \<open>
  What an answer to a command can be. The \<open>oneshot\<close> channels of the code are typed by it; the
  model's replies are one sum, and this predicate is what the types say.
\<close>

fun dial_reply :: "'p reply \<Rightarrow> bool" where
  "dial_reply (Inr Done) \<longleftrightarrow> True"
| "dial_reply (Inl (DialFailed e)) \<longleftrightarrow> True"
| "dial_reply (Inl (BoxedDialError e)) \<longleftrightarrow> e \<noteq> DialPeerConditionFalse"
| "dial_reply _ \<longleftrightarrow> False"

fun reply_fits :: "'p command \<Rightarrow> 'p reply \<Rightarrow> bool" where
  "reply_fits (StartListening _ _) r \<longleftrightarrow>
     (case r of Inr x \<Rightarrow> x = Done | Inl e \<Rightarrow> (case e of BoxedTransportError _ \<Rightarrow> True | _ \<Rightarrow> False))"
| "reply_fits (Dial _ _ _) r \<longleftrightarrow> dial_reply r"
| "reply_fits (Identify _) r \<longleftrightarrow>
     (case r of Inr (NodeInfoOf _) \<Rightarrow> True | _ \<Rightarrow> False)"
| "reply_fits (Subscribe _ _) r \<longleftrightarrow>
     (case r of Inr x \<Rightarrow> x = Done | Inl e \<Rightarrow> (case e of BoxedSubscriptionError _ \<Rightarrow> True | _ \<Rightarrow> False))"
| "reply_fits (PublishMessage _ _ _) r \<longleftrightarrow>
     (case r of Inr x \<Rightarrow> x = Done | Inl e \<Rightarrow> (case e of BoxedPublishError _ \<Rightarrow> True | _ \<Rightarrow> False))"
| "reply_fits (NetworkSnapshot _) r \<longleftrightarrow>
     (case r of Inr (SnapshotOf _) \<Rightarrow> True | _ \<Rightarrow> False)"
| "reply_fits (SetPreferredPeers _ _) r \<longleftrightarrow>
     (case r of Inr (AcceptedTruncated _ _) \<Rightarrow> True | _ \<Rightarrow> False)"
| "reply_fits (GetPeers _) r \<longleftrightarrow>
     (case r of Inr (PeersOf _) \<Rightarrow> True | _ \<Rightarrow> False)"

lemma handle_dial_effect:
  "(sd, r) \<in> set (replies (handle_dial ops p as sd' s)) \<Longrightarrow>
     (sd, r) \<in> set (replies s) \<or> sd = sd' \<and> dial_reply r"
  by (auto simp: handle_dial_def answer_def Let_def
      split: option.splits prod.splits sum.splits dial_error.splits)

lemma handle_dial_queue:
  "sd \<in> set (queue_of (pending_dials (handle_dial ops p as sd' s)) q) \<Longrightarrow>
     sd \<in> set (queue_of (pending_dials s) q) \<or> sd = sd' \<and> q = p"
  by (auto simp: handle_dial_def answer_def Let_def queue_of_def
      split: option.splits prod.splits sum.splits dial_error.splits if_splits)

lemma command_reply_fits:
  "(sd, r) \<in> set (replies (handle_command ops ord c s)) \<Longrightarrow>
     (sd, r) \<in> set (replies s) \<or> sd = sender_of c \<and> reply_fits c r"
  by (cases c) (auto dest: handle_dial_effect simp: handle_set_preferred_result answer_def
      split: prod.splits sum.splits)

lemma command_queue:
  "sd \<in> set (queue_of (pending_dials (handle_command ops ord c s)) p) \<Longrightarrow>
     sd \<in> set (queue_of (pending_dials s) p) \<or> (\<exists>as. c = Dial p as sd)"
  by (cases c) (auto dest: handle_dial_queue simp: handle_set_preferred_result answer_def
      split: prod.splits)

lemma settles_dial_reply: "settles ev = Some (p, r) \<Longrightarrow> dial_reply r"
  by (cases ev rule: settles.cases) (auto split: if_splits)

lemma event_reply:
  "(sd, r) \<in> set (replies (handle_event ops bops rd ev s)) \<Longrightarrow>
     (sd, r) \<in> set (replies s) \<or> dial_reply r \<and> (\<exists>p. sd \<in> set (queue_of (pending_dials s) p))"
  by (cases "settles ev") (auto simp: event_dials dest: settles_dial_reply)

lemma event_queue:
  "sd \<in> set (queue_of (pending_dials (handle_event ops bops rd ev s)) p) \<Longrightarrow>
     sd \<in> set (queue_of (pending_dials s) p)"
  by (auto simp: event_dials queue_of_def split: option.splits if_splits)

text \<open>A task that waits for a command sent it under its own number, and the command is where the
  account says; a stream's call has been answered.\<close>

definition task_ok :: "('w, 'p, 'c, 'r) system \<Rightarrow> sender \<Rightarrow> ('p, 'r) rpc_task \<Rightarrow> bool" where
  "task_ok n sd tk \<longleftrightarrow> sd < next_sender n \<and>
     (case command_of sd tk of
        None \<Rightarrow> sd \<in> fst ` set (replies (loop_of n))
      | Some c \<Rightarrow> sender_of c = sd \<and>
          (\<forall>c' \<in> set (in_flight n). sender_of c' = sd \<longrightarrow> c' = c) \<and>
          (\<forall>p. sd \<in> set (queue_of (pending_dials (loop_of n)) p) \<longrightarrow> (\<exists>as. c = Dial p as sd)) \<and>
          (\<forall>r. (sd, r) \<in> set (replies (loop_of n)) \<longrightarrow> reply_fits c r))"

definition calls_inv :: "('w, 'p, 'c, 'r) system \<Rightarrow> bool" where
  "calls_inv n \<longleftrightarrow> account_inv n \<and> (\<forall>sd tk. tasks n sd = Some tk \<longrightarrow> task_ok n sd tk)"

lemma task_ok_event:
  assumes ok: "task_ok n sd tk" and ev: "loop_of t = handle_event ops bops rd ev (loop_of n)"
    and eqs: "in_flight t = in_flight n" "next_sender t = next_sender n"
  shows "task_ok t sd tk"
proof (cases "command_of sd tk")
  case None
  obtain more where "replies (loop_of t) = replies (loop_of n) @ more"
    using handle_event_replies ev by metis
  with ok None eqs show ?thesis by (auto simp: task_ok_def)
next
  case (Some c)
  have "reply_fits c r" if "(sd, r) \<in> set (replies (loop_of t))" for r
  proof -
    from event_reply [OF that [unfolded ev]] show ?thesis
    proof (elim disjE conjE exE)
      fix p
      assume "dial_reply r" "sd \<in> set (queue_of (pending_dials (loop_of n)) p)"
      moreover from this ok Some obtain as where "c = Dial p as sd" by (auto simp: task_ok_def)
      ultimately show ?thesis by simp
    qed (use ok Some in \<open>simp add: task_ok_def\<close>)
  qed
  moreover have "\<exists>as. c = Dial p as sd" if "sd \<in> set (queue_of (pending_dials (loop_of t)) p)" for p
    using event_queue [OF that [unfolded ev]] ok Some by (simp add: task_ok_def)
  ultimately show ?thesis using ok Some eqs by (simp add: task_ok_def)
qed

lemma task_ok_command:
  assumes ok: "task_ok n sd tk" and fl: "in_flight n = q1 @ c # q2"
    and cmd: "loop_of t = handle_command ops ord c (loop_of n)"
    and eqs: "in_flight t = q1 @ q2" "next_sender t = next_sender n"
  shows "task_ok t sd tk"
proof (cases "command_of sd tk")
  case None
  obtain more where "replies (loop_of t) = replies (loop_of n) @ more"
    using handle_command_replies cmd by metis
  with ok None eqs show ?thesis by (auto simp: task_ok_def)
next
  case (Some c0)
  with ok have c0: "sender_of c = sd \<Longrightarrow> c = c0" by (simp add: task_ok_def fl)
  have "reply_fits c0 r" if "(sd, r) \<in> set (replies (loop_of t))" for r
    using command_reply_fits [OF that [unfolded cmd]]
  proof (elim disjE conjE)
    assume "sd = sender_of c" "reply_fits c r"
    with c0 show ?thesis by simp
  qed (use ok Some in \<open>simp add: task_ok_def\<close>)
  moreover have "\<exists>as. c0 = Dial p as sd" if "sd \<in> set (queue_of (pending_dials (loop_of t)) p)" for p
    using command_queue [OF that [unfolded cmd]]
  proof (elim disjE exE)
    fix as
    assume "c = Dial p as sd"
    with c0 show ?thesis by (intro exI [of _ as]) simp
  qed (use ok Some in \<open>simp add: task_ok_def\<close>)
  ultimately show ?thesis using ok Some eqs by (simp add: task_ok_def fl)
qed

lemma calls_inv_step:
  assumes inv: "calls_inv n" and step: "sys_step w ops bops lp n t"
  shows "calls_inv t"
proof -
  have acc: "account_inv n" and old: "\<And>sd tk. tasks n sd = Some tk \<Longrightarrow> task_ok n sd tk"
    using inv by (auto simp: calls_inv_def)
  have acc': "account_inv t" by (rule account_inv_step [OF acc step])
  have "task_ok t sd tk" if tk: "tasks t sd = Some tk" for sd tk
    using step
  proof (cases rule: sys_step_kinds)
    case (event rd ev)
    from tk event(3) have "tasks n sd = Some tk" by simp
    from task_ok_event [OF old [OF this] net_event_loop [OF event(1)] event(2,4)] show ?thesis .
  next
    case (take_one q1 c q2 ord)
    from tk take_one(6) have "tasks n sd = Some tk" by simp
    from task_ok_command [OF old [OF this] take_one(1,3,5,7)] show ?thesis .
  next
    case (call c new)
    then have core: "pending_dials (loop_of t) = pending_dials (loop_of n)"
      "replies (loop_of t) = replies (loop_of n)" by (simp_all add: core_eq_def)
    show ?thesis
    proof (cases "sd = next_sender n")
      case True
      with account_places(3,4) [OF acc, of sd] account_places(5) [OF acc, of sd]
      have "sd \<notin> fst ` set (replies (loop_of n))"
        "sd \<notin> sender_of ` set (in_flight n)" "\<And>p. sd \<notin> set (queue_of (pending_dials (loop_of n)) p)"
        by auto
      with True tk call core show ?thesis by (auto simp: task_ok_def intro: rev_image_eqI)
    next
      case False
      with old [of sd tk] tk call core show ?thesis by (auto simp: task_ok_def split: option.splits)
    qed
  next
    case rest
    then have core: "pending_dials (loop_of t) = pending_dials (loop_of n)"
      "replies (loop_of t) = replies (loop_of n)" by (simp_all add: core_eq_def)
    from rest(4) [OF tk] show ?thesis
    proof (elim disjE conjE exE)
      assume "tasks n sd = Some tk"
      from old [OF this] show ?thesis unfolding task_ok_def rest(1,2) core .
    next
      fix tk0
      assume "command_of sd tk = None" "tasks n sd = Some tk0" and "command_of sd tk0 = None"
      with old [of sd tk0] rest core show ?thesis by (simp add: task_ok_def)
    next
      fix tk0
      assume "command_of sd tk = None" "tasks n sd = Some tk0" and "sd \<in> fst ` set (replies (loop_of n))"
      with old [of sd tk0] rest core show ?thesis by (simp add: task_ok_def)
    qed
  qed
  with acc' show ?thesis by (simp add: calls_inv_def)
qed

interpretation calls_sys: invariant_system sys_start "sys_step w ops bops lp" calls_inv
  for w ops bops lp
proof unfold_locales
  fix n :: "('a, 'b, 'c, 'd) system"
  assume "sys_start n"
  then show "calls_inv n"
    using account_sys.invar_initial [of n] by (auto simp: calls_inv_def sys_start_def)
qed (rule calls_inv_step)

subsection \<open>Reachable systems\<close>

lemma sys_reachable_invariants:
  assumes "sys_reachable w ops bops lp n"
  shows "net_inv n" "calls_inv n" "account_inv n"
  using assms unfolding sys_reachable_def
  by (blast intro: net_sys.reachable_invar calls_sys.reachable_invar account_sys.reachable_invar)+

lemma sys_reachable_step:
  "sys_reachable w ops bops lp n \<Longrightarrow> sys_step w ops bops lp n t \<Longrightarrow> sys_reachable w ops bops lp t"
  unfolding sys_reachable_def by (meson rtranclp.rtrancl_into_rtrancl)

subsection \<open>The message counters\<close>

text \<open>Every counted message is also a counted event, whatever the tasks do in between.\<close>

definition counters_agree :: "metrics \<Rightarrow> bool" where
  "counters_agree m \<longleftrightarrow> total_messages_sent m = event_count m ''message_published''"

definition counters_inv :: "('w, 'p, 'c, 'r) system \<Rightarrow> bool" where
  "counters_inv n \<longleftrightarrow> counters_agree (loop_metrics (loop_of n))"

lemma counters_agree_cong:
  "counters_agree m \<Longrightarrow> total_messages_sent m' = total_messages_sent m \<Longrightarrow>
     p2p_events m' = p2p_events m \<Longrightarrow> counters_agree m'"
  by (simp add: counters_agree_def event_count_def)

lemma counters_agree_event:
  "counters_agree m \<Longrightarrow> label \<noteq> ''message_published'' \<Longrightarrow> counters_agree (increment_event label m)"
  by (simp add: counters_agree_def event_count_def increment_event_def)

lemma counters_agree_sent:
  "counters_agree m \<Longrightarrow> counters_agree (increment_event ''message_published''
     (m\<lparr>total_messages_sent := Suc (total_messages_sent m)\<rparr>))"
  by (simp add: counters_agree_def event_count_def increment_event_def)

lemma event_counters:
  "total_messages_sent (loop_metrics (handle_event ops bops rd ev s)) =
     total_messages_sent (loop_metrics s) \<and>
   p2p_events (loop_metrics (handle_event ops bops rd ev s)) = p2p_events (loop_metrics s)"
proof (cases ev)
  case (GossipsubMessage source t bytes)
  then show ?thesis by (cases source) (simp_all add: handle_message_def Let_def)
qed simp_all

lemma publish_finish_counters:
  assumes "publish_finish w bops rd lp req r s = (res, s')" "counters_agree (loop_metrics s)"
  shows "counters_agree (loop_metrics s')"
proof -
  have "counters_agree (loop_metrics (publish_counted r s))"
    using assms(2) by (cases r) (simp_all add: publish_counted_def count_event_def count_sent_def
        counters_agree_event counters_agree_sent)
  then show ?thesis
    using assms by (auto simp: publish_finish_def Let_def count_event_def
        intro: counters_agree_event split: option.splits if_splits)
qed

lemma subscribe_finish_counters:
  "subscribe_finish w bops t q r s = (res, s') \<Longrightarrow> loop_metrics s' = loop_metrics s"
  by (auto simp: subscribe_finish_def split: sum.splits)

lemma stream_poll_counters:
  "stream_poll bops t q s = (item, s') \<Longrightarrow> counters_agree (loop_metrics s) \<Longrightarrow>
     counters_agree (loop_metrics s')"
  by (auto simp: stream_poll_def count_event_def Let_def intro: counters_agree_event
      split: prod.splits recv_result.splits)

lemma release_counters [simp]: "loop_metrics (release bops tk s) = loop_metrics s"
  by (cases tk) simp_all

lemma counters_inv_step:
  assumes inv: "counters_inv n" and step: "sys_step w ops bops lp n t"
  shows "counters_inv t"
  using step
proof (cases rule: sys_step.cases)
  case (network_event rd ev m)
  with inv show ?thesis
    using event_counters [of ops bops rd ev "loop_of n"]
    by (simp add: counters_inv_def net_event_loop) (blast intro: counters_agree_cong)
next
  case (http_request peer now st encode path resp m)
  with inv http_route_peers [OF http_request(2)] show ?thesis
    by (simp add: counters_inv_def) (blast intro: counters_agree_cong)
qed (use inv in \<open>auto simp: counters_inv_def command_frame subscribe_finish_counters
    dest: publish_finish_counters stream_poll_counters simp del: handle_command.simps\<close>)

interpretation counters_sys: invariant_system sys_start "sys_step w ops bops lp" counters_inv
  for w ops bops lp
proof unfold_locales
  fix n :: "('a, 'b, 'c, 'd) system"
  assume "sys_start n"
  then show "counters_inv n"
    by (auto simp: counters_inv_def sys_start_def event_loop_new_def counters_agree_def
        event_count_def metrics_new_def)
qed (rule counters_inv_step)

lemma sys_reachable_counters: "sys_reachable w ops bops lp n \<Longrightarrow> counters_inv n"
  unfolding sys_reachable_def by (elim exE conjE) (rule counters_sys.reachable_invar)

end
