(* ===== verification/System_Streams.thy ===== *)
theory System_Streams
  imports System_Invariants "HOL-Library.Sublist"
begin

section \<open>The streams of the subscribers\<close>

text \<open>
  Where a subscriber stands in its topic's messages: what was handed to the registry on the topic
  since it subscribed is a part that is over, followed by its queue; the stream has yielded a
  subsequence of the first part, and the rest of that part is what it was told it lost or is
  still to be told.
\<close>

definition stream_ok ::
    "('c, 'r) broadcast_view \<Rightarrow> 'c subscriptions \<Rightarrow> envelope list \<Rightarrow> 'r subscription \<Rightarrow> bool" where
  "stream_ok v subs hist sub \<longleftrightarrow>
     sub_receiver sub \<in> topic_receivers v subs (sub_topic sub) \<and> sub_since sub \<le> length hist \<and>
     (\<exists>over. on_topic (sub_topic sub) (drop (sub_since sub) hist) =
          over @ topic_queue v subs (sub_topic sub) (sub_receiver sub) \<and>
        subseq (sub_yielded sub) over \<and>
        length over = length (sub_yielded sub) + sub_lost sub +
          topic_missed v subs (sub_topic sub) (sub_receiver sub))"

lemma on_topic_append [simp]: "on_topic t (xs @ ys) = on_topic t xs @ on_topic t ys"
  by (simp add: on_topic_def)

lemma on_topic_Cons [simp]:
  "on_topic t [] = []" "on_topic t (e # es) = (if topic e = t then e # on_topic t es else on_topic t es)"
  by (simp_all add: on_topic_def)

lemma newest_split:
  "xs @ [e] = take (length xs + 1 - n) (xs @ [e]) @ newest n (xs @ [e])"
  "length (take (length xs + 1 - n) (xs @ [e])) = length xs + 1 - n"
  by (simp_all only: newest_def length_append_singleton Suc_eq_plus1 append_take_drop_id) simp

lemma stream_ok_publish:
  assumes ok: "broadcast_ok bops v" and st: "stream_ok v subs hist sub"
  shows "stream_ok v (snd (publish bops e subs)) (hist @ [e]) sub"
proof -
  let ?t = "sub_topic sub" and ?r = "sub_receiver sub" and ?subs = "snd (publish bops e subs)"
  let ?q = "topic_queue v subs ?t ?r" and ?n = "topic_room v subs ?t"
  from st obtain over where r: "?r \<in> topic_receivers v subs ?t" and since: "sub_since sub \<le> length hist"
    and over: "on_topic ?t (drop (sub_since sub) hist) = over @ ?q" "subseq (sub_yielded sub) over"
      "length over = length (sub_yielded sub) + sub_lost sub + topic_missed v subs ?t ?r"
    by (auto simp: stream_ok_def)
  note view = publish_view [OF ok, where env = e and s = subs]
  show ?thesis
  proof (cases "?t = topic e")
    case False
    with r since over view(3,4) [OF r] show ?thesis by (auto simp: stream_ok_def view(1))
  next
    case True
    let ?gone = "take (length ?q + 1 - ?n) (?q @ [e])"
    have "on_topic ?t (drop (sub_since sub) (hist @ [e])) = (over @ ?gone) @ newest ?n (?q @ [e])"
      using since over(1) True newest_split(1) [of ?q e ?n] by simp
    moreover have "length (over @ ?gone) = length (sub_yielded sub) + sub_lost sub +
        (topic_missed v subs ?t ?r + (length ?q + 1 - ?n))"
      using over(3) newest_split(2) [of ?q ?n e] by simp
    moreover have "subseq (sub_yielded sub) (over @ ?gone)"
      using over(2) by (rule subseq_rev_drop_many)
    ultimately show ?thesis
      using r since view(3,4) [OF r] True unfolding stream_ok_def view(1)
      by (intro conjI exI [of _ "over @ ?gone"]) simp_all
  qed
qed

lemma stream_ok_publish_all:
  "broadcast_ok bops v \<Longrightarrow> stream_ok v subs hist sub \<Longrightarrow>
     stream_ok v (publish_all bops es subs) (hist @ es) sub"
proof (induction es arbitrary: subs hist)
  case (Cons e es)
  from Cons.IH [OF Cons.prems(1) stream_ok_publish [OF Cons.prems]] show ?case by simp
qed simp

lemma stream_ok_place:
  "stream_ok v subs hist sub \<Longrightarrow> same_place v (sub_topic sub) (sub_receiver sub) subs subs' \<Longrightarrow>
     stream_ok v subs' hist sub"
  by (auto simp: stream_ok_def same_place_def)

lemma stream_ok_new:
  assumes ok: "broadcast_ok bops v" and sub: "subscribe bops t subs = (r, subs')"
  shows "stream_ok v subs' hist \<lparr>sub_topic = t, sub_receiver = r, sub_since = length hist,
    sub_yielded = [], sub_lost = 0\<rparr>"
  using subscribe_view(1,3) [OF ok sub] subscribe_missed [OF ok sub] by (simp add: stream_ok_def)

text \<open>A poll moves the first message of the queue, or the number of missed ones, to the stream.\<close>

lemma stream_ok_receive:
  assumes ok: "broadcast_ok bops v" and st: "stream_ok v subs hist sub"
    and recv: "receive bops (sub_topic sub) (sub_receiver sub) subs = (res, subs')"
  shows "case res of
      Received e \<Rightarrow> stream_ok v subs' hist (sub\<lparr>sub_yielded := sub_yielded sub @ [e]\<rparr>)
    | Lagged k \<Rightarrow> 0 < k \<and> stream_ok v subs' hist (sub\<lparr>sub_lost := sub_lost sub + k\<rparr>)
    | Pending \<Rightarrow> stream_ok v subs' hist sub
    | Closed \<Rightarrow> False"
proof -
  let ?t = "sub_topic sub" and ?r = "sub_receiver sub"
  let ?q = "topic_queue v subs ?t ?r" and ?m = "topic_missed v subs ?t ?r"
  from st obtain over where r: "?r \<in> topic_receivers v subs ?t" and since: "sub_since sub \<le> length hist"
    and over: "on_topic ?t (drop (sub_since sub) hist) = over @ ?q" "subseq (sub_yielded sub) over"
      "length over = length (sub_yielded sub) + sub_lost sub + ?m"
    by (auto simp: stream_ok_def)
  note view = receive_view [OF ok r recv]
  consider (lag) "0 < ?m" | (wait) "?m = 0" "?q = []" | (get) e q where "?m = 0" "?q = e # q"
    by (cases ?q) auto
  then show ?thesis
  proof cases
    case lag
    with view r since over show ?thesis by (auto simp: stream_ok_def)
  next
    case wait
    with view r since over show ?thesis by (auto simp: stream_ok_def)
  next
    case get
    have "on_topic ?t (drop (sub_since sub) hist) = (over @ [e]) @ q" using over(1) get by simp
    moreover have "subseq (sub_yielded sub @ [e]) (over @ [e])"
      using over(2) by (intro list_emb_append_mono) auto
    ultimately show ?thesis
      using view get r since over(3) unfolding stream_ok_def
      by (simp del: append_assoc)
  qed
qed

text \<open>A stream that lost nothing has yielded everything but its queue.\<close>

lemma stream_ok_lossless:
  assumes "stream_ok v subs hist sub" "sub_lost sub = 0"
    "topic_missed v subs (sub_topic sub) (sub_receiver sub) = 0"
  shows "on_topic (sub_topic sub) (drop (sub_since sub) hist) =
    sub_yielded sub @ topic_queue v subs (sub_topic sub) (sub_receiver sub)"
proof -
  from assms obtain over where over: "on_topic (sub_topic sub) (drop (sub_since sub) hist) =
      over @ topic_queue v subs (sub_topic sub) (sub_receiver sub)"
    "subseq (sub_yielded sub) over" "length over = length (sub_yielded sub)"
    by (auto simp: stream_ok_def)
  from over(2,3) have "over = sub_yielded sub" by (metis subseq_same_length)
  with over(1) show ?thesis by simp
qed

subsection \<open>The streams of a system\<close>

fun subscription_of :: "('p, 'r) rpc_task \<Rightarrow> 'r subscription option" where
  "subscription_of (SubscribeCall sub) = Some sub"
| "subscription_of (StreamOpen sub) = Some sub"
| "subscription_of (PublishCall req) = None"
| "subscription_of (OtherCall c) = None"

definition holds_sub :: "('w, 'p, 'c, 'r) system \<Rightarrow> sender \<Rightarrow> 'r subscription \<Rightarrow> bool" where
  "holds_sub n sd sub \<longleftrightarrow> (\<exists>tk. tasks n sd = Some tk \<and> subscription_of tk = Some sub)"

definition same_receiver :: "'r subscription \<Rightarrow> 'r subscription \<Rightarrow> bool" where
  "same_receiver sub sub' \<longleftrightarrow>
     sub_topic sub = sub_topic sub' \<and> sub_receiver sub = sub_receiver sub'"

text \<open>Every subscription of a task has its place, and no two tasks share a receiver.\<close>

definition streams_inv :: "('c, 'r) broadcast_view \<Rightarrow> ('w, 'p, 'c, 'r) system \<Rightarrow> bool" where
  "streams_inv v n \<longleftrightarrow>
     (\<forall>sd sub. holds_sub n sd sub \<longrightarrow> stream_ok v (subscriptions (loop_of n)) (history n) sub) \<and>
     (\<forall>sd sd' sub sub'. holds_sub n sd sub \<longrightarrow> holds_sub n sd' sub' \<longrightarrow> same_receiver sub sub' \<longrightarrow> sd = sd')"

text \<open>A step that hands envelopes to the registry and starts no subscription.\<close>

lemma streams_inv_publish:
  assumes ok: "broadcast_ok bops v" and inv: "streams_inv v n"
    and subs: "subscriptions (loop_of t) = publish_all bops es (subscriptions (loop_of n))"
    and hist: "history t = history n @ es"
    and old: "\<And>sd sub. holds_sub t sd sub \<Longrightarrow> holds_sub n sd sub"
  shows "streams_inv v t"
  using inv old stream_ok_publish_all [OF ok] unfolding streams_inv_def subs hist by blast

text \<open>A step that ends a task, with the channel left as it is or the task's receiver dropped.\<close>

lemma streams_inv_drop:
  assumes ok: "broadcast_ok bops v" and inv: "streams_inv v n" and sub: "holds_sub n sd sub"
    and subs: "subscriptions (loop_of t) =
      drop_receiver bops (sub_topic sub) (sub_receiver sub) (subscriptions (loop_of n))"
    and eqs: "history t = history n" "tasks t = (tasks n)(sd := None)"
  shows "streams_inv v t"
proof -
  have old: "holds_sub n sd' sub' \<and> sd' \<noteq> sd" if "holds_sub t sd' sub'" for sd' sub'
    using that by (auto simp: holds_sub_def eqs(2) split: if_splits)
  have "stream_ok v (subscriptions (loop_of t)) (history t) sub'" if h: "holds_sub t sd' sub'" for sd' sub'
  proof -
    have st: "stream_ok v (subscriptions (loop_of n)) (history n) sub'"
      using old [OF h] inv by (auto simp: streams_inv_def)
    then have r: "sub_receiver sub' \<in> topic_receivers v (subscriptions (loop_of n)) (sub_topic sub')"
      by (simp add: stream_ok_def)
    have "\<not> same_receiver sub sub'" using old [OF h] inv sub unfolding streams_inv_def by blast
    then have "sub_topic sub' \<noteq> sub_topic sub \<or> sub_receiver sub' \<noteq> sub_receiver sub"
      by (auto simp: same_receiver_def)
    from stream_ok_place [OF st drop_others [OF ok r this]] show ?thesis by (simp add: subs eqs(1))
  qed
  with old inv show ?thesis unfolding streams_inv_def by blast
qed

lemma streams_inv_same:
  assumes inv: "streams_inv v n"
    and eqs: "subscriptions (loop_of t) = subscriptions (loop_of n)" "history t = history n"
    and old: "\<And>sd sub. holds_sub t sd sub \<Longrightarrow> holds_sub n sd sub"
  shows "streams_inv v t"
  using inv old unfolding streams_inv_def eqs by blast

lemma streams_inv_subscribe:
  assumes ok: "broadcast_ok bops v" and inv: "streams_inv v n"
    and sub: "subscribe bops topic_name (subscriptions (loop_of n)) = (r, subs)"
    and subs: "subscriptions (loop_of t) = subs" and hist: "history t = history n"
    and tasks: "tasks t = (tasks n)(sd \<mapsto> SubscribeCall \<lparr>sub_topic = topic_name, sub_receiver = r,
      sub_since = length (history n), sub_yielded = [], sub_lost = 0\<rparr>)"
  shows "streams_inv v t"
proof -
  let ?new = "\<lparr>sub_topic = topic_name, sub_receiver = r, sub_since = length (history n),
      sub_yielded = [], sub_lost = 0\<rparr>"
  have cases: "sd' = sd \<and> sub' = ?new \<or> sd' \<noteq> sd \<and> holds_sub n sd' sub'" if "holds_sub t sd' sub'" for sd' sub'
    using that by (auto simp: holds_sub_def tasks split: if_splits)
  have held: "stream_ok v (subscriptions (loop_of n)) (history n) sub'" if "holds_sub n sd' sub'" for sd' sub'
    using that inv by (auto simp: streams_inv_def)
  have fresh: "\<not> same_receiver sub' ?new" if "holds_sub n sd' sub'" for sd' sub'
    using held [OF that] subscribe_view(2) [OF ok sub] by (auto simp: same_receiver_def stream_ok_def)
  have "stream_ok v (subscriptions (loop_of t)) (history t) sub'" if "holds_sub t sd' sub'" for sd' sub'
    using cases [OF that]
  proof (elim disjE conjE)
    assume "sub' = ?new"
    with stream_ok_new [OF ok sub] show ?thesis by (simp add: subs hist)
  next
    assume "holds_sub n sd' sub'"
    note st = held [OF this]
    then have "sub_receiver sub' \<in> topic_receivers v (subscriptions (loop_of n)) (sub_topic sub')"
      by (simp add: stream_ok_def)
    from stream_ok_place [OF st subscribe_others [OF ok sub this]] show ?thesis by (simp add: subs hist)
  qed
  moreover have "sd1 = sd2" if "holds_sub t sd1 sub1" "holds_sub t sd2 sub2" "same_receiver sub1 sub2"
    for sd1 sd2 sub1 sub2
    using cases [OF that(1)] cases [OF that(2)] fresh that(3) inv
    unfolding streams_inv_def same_receiver_def by metis
  ultimately show ?thesis unfolding streams_inv_def by blast
qed

text \<open>A step that polls one stream.\<close>

lemma streams_inv_poll:
  assumes ok: "broadcast_ok bops v" and inv: "streams_inv v n" and sub: "holds_sub n sd sub"
    and recv: "receive bops (sub_topic sub) (sub_receiver sub) (subscriptions (loop_of n)) = (res, subs)"
    and subs: "subscriptions (loop_of t) = subs" and hist: "history t = history n"
    and tasks: "tasks t = (tasks n)(sd := after_poll item sub)"
    and item: "item = (case res of Received e \<Rightarrow> Yields e | Lagged k \<Rightarrow> Skips k | Closed \<Rightarrow> Ends | Pending \<Rightarrow> Waits)"
  shows "streams_inv v t"
proof -
  have st: "stream_ok v (subscriptions (loop_of n)) (history n) sub'" if "holds_sub n sd' sub'" for sd' sub'
    using inv that by (auto simp: streams_inv_def)
  have r: "sub_receiver sub' \<in> topic_receivers v (subscriptions (loop_of n)) (sub_topic sub')"
    if "holds_sub n sd' sub'" for sd' sub' using st [OF that] by (simp add: stream_ok_def)
  have others: "holds_sub n sd' sub'" if "holds_sub t sd' sub'" "sd' \<noteq> sd" for sd' sub'
    using that by (auto simp: holds_sub_def tasks)
  have own: "same_receiver sub sub' \<and> stream_ok v subs (history n) sub'" if "holds_sub t sd sub'" for sub'
    using stream_ok_receive [OF ok st [OF sub] recv] that
    by (cases res) (auto simp: holds_sub_def tasks item same_receiver_def)
  have "stream_ok v (subscriptions (loop_of t)) (history t) sub'" if h: "holds_sub t sd' sub'" for sd' sub'
  proof (cases "sd' = sd")
    case True
    with own h show ?thesis by (simp add: subs hist)
  next
    case False
    note h' = others [OF h False]
    have "\<not> same_receiver sub sub'" using h' False inv sub unfolding streams_inv_def by blast
    then have "sub_topic sub' \<noteq> sub_topic sub \<or> sub_receiver sub' \<noteq> sub_receiver sub"
      by (auto simp: same_receiver_def)
    from stream_ok_place [OF st [OF h'] receive_others [OF ok recv r [OF sub] r [OF h'] this]]
    show ?thesis by (simp add: subs hist)
  qed
  moreover have "sd1 = sd2" if "holds_sub t sd1 sub1" "holds_sub t sd2 sub2" "same_receiver sub1 sub2"
    for sd1 sd2 sub1 sub2
    using that others own sub inv unfolding streams_inv_def same_receiver_def by metis
  ultimately show ?thesis unfolding streams_inv_def by blast
qed

lemma holds_sub_cong: "tasks t = tasks n \<Longrightarrow> holds_sub t sd sub \<Longrightarrow> holds_sub n sd sub"
  by (simp add: holds_sub_def)

lemma holds_sub_ended: "tasks t = (tasks n)(sd0 := None) \<Longrightarrow> holds_sub t sd sub \<Longrightarrow> holds_sub n sd sub"
  by (auto simp: holds_sub_def split: if_splits)

lemma holds_sub_call:
  "tasks t = (tasks n)(sd0 \<mapsto> tk) \<Longrightarrow> subscription_of tk = None \<Longrightarrow> holds_sub t sd sub \<Longrightarrow>
     holds_sub n sd sub"
  by (auto simp: holds_sub_def split: if_splits)

lemma streams_inv_step:
  assumes ok: "broadcast_ok bops v" and inv: "streams_inv v n" and step: "sys_step w ops bops lp n t"
  shows "streams_inv v t"
  using step
proof (cases rule: sys_step.cases)
  case (network_event rd ev m)
  have "subscriptions (handle_event ops bops rd ev (loop_of n)) =
      publish_all bops (published [SwarmInput rd ev]) (subscriptions (loop_of n))"
    using run_loop_subscriptions [of ops bops "[SwarmInput rd ev]" "loop_of n"]
    by (simp del: handle_event.simps published.simps)
  with network_event show ?thesis
    by (intro streams_inv_publish [OF ok inv, where es = "published [SwarmInput rd ev]"])
      (simp_all add: net_event_loop holds_sub_def del: published.simps)
next
  case (take_command q1 c q2 ord)
  then show ?thesis
    by (intro streams_inv_same [OF inv]) (simp_all add: command_frame holds_sub_def del: handle_command.simps)
next
  case (publish_call req)
  then show ?thesis
    by (intro streams_inv_same [OF inv]) (auto intro: holds_sub_call [of t n "next_sender n"])
next
  case (publish_return sd req r rd res s)
  from publish_finish_subscriptions [OF publish_return(4)] publish_return(1) show ?thesis
    by (intro streams_inv_publish [OF ok inv, where es = "echoed rd lp req r"])
      (auto intro: holds_sub_ended [of t n sd])
next
  case (subscribe_call topic_name receiver subs)
  then show ?thesis
    by (intro streams_inv_subscribe [OF ok inv subscribe_call(3), where sd = "next_sender n"]) simp_all
next
  case (subscribe_return sd sub r receiver s)
  then have s: "s = loop_of n" "receiver = sub_receiver sub"
    by (auto simp: subscribe_finish_def split: sum.splits)
  have "holds_sub n sd' sub'" if "holds_sub t sd' sub'" for sd' sub'
    using that subscribe_return(1,2) s by (auto simp: holds_sub_def split: if_splits)
  then show ?thesis using subscribe_return(1) s by (intro streams_inv_same [OF inv]) simp_all
next
  case (subscribe_error sd sub r st s)
  then have s: "subscriptions s =
      drop_receiver bops (sub_topic sub) (sub_receiver sub) (subscriptions (loop_of n))"
    by (auto simp: subscribe_finish_def split: sum.splits)
  show ?thesis
    by (rule streams_inv_drop [OF ok inv, where sub = sub and sd = sd])
      (simp_all add: subscribe_error s holds_sub_def)
next
  case (poll sd sub item s)
  obtain res subs where recv: "receive bops (sub_topic sub) (sub_receiver sub)
      (subscriptions (loop_of n)) = (res, subs)" by fastforce
  have s: "subscriptions s = subs"
    and item: "item = (case res of Received e \<Rightarrow> Yields e | Lagged k \<Rightarrow> Skips k | Closed \<Rightarrow> Ends
      | Pending \<Rightarrow> Waits)"
    using poll(3) recv by (auto simp: stream_poll_def count_event_def Let_def split: recv_result.splits)
  show ?thesis
    by (rule streams_inv_poll [OF ok inv _ recv _ _ _ item]) (simp_all add: poll(1,2) s holds_sub_def)
next
  case (cancel sd tk)
  show ?thesis
  proof (cases "subscription_of tk")
    case None
    then have "release bops tk (loop_of n) = loop_of n" by (cases tk) simp_all
    with cancel show ?thesis
      by (intro streams_inv_same [OF inv]) (auto intro: holds_sub_ended [of t n sd])
  next
    case (Some sub)
    then have "subscriptions (release bops tk (loop_of n)) =
        drop_receiver bops (sub_topic sub) (sub_receiver sub) (subscriptions (loop_of n))"
      by (cases tk) simp_all
    with Some cancel show ?thesis
      by (intro streams_inv_drop [OF ok inv, where sub = sub and sd = sd]) (simp_all add: holds_sub_def)
  qed
next
  case (other_call c)
  then show ?thesis
    by (intro streams_inv_same [OF inv]) (auto intro: holds_sub_call [of t n "next_sender n"])
next
  case (other_return sd c r)
  then show ?thesis
    by (intro streams_inv_same [OF inv]) (auto intro: holds_sub_ended [of t n sd])
next
  case (http_request peer now st encode path resp m)
  then show ?thesis by (intro streams_inv_same [OF inv]) (simp_all add: holds_sub_def)
qed

interpretation streams_sys: invariant_system sys_start "sys_step w ops bops lp"
  "\<lambda>n. broadcast_ok bops v \<longrightarrow> streams_inv v n" for w ops bops lp v
proof unfold_locales
  fix n :: "('a, 'b, 'c, 'd) system"
  assume "sys_start n"
  then show "broadcast_ok bops v \<longrightarrow> streams_inv v n"
    by (auto simp: streams_inv_def holds_sub_def sys_start_def)
qed (blast intro: streams_inv_step)

lemma reachable_streams:
  "sys_reachable w ops bops lp n \<Longrightarrow> broadcast_ok bops v \<Longrightarrow> streams_inv v n"
  unfolding sys_reachable_def by (elim exE conjE) (rule streams_sys.reachable_invar [THEN mp])

subsection \<open>Losses are counted\<close>

text \<open>A stream that was told of lost messages was counted under \<open>subscriber_lagged\<close>.\<close>

definition lags_inv :: "('w, 'p, 'c, 'r) system \<Rightarrow> bool" where
  "lags_inv n \<longleftrightarrow>
     (\<forall>sd sub. holds_sub n sd sub \<longrightarrow> 0 < sub_lost sub \<longrightarrow>
        0 < event_count (loop_metrics (loop_of n)) ''subscriber_lagged'')"

lemma event_count_mono: "event_count m label \<le> event_count (increment_event label' m) label"
  by (simp add: event_count_def increment_event_def)

lemma publish_finish_events:
  "publish_finish w bops rd lp req r s = (res, s') \<Longrightarrow>
     event_count (loop_metrics s) ''subscriber_lagged'' \<le>
     event_count (loop_metrics s') ''subscriber_lagged''"
  by (auto simp: publish_finish_def publish_counted_def count_event_def count_sent_def Let_def
      event_count_def increment_event_def split: option.splits sum.splits if_splits)

lemma stream_poll_events:
  "stream_poll bops t q s = (item, s') \<Longrightarrow>
     event_count (loop_metrics s) ''subscriber_lagged'' \<le>
       event_count (loop_metrics s') ''subscriber_lagged'' \<and>
     (\<forall>k. item = Skips k \<longrightarrow> 0 < event_count (loop_metrics s') ''subscriber_lagged'')"
  by (auto simp: stream_poll_def count_event_def Let_def event_count_mono event_count_def
      increment_event_def split: prod.splits recv_result.splits)

lemma event_count_cong: "p2p_events m' = p2p_events m \<Longrightarrow> event_count m' label = event_count m label"
  by (simp add: event_count_def)

lemma lags_inv_kept:
  assumes inv: "lags_inv n"
    and mono: "event_count (loop_metrics (loop_of n)) ''subscriber_lagged'' \<le>
      event_count (loop_metrics (loop_of t)) ''subscriber_lagged''"
    and old: "\<And>sd sub. holds_sub t sd sub \<Longrightarrow> 0 < sub_lost sub \<Longrightarrow>
      (\<exists>sub0. holds_sub n sd sub0 \<and> 0 < sub_lost sub0) \<or>
      0 < event_count (loop_metrics (loop_of t)) ''subscriber_lagged''"
  shows "lags_inv t"
  using inv mono old unfolding lags_inv_def by (meson less_le_trans)

lemma lags_inv_step:
  fixes n t :: "('w, 'p, 'c, 'r) system"
  assumes inv: "lags_inv n" and step: "sys_step w ops bops lp n t"
  shows "lags_inv t"
  using step
proof (cases rule: sys_step.cases)
  case (network_event rd ev m)
  have "event_count (loop_metrics (loop_of t)) ''subscriber_lagged'' =
      event_count (loop_metrics (loop_of n)) ''subscriber_lagged''"
    by (rule event_count_cong) (simp add: network_event(1) net_event_loop [OF network_event(2)] event_counters
        del: handle_event.simps published.simps)
  moreover have "tasks t = tasks n" by (simp add: network_event(1) del: published.simps)
  ultimately show ?thesis by (intro lags_inv_kept [OF inv]) (auto simp: holds_sub_def)
next
  case (publish_return sd req r rd res s)
  then show ?thesis
    by (intro lags_inv_kept [OF inv]) (auto dest: publish_finish_events simp: holds_sub_def split: if_splits)
next
  case (subscribe_return sd sub r receiver s)
  then show ?thesis
    by (intro lags_inv_kept [OF inv])
      (auto simp: subscribe_finish_counters holds_sub_def split: if_splits)
next
  case (poll sd sub item s)
  have "(\<exists>sub0. holds_sub n sd' sub0 \<and> 0 < sub_lost sub0) \<or>
      0 < event_count (loop_metrics s) ''subscriber_lagged''"
    if "holds_sub t sd' sub'" "0 < sub_lost sub'" for sd' sub'
  proof (cases "sd' = sd")
    case True
    with that(1) poll(1) obtain tk :: "('p, 'r) rpc_task" where after: "after_poll item sub = Some tk"
      "subscription_of tk = Some sub'"
      by (auto simp: holds_sub_def)
    have "holds_sub n sd sub" using poll(2) by (simp add: holds_sub_def)
    then have "0 < sub_lost sub \<Longrightarrow> ?thesis" using True by blast
    with after that(2) stream_poll_events [OF poll(3)] show ?thesis by (cases item) auto
  next
    case False
    with that poll(1) show ?thesis by (auto simp: holds_sub_def)
  qed
  then show ?thesis
    using poll stream_poll_events [OF poll(3)] by (intro lags_inv_kept [OF inv]) simp_all
next
  case (http_request peer now st encode path resp m)
  have "event_count (loop_metrics (loop_of t)) ''subscriber_lagged'' =
      event_count (loop_metrics (loop_of n)) ''subscriber_lagged''"
    by (rule event_count_cong) (simp add: http_request(1) http_route_peers [OF http_request(2)])
  moreover have "tasks t = tasks n" by (simp add: http_request(1))
  ultimately show ?thesis by (intro lags_inv_kept [OF inv]) (auto simp: holds_sub_def)
qed (rule lags_inv_kept [OF inv]; auto simp: command_frame subscribe_finish_counters holds_sub_def
    simp del: handle_command.simps split: if_splits)+

interpretation lags_sys: invariant_system sys_start "sys_step w ops bops lp" lags_inv
  for w ops bops lp
proof unfold_locales
  fix n :: "('a, 'b, 'c, 'd) system"
  assume "sys_start n"
  then show "lags_inv n" by (auto simp: lags_inv_def holds_sub_def sys_start_def)
qed (rule lags_inv_step)

lemma reachable_lags: "sys_reachable w ops bops lp n \<Longrightarrow> lags_inv n"
  unfolding sys_reachable_def by (elim exE conjE) (rule lags_sys.reachable_invar)

end
