(* ===== verification/System_Runs.thy ===== *)
theory System_Runs
  imports System_Invariants
begin

section \<open>Endless runs of the interleaved system\<close>

text \<open>
  A run is a function from the number of steps to the state. What the libraries promise of it is
  stated as properties of the run: tokio's channel and scheduler hand every command to the event
  loop at last, and libp2p ends every dial with an event. Along such a run every call is
  answered.
\<close>

type_synonym ('w, 'p, 'c, 'r) run = "nat \<Rightarrow> ('w, 'p, 'c, 'r) system"

definition sys_run ::
    "'p wire \<Rightarrow> ('w, 'p) swarm_ops \<Rightarrow> ('c, 'r) broadcast_ops \<Rightarrow> 'p \<Rightarrow> ('w, 'p, 'c, 'r) run \<Rightarrow> bool" where
  "sys_run w ops bops lp f \<longleftrightarrow>
     sys_reachable w ops bops lp (f 0) \<and> (\<forall>i. sys_step w ops bops lp (f i) (f (Suc i)))"

text \<open>No command stays in the channel.\<close>

definition commands_taken :: "('w, 'p, 'c, 'r) run \<Rightarrow> bool" where
  "commands_taken f \<longleftrightarrow>
     (\<forall>i. \<forall>c \<in> set (in_flight (f i)). \<exists>j \<ge> i. sender_of c \<notin> sender_of ` set (in_flight (f j)))"

text \<open>A step in which the swarm announces the end of a dial of \<open>p\<close>, and: no dial stays in flight.\<close>

definition dial_ends ::
    "('w, 'p) swarm_ops \<Rightarrow> ('c, 'r) broadcast_ops \<Rightarrow> 'p
      \<Rightarrow> ('w, 'p, 'c, 'r) system \<Rightarrow> ('w, 'p, 'c, 'r) system \<Rightarrow> bool" where
  "dial_ends ops bops p n t \<longleftrightarrow>
     (\<exists>rd ev r m. settles ev = Some (p, r) \<and> net_event ops bops rd ev (net n) m \<and>
        t = hand_out (published [SwarmInput rd ev]) (n\<lparr>net := m\<rparr>))"

definition dials_end :: "('w, 'p) swarm_ops \<Rightarrow> ('c, 'r) broadcast_ops \<Rightarrow> ('w, 'p, 'c, 'r) run \<Rightarrow> bool" where
  "dials_end ops bops f \<longleftrightarrow>
     (\<forall>i p. pending_dials (loop_of (f i)) p \<noteq> None \<longrightarrow>
        (\<exists>j \<ge> i. dial_ends ops bops p (f j) (f (Suc j))))"

subsection \<open>Along a run\<close>

lemma run_reachable:
  assumes "sys_run w ops bops lp f"
  shows "sys_reachable w ops bops lp (f i)"
proof (induction i)
  case (Suc i)
  with assms show ?case unfolding sys_run_def by (blast intro: sys_reachable_step)
qed (use assms in \<open>simp add: sys_run_def\<close>)

lemma run_step: "sys_run w ops bops lp f \<Longrightarrow> sys_step w ops bops lp (f i) (f (Suc i))"
  by (simp add: sys_run_def)

lemma step_next_sender: "sys_step w ops bops lp n t \<Longrightarrow> next_sender n \<le> next_sender t"
  by (erule sys_step_kinds) linarith+

lemma run_next_sender:
  assumes "sys_run w ops bops lp f" "i \<le> j"
  shows "next_sender (f i) \<le> next_sender (f j)"
  by (rule lift_Suc_mono_le [where f = "\<lambda>k. next_sender (f k)", OF step_next_sender [OF run_step [OF assms(1)]] assms(2)])

lemma step_replies:
  assumes "sys_step w ops bops lp n t"
  shows "\<exists>more. replies (loop_of t) = replies (loop_of n) @ more"
  using assms
proof (cases rule: sys_step_kinds)
  case (event rd ev)
  then show ?thesis using handle_event_replies net_event_loop by metis
next
  case (take_one q1 c q2 ord)
  then show ?thesis using handle_command_replies by metis
qed (simp_all add: core_eq_def)

lemma run_answer_kept:
  assumes run: "sys_run w ops bops lp f" and ij: "i \<le> j"
    and ans: "map_of (replies (loop_of (f i))) sd = Some r"
  shows "map_of (replies (loop_of (f j))) sd = Some r"
  using ij
proof (induction rule: dec_induct)
  case (step k)
  from step_replies [OF run_step [OF run]] obtain more where
    "replies (loop_of (f (Suc k))) = replies (loop_of (f k)) @ more" by blast
  with step.IH show ?case by (simp add: map_add_def)
qed (rule ans)

text \<open>A sender parked on a dial stays there until it is answered, and an ending dial answers it.\<close>

abbreviation parked :: "sender \<Rightarrow> 'p \<Rightarrow> ('w, 'p, 'c, 'r) system \<Rightarrow> bool" where
  "parked sd p n \<equiv> sd \<in> set (queue_of (pending_dials (loop_of n)) p)"

abbreviation has_answer :: "sender \<Rightarrow> ('w, 'p, 'c, 'r) system \<Rightarrow> bool" where
  "has_answer sd n \<equiv> sd \<in> fst ` set (replies (loop_of n))"

lemma settled_answers:
  assumes "parked sd p n" "loop_of t = handle_event ops bops rd ev (loop_of n)" "settles ev = Some (p, r)"
  shows "has_answer sd t"
  using assms by (simp add: event_dials image_Un image_image del: handle_event.simps)

lemma step_parked:
  assumes parked: "parked sd p n" and step: "sys_step w ops bops lp n t"
  shows "parked sd p t \<or> has_answer sd t"
  using step
proof (cases rule: sys_step_kinds)
  case (event rd ev)
  note loop = net_event_loop [OF event(1)]
  show ?thesis
  proof (cases "\<exists>r. settles ev = Some (p, r)")
    case True
    with settled_answers [OF parked loop] show ?thesis by blast
  next
    case False
    with parked show ?thesis
      by (auto simp: loop event_dials simp del: handle_event.simps split: option.split)
  qed
next
  case (take_one q1 c q2 ord)
  with parked command_dials [of ops ord c "loop_of n"] show ?thesis
    by (auto simp del: handle_command.simps)
qed (use parked in \<open>simp_all add: core_eq_def\<close>)

lemma dial_end_answers: "parked sd p n \<Longrightarrow> dial_ends ops bops p n t \<Longrightarrow> has_answer sd t"
  by (auto simp: dial_ends_def net_event_loop simp del: handle_event.simps intro: settled_answers)

lemma run_parked:
  assumes run: "sys_run w ops bops lp f" and parked: "parked sd p (f i)" and "i \<le> j"
  shows "parked sd p (f j) \<or> (\<exists>k. i \<le> k \<and> k \<le> j \<and> has_answer sd (f k))"
  using assms(3)
proof (induction rule: dec_induct)
  case (step j)
  have "parked sd p (f (Suc j)) \<or> has_answer sd (f (Suc j))" if "parked sd p (f j)"
    using step_parked [OF that run_step [OF run]] .
  with step show ?case by (meson le_SucI order_refl)
qed (use parked in simp)

lemma parked_answered:
  assumes run: "sys_run w ops bops lp f" and ends: "dials_end ops bops f" and parked: "parked sd p (f i)"
  shows "\<exists>j \<ge> i. has_answer sd (f j)"
proof -
  from parked have "pending_dials (loop_of (f i)) p \<noteq> None" by (cases "pending_dials (loop_of (f i)) p") (simp_all add: queue_of_def)
  with ends obtain j where j: "i \<le> j" "dial_ends ops bops p (f j) (f (Suc j))"
    by (auto simp: dials_end_def)
  from run_parked [OF run parked j(1)] show ?thesis
  proof (elim disjE exE conjE)
    assume "parked sd p (f j)"
    from dial_end_answers [OF this j(2)] j(1) show ?thesis by (intro exI [of _ "Suc j"]) simp
  qed blast
qed

text \<open>Every sender the client has issued is answered at last.\<close>

lemma run_answers:
  assumes run: "sys_run w ops bops lp f" and taken: "commands_taken f" and ends: "dials_end ops bops f"
    and issued: "sd < next_sender (f i)"
  shows "\<exists>j \<ge> i. has_answer sd (f j)"
proof -
  have "\<exists>j \<ge> i. sd \<notin> sender_of ` set (in_flight (f j))"
    using taken unfolding commands_taken_def by (cases "sd \<in> sender_of ` set (in_flight (f i))") auto
  then obtain j where j: "i \<le> j" "sd \<notin> sender_of ` set (in_flight (f j))" by blast
  have "sd < next_sender (f j)" using issued run_next_sender [OF run j(1)] by simp
  with sys_reachable_invariants(3) [OF run_reachable [OF run]] show ?thesis
  proof (cases rule: account_somewhere)
    case (2 p)
    with parked_answered [OF run ends] j(1) show ?thesis by (meson le_trans)
  qed (use j in blast)+
qed

end
