(* ===== verification/System_Properties.thy ===== *)
theory System_Properties
  imports System_Streams System_Runs Reference_Environment
begin

section \<open>Properties of the interleaved system\<close>

text \<open>
  The properties that hold whatever the order in which the service's tasks run, with their
  witnesses, which walk a concrete system through one subscription and one publication with echo.
\<close>

subsection \<open>A concrete run\<close>

definition demo_request :: publish_request where
  "demo_request = \<lparr>pr_topic = ''ALIVE'', pr_payload = [7], pr_echo = True\<rparr>"

definition demo_sub :: "nat subscription" where
  "demo_sub = \<lparr>sub_topic = ''ALIVE'', sub_receiver = 0, sub_since = 0, sub_yielded = [], sub_lost = 0\<rparr>"

definition demo_start :: "(swarm_call list, nat, queue_channel, nat) system" where
  "demo_start = \<lparr>net = sample_start, in_flight = [], tasks = Map.empty, next_sender = 0, history = []\<rparr>"

definition demo_calling :: "(swarm_call list, nat, queue_channel, nat) system" where
  "demo_calling = start_call (Subscribe ''ALIVE'' 0) (SubscribeCall demo_sub)
     (with_loop (sample_loop\<lparr>subscriptions :=
        snd (subscribe queue_channel_ops ''ALIVE'' (subscriptions sample_loop))\<rparr>) demo_start)"

definition demo_taken :: "(swarm_call list, nat, queue_channel, nat) system" where
  "demo_taken = with_loop (handle_command sample_ops [] (Subscribe ''ALIVE'' 0) (loop_of demo_calling))
     (demo_calling\<lparr>in_flight := []\<rparr>)"

definition demo_open :: "(swarm_call list, nat, queue_channel, nat) system" where
  "demo_open = set_task 0 (Some (StreamOpen demo_sub)) (with_loop (loop_of demo_taken) demo_taken)"

definition demo_publishing :: "(swarm_call list, nat, queue_channel, nat) system" where
  "demo_publishing = start_call (PublishMessage ''ALIVE'' [7] 1) (PublishCall demo_request) demo_open"

definition demo_sent :: "(swarm_call list, nat, queue_channel, nat) system" where
  "demo_sent = with_loop (handle_command sample_ops [] (PublishMessage ''ALIVE'' [7] 1) (loop_of demo_publishing))
     (demo_publishing\<lparr>in_flight := []\<rparr>)"

definition demo_echoed :: "(swarm_call list, nat, queue_channel, nat) system" where
  "demo_echoed = hand_out (echoed sample_reading 0 demo_request (Inr Done)) (set_task 1 None
     (with_loop (snd (publish_finish sample_wire queue_channel_ops sample_reading 0 demo_request
        (Inr Done) (loop_of demo_sent))) demo_sent))"

definition demo_polled :: "(swarm_call list, nat, queue_channel, nat) system" where
  "demo_polled = (case stream_poll queue_channel_ops ''ALIVE'' 0 (loop_of demo_echoed) of
     (item, s) \<Rightarrow> set_task 0 (after_poll item demo_sub) (with_loop s demo_echoed))"

abbreviation demo_reachable :: "(swarm_call list, nat, queue_channel, nat) system \<Rightarrow> bool" where
  "demo_reachable \<equiv> sys_reachable sample_wire sample_ops queue_channel_ops 0"

lemmas demo_steps = sys_step.intros [where w = sample_wire and ops = sample_ops
    and bops = queue_channel_ops and local_peer_id = "0::nat"]

lemma demo_start_reachable: "demo_reachable demo_start"
proof -
  have "sys_start demo_start"
    using sample_start unfolding sys_start_def net_start_def
    by (simp add: demo_start_def sample_start_def sample_loop_def) blast
  then show ?thesis unfolding sys_reachable_def by blast
qed

lemma demo_calling_reachable: "demo_reachable demo_calling"
proof -
  have sub: "subscribe queue_channel_ops ''ALIVE'' (subscriptions (loop_of demo_start)) =
      (0, snd (subscribe queue_channel_ops ''ALIVE'' (subscriptions sample_loop)))"
    by (simp add: demo_start_def sample_start_def sample_loop_def event_loop_new_def subscriptions_new_def
        subscribe_def qc_subscribe_def qc_new_def)
  show ?thesis
    using sys_reachable_step [OF demo_start_reachable demo_steps(5) [OF _ sub]]
    by (simp add: demo_calling_def demo_sub_def) (simp add: demo_start_def sample_start_def)
qed

lemma demo_taken_reachable: "demo_reachable demo_taken"
proof -
  have fl: "in_flight demo_calling = [] @ Subscribe ''ALIVE'' 0 # []"
    by (simp add: demo_calling_def) (simp add: demo_start_def)
  show ?thesis
    using sys_reachable_step [OF demo_calling_reachable demo_steps(2) [OF fl, of "[]"]]
    by (simp add: demo_taken_def del: handle_command.simps)
qed

lemma demo_taken_simps:
  "tasks demo_taken 0 = Some (SubscribeCall demo_sub)" "replies (loop_of demo_taken) = [(0, Inr Done)]"
  "in_flight demo_taken = []" "next_sender demo_taken = 1" "history demo_taken = []"
  by (simp_all add: demo_taken_def demo_calling_def answer_def)
    (simp_all add: demo_start_def sample_loop_def event_loop_new_def)

lemma demo_open_reachable: "demo_reachable demo_open"
proof -
  have reply: "map_of (replies (loop_of demo_taken)) 0 = Some (Inr Done)" by (simp add: demo_taken_simps)
  have "subscribe_finish sample_wire queue_channel_ops (sub_topic demo_sub) (sub_receiver demo_sub)
      (Inr Done) (loop_of demo_taken) = (Inr 0, loop_of demo_taken)"
    by (simp add: subscribe_finish_def demo_sub_def)
  from sys_reachable_step [OF demo_taken_reachable demo_steps(6) [OF demo_taken_simps(1) reply this]]
  show ?thesis by (simp add: demo_open_def demo_sub_def)
qed

lemma demo_publishing_reachable: "demo_reachable demo_publishing"
  using sys_reachable_step [OF demo_open_reachable demo_steps(3) [of demo_request]]
  by (simp add: demo_publishing_def demo_request_def demo_taken_simps demo_open_def)

lemma demo_sent_reachable: "demo_reachable demo_sent"
proof -
  have fl: "in_flight demo_publishing = [] @ PublishMessage ''ALIVE'' [7] 1 # []"
    by (simp add: demo_publishing_def demo_open_def demo_taken_simps)
  show ?thesis
    using sys_reachable_step [OF demo_publishing_reachable demo_steps(2) [OF fl, of "[]"]]
    by (simp add: demo_sent_def del: handle_command.simps)
qed

lemma demo_sent_simps:
  "tasks demo_sent 1 = Some (PublishCall demo_request)" "tasks demo_sent 0 = Some (StreamOpen demo_sub)"
  "replies (loop_of demo_sent) = [(0, Inr Done), (1, Inr Done)]" "history demo_sent = []"
  by (simp_all add: demo_sent_def demo_publishing_def demo_open_def answer_def demo_taken_simps)

lemma demo_echoed_reachable: "demo_reachable demo_echoed"
proof -
  have reply: "map_of (replies (loop_of demo_sent)) 1 = Some (Inr Done)" by (simp add: demo_sent_simps)
  obtain res s where fin: "publish_finish sample_wire queue_channel_ops sample_reading 0 demo_request
      (Inr Done) (loop_of demo_sent) = (res, s)" by fastforce
  from sys_reachable_step [OF demo_sent_reachable demo_steps(4) [OF demo_sent_simps(1) reply fin]] fin
  show ?thesis by (simp add: demo_echoed_def)
qed

lemma demo_polled_reachable: "demo_reachable demo_polled"
proof -
  have task: "tasks demo_echoed 0 = Some (StreamOpen demo_sub)"
    by (simp add: demo_echoed_def demo_sent_simps)
  obtain item s where it: "stream_poll queue_channel_ops (sub_topic demo_sub) (sub_receiver demo_sub)
      (loop_of demo_echoed) = (item, s)" by fastforce
  from sys_reachable_step [OF demo_echoed_reachable demo_steps(8) [OF task it]] it
  show ?thesis by (simp add: demo_polled_def demo_sub_def)
qed

definition demo_envelope :: envelope where
  "demo_envelope = echo_envelope sample_reading 0 demo_request"

lemma demo_channel:
  "senders (subscriptions (loop_of demo_sent)) ''ALIVE'' =
     Some \<lparr>qc_room = 4, qc_next = 1, qc_slots = [0 \<mapsto> ([], 0)]\<rparr>"
  by (simp add: demo_sent_def demo_publishing_def demo_open_def demo_taken_def demo_calling_def)
    (simp add: sample_loop_def event_loop_new_def subscriptions_new_def subscribe_def qc_subscribe_def
      qc_new_def)

lemma demo_echo: "echoed sample_reading 0 demo_request (Inr Done) = [demo_envelope]"
  by (simp add: echoed_def publish_failed_def demo_envelope_def demo_request_def)

lemma demo_echoed_channel:
  "senders (subscriptions (loop_of demo_echoed)) ''ALIVE'' =
     Some \<lparr>qc_room = 4, qc_next = 1, qc_slots = [0 \<mapsto> ([demo_envelope], 0)]\<rparr>"
proof -
  obtain res s where fin: "publish_finish sample_wire queue_channel_ops sample_reading 0 demo_request
      (Inr Done) (loop_of demo_sent) = (res, s)" by fastforce
  have env: "topic demo_envelope = ''ALIVE''"
    by (simp add: demo_envelope_def echo_envelope_def demo_request_def)
  from publish_finish_subscriptions [OF fin] fin show ?thesis
    by (simp add: demo_echoed_def demo_echo publish_senders env demo_channel qc_send_def newest_def
        fun_eq_iff)
qed

lemma demo_polled_simps:
  "history demo_polled = [demo_envelope]"
  "tasks demo_polled 0 = Some (StreamOpen (demo_sub\<lparr>sub_yielded := [demo_envelope]\<rparr>))"
  "topic_queue queue_channel_view (subscriptions (loop_of demo_polled)) ''ALIVE'' 0 = []"
proof -
  have poll: "\<exists>s. stream_poll queue_channel_ops ''ALIVE'' 0 (loop_of demo_echoed) = (Yields demo_envelope, s) \<and>
      topic_queue queue_channel_view (subscriptions s) ''ALIVE'' 0 = []"
    by (simp add: stream_poll_def receive_def demo_echoed_channel qc_recv_def topic_queue_def
        queue_channel_view_def)
  then obtain s where s: "stream_poll queue_channel_ops ''ALIVE'' 0 (loop_of demo_echoed) = (Yields demo_envelope, s)"
    "topic_queue queue_channel_view (subscriptions s) ''ALIVE'' 0 = []" by blast
  show "history demo_polled = [demo_envelope]"
    "tasks demo_polled 0 = Some (StreamOpen (demo_sub\<lparr>sub_yielded := [demo_envelope]\<rparr>))"
    "topic_queue queue_channel_view (subscriptions (loop_of demo_polled)) ''ALIVE'' 0 = []"
    by (simp_all add: demo_polled_def s) (simp_all add: demo_echoed_def demo_echo demo_sent_simps demo_sub_def)
qed

subsection \<open>Streams\<close>

text \<open>C9. In every reachable state of the interleaved system, each open stream stands at a point of
  its topic: the messages handed to the registry since its \<open>Subscribe\<close> call, those of the network
  and the echoes of every other handler, are a part that is over followed by what waits in its
  channel, in order. The stream has yielded a subsequence of the part that is over, each message
  at most once; the rest of that part is exactly what it was told it lost and has yet to be told.
  If there is no such loss it has yielded everything, and a loss it was told of is counted.\<close>

theorem stream_exactly_once:
  assumes "broadcast_ok bops v" "sys_reachable w ops bops lp n" "tasks n sd = Some (StreamOpen sub)"
  shows "\<exists>over. on_topic (sub_topic sub) (drop (sub_since sub) (history n)) =
      over @ topic_queue v (subscriptions (loop_of n)) (sub_topic sub) (sub_receiver sub) \<and>
    subseq (sub_yielded sub) over \<and>
    length over = length (sub_yielded sub) + sub_lost sub +
      topic_missed v (subscriptions (loop_of n)) (sub_topic sub) (sub_receiver sub) \<and>
    (sub_lost sub = 0 \<and>
      topic_missed v (subscriptions (loop_of n)) (sub_topic sub) (sub_receiver sub) = 0 \<longrightarrow>
      sub_yielded sub = over) \<and>
    (0 < sub_lost sub \<longrightarrow> 0 < event_count (loop_metrics (loop_of n)) ''subscriber_lagged'')"
proof -
  have "holds_sub n sd sub" using assms(3) by (simp add: holds_sub_def)
  with reachable_streams [OF assms(2,1)] reachable_lags [OF assms(2)]
  have st: "stream_ok v (subscriptions (loop_of n)) (history n) sub"
    and lag: "0 < sub_lost sub \<longrightarrow> 0 < event_count (loop_metrics (loop_of n)) ''subscriber_lagged''"
    by (auto simp: streams_inv_def lags_inv_def)
  from st obtain over where over: "on_topic (sub_topic sub) (drop (sub_since sub) (history n)) =
      over @ topic_queue v (subscriptions (loop_of n)) (sub_topic sub) (sub_receiver sub)"
    "subseq (sub_yielded sub) over" "length over = length (sub_yielded sub) + sub_lost sub +
      topic_missed v (subscriptions (loop_of n)) (sub_topic sub) (sub_receiver sub)"
    by (auto simp: stream_ok_def)
  have "sub_lost sub = 0 \<and>
      topic_missed v (subscriptions (loop_of n)) (sub_topic sub) (sub_receiver sub) = 0 \<longrightarrow>
      sub_yielded sub = over"
    using subseq_same_length [OF over(2)] over(3) by simp
  with over lag show ?thesis by (intro exI [of _ over] conjI)
qed

theorem stream_exactly_once_witness:
  "sub_yielded (demo_sub\<lparr>sub_yielded := [demo_envelope]\<rparr>) = on_topic ''ALIVE'' (history demo_polled)"
proof -
  note facts = stream_exactly_once [OF queue_channel_ok demo_polled_reachable demo_polled_simps(2)]
  then obtain over where "on_topic ''ALIVE'' (history demo_polled) = over" "subseq [demo_envelope] over"
    by (auto simp: demo_sub_def demo_polled_simps(3))
  then show ?thesis by (auto simp: demo_polled_simps(1) split: if_splits)
qed

subsection \<open>Calls\<close>

text \<open>C11. However the tasks interleave, every sender the client has issued is in exactly one place:
  with its command in the channel, parked on a dial in flight, or answered, once; and the answer
  to a call that still waits is of the kind its command asks for.\<close>

theorem calls_accounted:
  assumes "sys_reachable w ops bops lp n"
  shows "count (answered (loop_of n)) sd + count (waiting (pending_dials (loop_of n))) sd +
      count (mset (map sender_of (in_flight n))) sd = (if sd < next_sender n then 1 else 0) \<and>
    (\<forall>tk c r. tasks n sd = Some tk \<longrightarrow> command_of sd tk = Some c \<longrightarrow>
       (sd, r) \<in> set (replies (loop_of n)) \<longrightarrow> reply_fits c r)"
  using account_count sys_reachable_invariants(2,3) [OF assms] by (fastforce simp: calls_inv_def task_ok_def)

theorem calls_accounted_witness:
  "count (mset (map sender_of (in_flight demo_publishing))) 1 = 1"
  using calls_accounted [OF demo_publishing_reachable, of 1]
  by (simp add: demo_publishing_def demo_open_def demo_taken_simps)

text \<open>C10. No call is ever stuck: in every endless run of the system, whatever the order of its
  steps, in which no command stays in the channel for ever and no dial stays in flight for ever,
  the event loop answers every call ever sent, also when the caller is gone; the answer stays,
  and it is of the kind that a task which still waits for it has asked for.\<close>

theorem call_is_answered:
  assumes "sys_run w ops bops lp f" "commands_taken f" "dials_end ops bops f"
    and "sd < next_sender (f i)"
  shows "\<exists>j \<ge> i. \<exists>r. \<forall>k \<ge> j. map_of (replies (loop_of (f k))) sd = Some r \<and>
    (\<forall>tk c. tasks (f k) sd = Some tk \<longrightarrow> command_of sd tk = Some c \<longrightarrow> reply_fits c r)"
proof -
  from run_answers [OF assms] obtain j where j: "i \<le> j" "has_answer sd (f j)" by blast
  then have "map_of (replies (loop_of (f j))) sd \<noteq> None" by (simp add: map_of_eq_None_iff)
  then obtain r where r: "map_of (replies (loop_of (f j))) sd = Some r" by blast
  have "map_of (replies (loop_of (f k))) sd = Some r \<and>
      (\<forall>tk c. tasks (f k) sd = Some tk \<longrightarrow> command_of sd tk = Some c \<longrightarrow> reply_fits c r)"
    if "j \<le> k" for k
  proof -
    from run_answer_kept [OF assms(1) that r] have ans: "map_of (replies (loop_of (f k))) sd = Some r" .
    with sys_reachable_invariants(2) [OF run_reachable [OF assms(1), of k]] map_of_SomeD [OF ans]
    show ?thesis by (fastforce simp: calls_inv_def task_ok_def)
  qed
  with j(1) show ?thesis by blast
qed

text \<open>A run in which a peer is dialed, the dial fails, and nothing happens any more.\<close>

definition demo_dialing :: "(swarm_call list, nat, queue_channel, nat) system" where
  "demo_dialing = start_call (Dial 5 [] 0) (OtherCall (Dial 5 [] 0)) demo_start"

definition demo_dialed :: "(swarm_call list, nat, queue_channel, nat) system" where
  "demo_dialed = with_loop (handle_command sample_ops [] (Dial 5 [] 0) (loop_of demo_dialing))
     (demo_dialing\<lparr>in_flight := []\<rparr>)"

definition demo_dial_failed :: "(swarm_call list, nat, queue_channel, nat) system" where
  "demo_dial_failed = hand_out [] (demo_dialed\<lparr>net := \<lparr>event_loop = handle_event sample_ops queue_channel_ops
     sample_reading (OutgoingConnectionError (Some 5) WrongPeerId) (loop_of demo_dialed), live = []\<rparr>\<rparr>)"

definition demo_run :: "(swarm_call list, nat, queue_channel, nat) run" where
  "demo_run i = (if i = 0 then demo_dialing else if i = 1 then demo_dialed else demo_dial_failed)"

lemma demo_dial_simps:
  "in_flight demo_dialing = [Dial 5 [] 0]" "in_flight demo_dialed = []" "in_flight demo_dial_failed = []"
  "next_sender demo_dialing = 1" "live (net demo_dialed) = []"
  "pending_dials (loop_of demo_dialing) = Map.empty" "pending_dials (loop_of demo_dialed) = [5 \<mapsto> [0]]"
  "pending_dials (loop_of demo_dial_failed) = Map.empty"
  by (simp_all add: demo_dial_failed_def demo_dialed_def demo_dialing_def handle_dial_def
      handle_outgoing_error_dials)
    (simp_all add: demo_start_def sample_start_def sample_loop_def event_loop_new_def)

lemma demo_dial_ends: "dial_ends sample_ops queue_channel_ops 5 demo_dialed demo_dial_failed"
proof -
  let ?ev = "OutgoingConnectionError (Some 5) WrongPeerId :: nat swarm_event"
  have "net_event sample_ops queue_channel_ops sample_reading ?ev (net demo_dialed)
      \<lparr>event_loop = handle_event sample_ops queue_channel_ops sample_reading ?ev (loop_of demo_dialed),
       live = live (net demo_dialed)\<rparr>" by (rule net_event.others) simp
  moreover have "settles ?ev = Some (5, Inl (DialFailed WrongPeerId))" by simp
  ultimately show ?thesis
    unfolding dial_ends_def demo_dial_failed_def
    by (intro exI [of _ sample_reading] exI [of _ ?ev]) (auto simp: demo_dial_simps)
qed

lemma dial_ends_step: "dial_ends ops bops p n t \<Longrightarrow> sys_step w ops bops lp n t"
  by (auto simp: dial_ends_def simp del: published.simps intro: sys_step.network_event)

lemma demo_run: "sys_run sample_wire sample_ops queue_channel_ops 0 demo_run"
  unfolding sys_run_def
proof (intro conjI allI)
  have fresh: "sender_of (Dial 5 [] 0) = next_sender demo_start" by (simp add: demo_start_def)
  from sys_reachable_step [OF demo_start_reachable demo_steps(10) [OF fresh]]
  show "demo_reachable (demo_run 0)" by (simp add: demo_run_def demo_dialing_def)
next
  fix i
  have taken: "sys_step sample_wire sample_ops queue_channel_ops 0 demo_dialing demo_dialed"
    using demo_steps(2) [of demo_dialing "[]" "Dial 5 [] 0" "[]" "[]"]
    by (simp add: demo_dial_simps demo_dialed_def del: handle_command.simps)
  have rest: "sys_step sample_wire sample_ops queue_channel_ops 0 demo_dial_failed demo_dial_failed"
    using demo_steps(12) [of "[]" "[]" "Inl []" "\<lambda>m. Inr []" "[]" demo_dial_failed HttpNotFound
        "loop_metrics (loop_of demo_dial_failed)"]
    by (simp add: http_route_def with_loop_def)
  show "sys_step sample_wire sample_ops queue_channel_ops 0 (demo_run i) (demo_run (Suc i))"
    using taken rest dial_ends_step [OF demo_dial_ends] by (simp add: demo_run_def)
qed

theorem call_is_answered_witness:
  "\<exists>j. \<exists>r. map_of (replies (loop_of (demo_run j))) 0 = Some r"
proof -
  have "commands_taken demo_run"
    unfolding commands_taken_def by (auto simp: demo_run_def demo_dial_simps intro!: exI [of _ 1])
  moreover have "dials_end sample_ops queue_channel_ops demo_run"
    unfolding dials_end_def
    by (auto simp: demo_run_def demo_dial_simps intro!: exI [of _ 1] demo_dial_ends split: if_splits)
  moreover have "0 < next_sender (demo_run 0)" by (simp add: demo_run_def demo_dial_simps)
  ultimately show ?thesis using call_is_answered [OF demo_run, of 0 0] by blast
qed

subsection \<open>The shared state\<close>

text \<open>C12. The handlers, the streams and the HTTP endpoints that run beside the event loop leave its
  tables as its own events made them: in every reachable state of the system the connected peers
  are those with an open connection, the gauge counts the open connections, the protected peers
  are the bootstrap peers and at most the cap of preferred ones, and the counter of sent messages
  agrees with the counter of publish events.\<close>

theorem system_tables:
  assumes "sys_reachable w ops bops lp n"
  shows "dom (connected (loop_of n)) = {p. live_of p (live (net n)) \<noteq> []} \<and>
    connected_peers (loop_metrics (loop_of n)) = int (length (live (net n))) \<and>
    protected (loop_of n) = bootstrap_peers (loop_of n) \<union> dom (dial_hints (loop_of n)) \<and>
    card (dom (dial_hints (loop_of n))) \<le> protected_cap (settings (loop_of n)) \<and>
    total_messages_sent (loop_metrics (loop_of n)) =
      event_count (loop_metrics (loop_of n)) ''message_published''"
proof -
  note inv = sys_reachable_invariants(1) [OF assms, unfolded net_inv_def]
  from inv have "\<forall>p. connected (loop_of n) p = None \<longleftrightarrow> live_of p (live (net n)) = []"
    "connected_peers (loop_metrics (loop_of n)) = int (length (live (net n)))"
    unfolding table_inv_def Let_def by blast+
  moreover from inv have "protected (loop_of n) = bootstrap_peers (loop_of n) \<union> dom (dial_hints (loop_of n))"
    "card (dom (dial_hints (loop_of n))) \<le> protected_cap (settings (loop_of n))"
    unfolding protected_inv_def Let_def by blast+
  moreover have "total_messages_sent (loop_metrics (loop_of n)) =
      event_count (loop_metrics (loop_of n)) ''message_published''"
    using sys_reachable_counters [OF assms] by (simp add: counters_inv_def counters_agree_def)
  ultimately show ?thesis by (auto simp: dom_def)
qed

theorem system_tables_witness:
  "total_messages_sent (loop_metrics (loop_of demo_echoed)) =
     event_count (loop_metrics (loop_of demo_echoed)) ''message_published'' \<and>
   live (net demo_echoed) = []"
  using system_tables [OF demo_echoed_reachable]
  by (simp add: demo_echoed_def demo_sent_def demo_publishing_def demo_open_def demo_taken_def
      demo_calling_def) (simp add: demo_start_def sample_start_def)

end
