(* ===== verification/Config.thy ===== *)
theory Config
  imports Event_Loop
begin

section \<open>Configuration (src/config.rs)\<close>

text \<open>
  The records of the configuration file and their defaults. Deserialisation is serde's. A port
  is a \<open>u16\<close>, the peer store's path is split as in \<open>Peer_Store\<close>, and the default bootstrap addresses
  are parsed by libp2p's \<open>Multiaddr::from_str\<close>, an argument; \<open>expect\<close> on a failed parse is
  \<open>None\<close>.
\<close>

datatype port = Port u16

fun port_number :: "port \<Rightarrow> u16" where
  "port_number (Port n) = n"

record 'p p2p_config =
  cfg_port :: port
  cfg_grpc_host :: string
  cfg_grpc_port :: port
  cfg_metrics_port :: port
  cfg_peers :: "'p multiaddr list"
  cfg_topics :: "string list"
  cfg_nb_api_workers :: nat
  cfg_peerstore_path :: path
  cfg_low_water :: nat
  cfg_high_water :: nat
  cfg_per_subnet_cap :: nat
  cfg_max_protected_share :: f32
  cfg_maintenance_interval_secs :: nat

definition p2p_config_default :: "(string \<Rightarrow> 'p multiaddr option) \<Rightarrow> 'p p2p_config option" where
  "p2p_config_default parse =
     do {
       api2 \<leftarrow> parse
         ''/dns/api2.aleph.im/tcp/4025/p2p/QmZkurbY2G2hWay59yiTgQNaQxHSNzKZFt2jbnwJhQcKgV'';
       api3 \<leftarrow> parse
         ''/dns/api3.aleph.im/tcp/4025/p2p/Qmb5b2ZwJm9pVWrppf3D3iMF1bXbjZhbJTwGvKEBMZNxa2'';
       Some
         \<lparr>cfg_port = Port 4025,
          cfg_grpc_host = ''0.0.0.0'',
          cfg_grpc_port = Port 4030,
          cfg_metrics_port = Port 4040,
          cfg_peers = [api2, api3],
          cfg_topics = [''ALIVE'', ''ALEPH-TEST''],
          cfg_nb_api_workers = 4,
          cfg_peerstore_path = ('''', Some ''peerstore.json''),
          cfg_low_water = 80,
          cfg_high_water = 160,
          cfg_per_subnet_cap = 4,
          cfg_max_protected_share = F32 False (1, -1),
          cfg_maintenance_interval_secs = 30\<rparr>
     }"

record sentry_config =
  dsn :: "string option"
  traces_sample_rate :: "f32 option"

definition sentry_config_default :: sentry_config where
  "sentry_config_default = \<lparr>dsn = None, traces_sample_rate = None\<rparr>"

record 'p app_config =
  app_p2p :: "'p p2p_config"
  app_sentry :: sentry_config

text \<open>An empty file, or one without the two sections, gives the defaults of both.\<close>

definition app_config_default :: "(string \<Rightarrow> 'p multiaddr option) \<Rightarrow> 'p app_config option" where
  "app_config_default parse =
     map_option (\<lambda>c. \<lparr>app_p2p = c, app_sentry = sentry_config_default\<rparr>) (p2p_config_default parse)"

end
