(* ===== verification/Network_Setup.thy ===== *)
theory Network_Setup
  imports Event_Loop Std_Text Std_Time
begin

section \<open>Setting up the network (src/p2p/network.rs)\<close>

text \<open>
  What \<open>make_gossipsub_config\<close> and \<open>network::new\<close> decide: the settings they hand to libp2p as a
  value, the function that names messages, and the event loop they return. Building the swarm
  from the settings is libp2p's, an argument; it fails when the transport or the resolver cannot
  be set up, and the \<open>?\<close> operators of \<open>new\<close> return that error. \<open>DefaultHasher\<close> leaves its
  algorithm open: it is an argument too, a function of the bytes that are hashed.
\<close>

subsection \<open>Messages and their ids\<close>

record 'p gossipsub_message =
  gm_source :: "'p option"
  gm_data :: "u8 list"
  gm_sequence_number :: "u64 option"
  gm_topic :: string

text \<open>The id is the text of the hash of the payload.\<close>

definition message_id_fn :: "(u8 list \<Rightarrow> u64) \<Rightarrow> 'p gossipsub_message \<Rightarrow> string" where
  "message_id_fn hasher message = u64_to_string (hasher (gm_data message))"

subsection \<open>Settings\<close>

datatype validation_mode = Strict | Permissive | Anonymous | NoValidation

record gossipsub_config =
  heartbeat_interval :: duration
  gs_validation_mode :: validation_mode
  max_transmit_size :: nat
  max_messages_per_rpc :: "nat option"
  duplicate_cache_time :: duration
  peer_exchange :: bool

definition make_gossipsub_config :: gossipsub_config where
  "make_gossipsub_config =
     \<lparr>heartbeat_interval = from_secs 1, gs_validation_mode = Strict, max_transmit_size = 262144,
      max_messages_per_rpc = Some 100, duplicate_cache_time = from_secs 1800,
      peer_exchange = True\<rparr>"

definition identify_protocol_version :: string where
  "identify_protocol_version = ''/aleph/id/1.0.0''"

datatype muxer = Yamux | Mplex

record 'k swarm_setup =
  identity :: 'k
  tcp_nodelay :: bool
  muxers :: "muxer list"
  gossipsub :: gossipsub_config
  app_specific_weight :: real
  identify_version :: string
  agent_version :: string
  idle_connection_timeout :: duration

text \<open>\<open>pkg_version\<close> is the version that the build puts in place of \<open>CARGO_PKG_VERSION\<close>.\<close>

definition swarm_setup_of :: "string \<Rightarrow> 'k \<Rightarrow> 'k swarm_setup" where
  "swarm_setup_of pkg_version id_keys =
     \<lparr>identity = id_keys, tcp_nodelay = True, muxers = [Yamux, Mplex],
      gossipsub = make_gossipsub_config, app_specific_weight = 1,
      identify_version = identify_protocol_version,
      agent_version = ''aleph-p2p-service/'' @ pkg_version,
      idle_connection_timeout = from_secs 300\<rparr>"

definition network_new ::
    "('k swarm_setup \<Rightarrow> string + 'w) \<Rightarrow> string \<Rightarrow> 'k \<Rightarrow> network_settings \<Rightarrow> 'p set \<Rightarrow> metrics
      \<Rightarrow> 'c subscriptions \<Rightarrow> peer_store \<Rightarrow> string + ('w, 'p, 'c) event_loop" where
  "network_new build_swarm pkg_version id_keys cfg bootstrap m subs store =
     (case build_swarm (swarm_setup_of pkg_version id_keys) of
        Inl e \<Rightarrow> Inl e
      | Inr w \<Rightarrow> Inr (event_loop_new w subs m store cfg bootstrap))"

end
