(* ===== verification/Service_Main.thy ===== *)
theory Service_Main
  imports Config Maintenance P2P_Client Network_Setup
begin

section \<open>Start, supervision and shutdown (src/main.rs)\<close>

text \<open>
  \<open>main\<close> up to the supervision of the tasks, and what it does when one of them ends or a
  signal arrives. What comes from outside is an argument: the configuration file, the key file,
  libp2p's swarm, the turns of the event loop and the answers of the binds. A panic
  (\<open>expect\<close>, \<open>panic!\<close>) and an error returned from \<open>main\<close> are different results.
\<close>

subsection \<open>Validation\<close>

datatype config_error =
    LowWaterAboveHighWater nat nat
  | SubnetCapZero
  | ProtectedShareOutOfRange f32
  | IntervalZero

definition validate_config :: "'p app_config \<Rightarrow> config_error + unit" where
  "validate_config app =
     (let p2p = app_p2p app
      in if cfg_low_water p2p > cfg_high_water p2p
         then Inl (LowWaterAboveHighWater (cfg_low_water p2p) (cfg_high_water p2p))
         else if cfg_per_subnet_cap p2p = 0 then Inl SubnetCapZero
         else if \<not> f32_in_unit (cfg_max_protected_share p2p)
         then Inl (ProtectedShareOutOfRange (cfg_max_protected_share p2p))
         else if cfg_maintenance_interval_secs p2p = 0 then Inl IntervalZero
         else Inr ())"

definition bootstrap_peer_ids :: "'p multiaddr list \<Rightarrow> 'p set" where
  "bootstrap_peer_ids multiaddrs =
     set (map fst (List.map_filter split_peer_multiaddr multiaddrs))"

definition network_settings_of :: "'p app_config \<Rightarrow> network_settings" where
  "network_settings_of app =
     \<lparr>ns_low_water = cfg_low_water (app_p2p app), ns_high_water = cfg_high_water (app_p2p app),
      ns_per_subnet_cap = cfg_per_subnet_cap (app_p2p app),
      ns_max_protected_share = cfg_max_protected_share (app_p2p app)\<rparr>"

definition maintenance_settings_of :: "'p app_config \<Rightarrow> maintenance_settings" where
  "maintenance_settings_of app =
     \<lparr>interval = from_secs (cfg_maintenance_interval_secs (app_p2p app)),
      low_water = cfg_low_water (app_p2p app)\<rparr>"

subsection \<open>Topics\<close>

text \<open>The loop of \<open>main\<close> that keeps the first of equal topics.\<close>

definition dedup_topics :: "string list \<Rightarrow> string list" where
  "dedup_topics topics = fold (\<lambda>t seen. if t \<in> set seen then seen else seen @ [t]) topics []"

text \<open>One turn of the event loop per topic; the first error ends it.\<close>

fun subscribe_to_topics ::
    "('w, 'p) swarm_ops \<Rightarrow> ('c, 'r) broadcast_ops \<Rightarrow> (nat \<Rightarrow> 'p turn) \<Rightarrow> nat \<Rightarrow> string list
      \<Rightarrow> ('w, 'p, 'c) event_loop
      \<Rightarrow> (string \<times> boxed_error + unit) \<times> ('w, 'p, 'c) event_loop" where
  "subscribe_to_topics ops bops turns i [] s = (Inr (), s)"
| "subscribe_to_topics ops bops turns i (t # rest) s =
     (case client_subscribe ops bops (turns i) t s of
        (Inl e, s1) \<Rightarrow> (Inl (t, e), s1)
      | (Inr _, s1) \<Rightarrow> subscribe_to_topics ops bops turns (Suc i) rest s1)"

subsection \<open>Start\<close>

datatype startup_error =
    InvalidConfig config_error
  | NetworkError string
  | CouldNotSubscribe string boxed_error
  | GrpcBindError string

datatype ('w, 'p, 'c) startup =
    MainError startup_error
  | MainPanic
  | Started "('w, 'p, 'c) event_loop" maintenance_settings

record ('w, 'p, 'k) startup_env =
  config_file :: "io_error + string"
  config_yaml :: "string \<Rightarrow> string + 'p app_config"
  key_file :: "io_error + u8 list"
  decode_pkcs8 :: "u8 list \<Rightarrow> string + 'k"
  peerstore_read :: "path \<Rightarrow> io_error + string"
  peerstore_json :: "string \<Rightarrow> peer_store option"
  cargo_pkg_version :: string
  build_swarm :: "'k swarm_setup \<Rightarrow> string + 'w"
  listen_turn :: "'p turn"
  topic_turns :: "nat \<Rightarrow> 'p turn"
  grpc_bind :: "string \<Rightarrow> port \<Rightarrow> string + unit"
  http_bind :: "nat \<Rightarrow> port \<Rightarrow> string + unit"

text \<open>The two files without which the process panics (\<open>None\<close>).\<close>

definition read_config :: "('w, 'p, 'k) startup_env \<Rightarrow> 'p app_config option" where
  "read_config env =
     (case config_file env of
        Inl _ \<Rightarrow> None
      | Inr f \<Rightarrow> (case config_yaml env f of Inl _ \<Rightarrow> None | Inr app \<Rightarrow> Some app))"

definition load_p2p_private_key :: "('w, 'p, 'k) startup_env \<Rightarrow> 'k option" where
  "load_p2p_private_key env =
     (case key_file env of
        Inl _ \<Rightarrow> None
      | Inr bytes \<Rightarrow> (case decode_pkcs8 env bytes of Inl _ \<Rightarrow> None | Inr keys \<Rightarrow> Some keys))"

definition subscription_capacity :: nat where
  "subscription_capacity = 1024"

definition bind_multiaddr :: "port \<Rightarrow> 'p multiaddr" where
  "bind_multiaddr p = [Ip4 (Ipv4 0 0 0 0)] @ [Tcp (port_number p)]"

definition initial_loop ::
    "('w, 'p, 'k) startup_env \<Rightarrow> 'p app_config \<Rightarrow> 'k \<Rightarrow> string + ('w, 'p, 'c) event_loop" where
  "initial_loop env app id_keys =
     network_new (build_swarm env) (cargo_pkg_version env) id_keys (network_settings_of app)
       (bootstrap_peer_ids (cfg_peers (app_p2p app))) metrics_new
       (subscriptions_new subscription_capacity)
       (load (peerstore_json env) (peerstore_read env (cfg_peerstore_path (app_p2p app))))"

definition main_start ::
    "('w, 'p) swarm_ops \<Rightarrow> ('c, 'r) broadcast_ops \<Rightarrow> ('w, 'p, 'k) startup_env \<Rightarrow> ('w, 'p, 'c) startup" where
  "main_start ops bops env =
     (case read_config env of
        None \<Rightarrow> MainPanic
      | Some app \<Rightarrow>
          (case validate_config app of
             Inl e \<Rightarrow> MainError (InvalidConfig e)
           | Inr _ \<Rightarrow>
               (case load_p2p_private_key env of
                  None \<Rightarrow> MainPanic
                | Some id_keys \<Rightarrow>
                    (case initial_loop env app id_keys of
                       Inl e \<Rightarrow> MainError (NetworkError e)
                     | Inr s0 \<Rightarrow>
                         (case client_start_listening ops bops (listen_turn env)
                                 (bind_multiaddr (cfg_port (app_p2p app))) s0 of
                            (Inl _, _) \<Rightarrow> MainPanic
                          | (Inr _, s1) \<Rightarrow>
                              (case subscribe_to_topics ops bops (topic_turns env) 0
                                      (dedup_topics (cfg_topics (app_p2p app))) s1 of
                                 (Inl (t, e), _) \<Rightarrow> MainError (CouldNotSubscribe t e)
                               | (Inr _, s2) \<Rightarrow>
                                   (case grpc_bind env (cfg_grpc_host (app_p2p app))
                                           (cfg_grpc_port (app_p2p app)) of
                                      Inl e \<Rightarrow> MainError (GrpcBindError e)
                                    | Inr _ \<Rightarrow>
                                        (case http_bind env (cfg_nb_api_workers (app_p2p app))
                                                (cfg_metrics_port (app_p2p app)) of
                                           Inl _ \<Rightarrow> MainPanic
                                         | Inr _ \<Rightarrow> Started s2 (maintenance_settings_of app)))))))))"

subsection \<open>Supervision and shutdown\<close>

datatype task = P2pEventLoop | GrpcServer | MaintenanceTask | PeerstoreFlusher | MetricsHttp

datatype supervision = TaskEnded task | SigInt | SigTerm

fun exit_code :: "supervision \<Rightarrow> nat" where
  "exit_code (TaskEnded _) = 1"
| "exit_code SigInt = 0"
| "exit_code SigTerm = 0"

text \<open>The last flush; a failure is logged and changes nothing of the exit.\<close>

definition shutdown ::
    "(peer_store \<Rightarrow> io_error + string) \<Rightarrow> write_fault option \<Rightarrow> io_error option \<Rightarrow> path
      \<Rightarrow> supervision \<Rightarrow> peer_store \<Rightarrow> filesystem \<Rightarrow> nat \<times> filesystem" where
  "shutdown to_json wfault rfault p ev st fs =
     (exit_code ev, snd (save to_json wfault rfault p st fs))"

text \<open>
  The flusher: at each tick of its timer but the first, the store of that moment is saved. A
  failure is logged and the task goes on.
\<close>

record flush =
  flushed_store :: peer_store
  flush_write_fault :: "write_fault option"
  flush_rename_fault :: "io_error option"

definition flusher ::
    "(peer_store \<Rightarrow> io_error + string) \<Rightarrow> path \<Rightarrow> flush list \<Rightarrow> filesystem \<Rightarrow> filesystem" where
  "flusher to_json p flushes fs =
     fold (\<lambda>f. snd \<circ> save to_json (flush_write_fault f) (flush_rename_fault f) p (flushed_store f))
       (tl flushes) fs"

subsection \<open>What holds of the start\<close>

lemma validate_config_ok:
  "validate_config app = Inr () \<longleftrightarrow>
     cfg_low_water (app_p2p app) \<le> cfg_high_water (app_p2p app) \<and>
     cfg_per_subnet_cap (app_p2p app) \<noteq> 0 \<and>
     f32_in_unit (cfg_max_protected_share (app_p2p app)) \<and>
     cfg_maintenance_interval_secs (app_p2p app) \<noteq> 0"
  by (simp add: validate_config_def Let_def)

lemma dedup_fold:
  "fold (\<lambda>t seen. if t \<in> set seen then seen else seen @ [t]) ts (rev (remdups (rev us))) =
     rev (remdups (rev (us @ ts)))"
proof (induction ts arbitrary: us)
  case (Cons t ts)
  have step: "(if t \<in> set (rev (remdups (rev us))) then rev (remdups (rev us))
      else rev (remdups (rev us)) @ [t]) = rev (remdups (rev (us @ [t])))" by simp
  from Cons.IH [of "us @ [t]"] show ?case by (simp only: fold_simps comp_def step) simp
qed simp

lemma dedup_topics_remdups: "dedup_topics ts = rev (remdups (rev ts))"
  using dedup_fold [of ts "[]"] by (simp add: dedup_topics_def)

lemma run_loop_frame:
  "settings (run_loop ops bops inputs s) = settings s"
  "bootstrap_peers (run_loop ops bops inputs s) = bootstrap_peers s"
  by (induction inputs arbitrary: s rule: senders_taken.induct)
    (simp_all add: event_frame command_frame del: handle_event.simps handle_command.simps)

lemma send_command_frame:
  "settings (snd (send_command_and_wait ops bops t c s)) = settings s"
  "bootstrap_peers (snd (send_command_and_wait ops bops t c s)) = bootstrap_peers s"
  by (simp_all add: send_command_and_wait_def Let_def run_loop_frame command_frame
      split: delivery.split del: handle_command.simps)

lemma subscribe_to_topics_frame:
  "subscribe_to_topics ops bops turns i ts s = (r, s') \<Longrightarrow>
     settings s' = settings s \<and> bootstrap_peers s' = bootstrap_peers s"
proof (induction ts arbitrary: i s)
  case (Cons t ts)
  obtain r1 s1 where c: "client_subscribe ops bops (turns i) t s = (r1, s1)" by fastforce
  then have "settings s1 = settings s \<and> bootstrap_peers s1 = bootstrap_peers s"
    using send_command_frame [of ops bops "turns i" "Subscribe t" s]
    by (simp add: client_subscribe_def)
  with Cons c show ?case by (cases r1) auto
qed simp

lemma initial_loop_Inr:
  "initial_loop env app keys = Inr s0 \<longleftrightarrow>
     (\<exists>w. build_swarm env (swarm_setup_of (cargo_pkg_version env) keys) = Inr w \<and>
        s0 = event_loop_new w (subscriptions_new subscription_capacity) metrics_new
          (load (peerstore_json env) (peerstore_read env (cfg_peerstore_path (app_p2p app))))
          (network_settings_of app) (bootstrap_peer_ids (cfg_peers (app_p2p app))))"
  by (auto simp: initial_loop_def network_new_def split: sum.split)

lemma main_start_Started:
  assumes "main_start ops bops env = Started s cfg"
  shows "\<exists>app keys s0. read_config env = Some app \<and> validate_config app = Inr () \<and>
    load_p2p_private_key env = Some keys \<and> initial_loop env app keys = Inr s0 \<and>
    cfg = maintenance_settings_of app \<and> settings s = network_settings_of app \<and>
    bootstrap_peers s = bootstrap_peer_ids (cfg_peers (app_p2p app)) \<and>
    (\<exists>s1 r. client_start_listening ops bops (listen_turn env)
        (bind_multiaddr (cfg_port (app_p2p app))) s0 = (Inr r, s1) \<and>
      subscribe_to_topics ops bops (topic_turns env) 0
        (dedup_topics (cfg_topics (app_p2p app))) s1 = (Inr (), s))"
proof -
  from assms obtain app keys s0 r s1 where
    app: "read_config env = Some app" "validate_config app = Inr ()"
      "load_p2p_private_key env = Some keys" "cfg = maintenance_settings_of app"
    and init: "initial_loop env app keys = Inr s0"
    and listen: "client_start_listening ops bops (listen_turn env)
        (bind_multiaddr (cfg_port (app_p2p app))) s0 = (Inr r, s1)"
    and topics: "subscribe_to_topics ops bops (topic_turns env) 0
        (dedup_topics (cfg_topics (app_p2p app))) s1 = (Inr (), s)"
    unfolding main_start_def by (auto split: option.splits sum.splits prod.splits if_splits)
  from init have "settings s0 = network_settings_of app"
    "bootstrap_peers s0 = bootstrap_peer_ids (cfg_peers (app_p2p app))"
    by (auto simp: initial_loop_Inr event_loop_new_def)
  moreover have "settings s1 = settings s0" "bootstrap_peers s1 = bootstrap_peers s0"
    using listen send_command_frame [of ops bops "listen_turn env"
        "StartListening (bind_multiaddr (cfg_port (app_p2p app)))" s0]
    by (simp_all add: client_start_listening_def)
  ultimately show ?thesis using subscribe_to_topics_frame [OF topics] app init listen topics by auto
qed

subsection \<open>What the loop did for the start\<close>

text \<open>The senders whose commands a turn takes, with the one of its own call.\<close>

definition turn_senders :: "'p turn \<Rightarrow> sender multiset" where
  "turn_senders t = senders_taken (before t) + {#reply_to t#} + senders_taken (afterwards t)"

text \<open>Every call of the start has a \<open>oneshot\<close> channel of its own.\<close>

definition own_senders :: "('w, 'p, 'k) startup_env \<Rightarrow> bool" where
  "own_senders env \<longleftrightarrow>
     reply_to (listen_turn env) \<notin># senders_taken (before (listen_turn env)) \<and>
     (\<forall>k. reply_to (topic_turns env k) \<notin># turn_senders (listen_turn env) +
        (\<Sum>j < k. turn_senders (topic_turns env j)) + senders_taken (before (topic_turns env k)))"

text \<open>A call that succeeds: what it returns is the answer the loop gave to its own command.\<close>

lemma call_succeeds:
  fixes t :: "'p turn" and s :: "('w, 'p, 'c) event_loop"
    and ops :: "('w, 'p) swarm_ops" and bops :: "('c, 'r) broadcast_ops"
  defines "c1 \<equiv> state_at_call ops bops t s"
  assumes ok: "send_command_and_wait ops bops t command s = (Inr resp, s')"
    and acc: "dials_account s issued"
    and own: "reply_to t \<notin># issued + senders_taken (before t)"
    and ans: "replies (handle_command ops (visit_order t) (command (reply_to t)) c1) =
        replies c1 @ [(reply_to t, r)]" "sender_of (command (reply_to t)) = reply_to t"
  shows "r = Inr resp \<and>
    s' = run_loop ops bops (afterwards t) (handle_command ops (visit_order t) (command (reply_to t)) c1) \<and>
    dials_account s' (issued + turn_senders t)"
proof -
  have delivered: "delivery t = Handled"
    using ok call_closed [of t ops bops command s] by (cases "delivery t = Handled") simp_all
  note acc1 = account_run [OF acc, of ops bops "before t"]
  then have "set_mset (answered c1) \<subseteq> set_mset (issued + senders_taken (before t))"
    unfolding dials_account_def c1_def state_at_call_def by (metis mset_subset_eq_add_left set_mset_mono)
  then have "fresh_turn ops bops t s"
    using own delivered by (auto simp: fresh_turn_def c1_def state_at_call_def answered_def)
  from call_answered [where command = command, OF this ans(1) [unfolded c1_def]] ok
  have s': "r = Inr resp" "s' = run_loop ops bops (afterwards t)
      (handle_command ops (visit_order t) (command (reply_to t)) c1)" by (simp_all add: c1_def)
  from account_run [OF account_command [OF acc1], of ops bops "afterwards t" ops "visit_order t" "command (reply_to t)"]
  show ?thesis
    unfolding s'(2) by (simp add: s'(1) turn_senders_def ans(2) c1_def state_at_call_def ac_simps)
qed

text \<open>The listening address is handed to the swarm, which accepts it.\<close>

lemma start_listening_accepted:
  assumes "client_start_listening ops bops t addr s = (Inr r, s')" "dials_account s issued"
    and "reply_to t \<notin># issued + senders_taken (before t)"
  shows "(\<exists>w. sw_listen_on ops addr (swarm (state_at_call ops bops t s)) = (Inr (), w)) \<and>
    dials_account s' (issued + turn_senders t)"
proof -
  obtain res w where res: "sw_listen_on ops addr (swarm (state_at_call ops bops t s)) = (res, w)" by fastforce
  from call_succeeds [OF assms(1) [unfolded client_start_listening_def] assms(2,3),
      where r = "case res of Inr _ \<Rightarrow> Inr Done | Inl e \<Rightarrow> Inl (BoxedTransportError e)"] res
  show ?thesis by (cases res) auto
qed

text \<open>A topic is handed to gossipsub, which joins it.\<close>

definition joins_topic ::
    "('w, 'p) swarm_ops \<Rightarrow> ('c, 'r) broadcast_ops \<Rightarrow> 'p turn \<Rightarrow> string
      \<Rightarrow> ('w, 'p, 'c) event_loop \<Rightarrow> ('w, 'p, 'c) event_loop \<Rightarrow> bool" where
  "joins_topic ops bops t topic_name s s' \<longleftrightarrow>
     (\<exists>b w. gs_subscribe ops topic_name (swarm (state_at_call ops bops t s)) = (Inr b, w) \<and>
        s' = run_loop ops bops (afterwards t)
          (answer (reply_to t) (Inr Done) ((state_at_call ops bops t s)\<lparr>swarm := w\<rparr>)))"

lemma subscribe_joins:
  assumes "client_subscribe ops bops t topic_name s = (Inr r, s')" "dials_account s issued"
    and "reply_to t \<notin># issued + senders_taken (before t)"
  shows "joins_topic ops bops t topic_name s s' \<and> dials_account s' (issued + turn_senders t)"
proof -
  obtain res w where res: "gs_subscribe ops topic_name (swarm (state_at_call ops bops t s)) = (res, w)"
    by fastforce
  from call_succeeds [OF assms(1) [unfolded client_subscribe_def] assms(2,3),
      where r = "case res of Inr _ \<Rightarrow> Inr Done | Inl e \<Rightarrow> Inl (BoxedSubscriptionError e)"] res
  show ?thesis by (cases res) (auto simp: joins_topic_def)
qed

lemma subscribe_to_topics_joins:
  assumes "subscribe_to_topics ops bops turns i ts s = (Inr (), s')" "dials_account s issued"
    and "\<forall>k. reply_to (turns (i + k)) \<notin># issued + (\<Sum>j < k. turn_senders (turns (i + j))) +
      senders_taken (before (turns (i + k)))"
  shows "\<exists>ss. ss 0 = s \<and> ss (length ts) = s' \<and>
    (\<forall>k < length ts. joins_topic ops bops (turns (i + k)) (ts ! k) (ss k) (ss (Suc k)))"
  using assms
proof (induction ts arbitrary: i s issued)
  case Nil
  then show ?case by (intro exI [of _ "\<lambda>k. s"]) simp
next
  case (Cons t ts)
  from Cons.prems(1) obtain r s1 where call: "client_subscribe ops bops (turns i) t s = (Inr r, s1)"
    and rest: "subscribe_to_topics ops bops turns (Suc i) ts s1 = (Inr (), s')"
    by (auto split: prod.splits sum.splits)
  have own: "reply_to (turns i) \<notin># issued + senders_taken (before (turns i))"
    using Cons.prems(3) [THEN spec, of 0] by simp
  note join = subscribe_joins [OF call Cons.prems(2) own]
  have "reply_to (turns (Suc i + k)) \<notin># issued + turn_senders (turns i) +
      (\<Sum>j < k. turn_senders (turns (Suc i + j))) + senders_taken (before (turns (Suc i + k)))" for k
    using Cons.prems(3) [THEN spec, of "Suc k"] unfolding sum.lessThan_Suc_shift by (simp add: ac_simps)
  with Cons.IH [OF rest, of "issued + turn_senders (turns i)"] join obtain ss where
    ss: "ss 0 = s1" "ss (length ts) = s'"
      "\<forall>k < length ts. joins_topic ops bops (turns (Suc i + k)) (ts ! k) (ss k) (ss (Suc k))" by blast
  let ?ss = "\<lambda>k. case k of 0 \<Rightarrow> s | Suc j \<Rightarrow> ss j"
  have "joins_topic ops bops (turns (i + k)) ((t # ts) ! k) (?ss k) (?ss (Suc k))" if "k < length (t # ts)" for k
    using that join ss by (cases k) simp_all
  with ss(2) show ?case by (intro exI [of _ ?ss]) simp
qed

subsection \<open>Crash safety of the peer store file\<close>

text \<open>
  A save leaves at the path what was there, or the whole text of the store it saved; without
  faults the latter.
\<close>

lemma save_effect:
  "snd (save to_json wfault rfault (d, Some name) st fs) (d, Some name) = fs (d, Some name) \<or>
    (\<exists>contents. to_json st = Inr contents \<and>
      snd (save to_json wfault rfault (d, Some name) st fs) (d, Some name) = Some contents)"
  using tmp_path_neq [of d name]
  by (auto simp: save_def fs_write_def fs_rename_def Let_def
      split: sum.split option.split write_fault.split)

lemma save_ok:
  "to_json st = Inr contents \<Longrightarrow>
     snd (save to_json None None (d, Some name) st fs) (d, Some name) = Some contents"
  using tmp_path_neq [of d name] by (simp add: save_def fs_write_def fs_rename_def Let_def)

lemma fold_save_effect:
  "fold (\<lambda>f. snd \<circ> save to_json (flush_write_fault f) (flush_rename_fault f) (d, Some name)
       (flushed_store f)) flushes fs (d, Some name) \<in>
     insert (fs (d, Some name))
       {Some contents |contents. \<exists>f \<in> set flushes. to_json (flushed_store f) = Inr contents}"
proof (induction flushes arbitrary: fs)
  case (Cons f flushes)
  let ?fs = "snd (save to_json (flush_write_fault f) (flush_rename_fault f) (d, Some name)
    (flushed_store f) fs)"
  from Cons.IH [of ?fs]
    save_effect [of to_json "flush_write_fault f" "flush_rename_fault f" d name "flushed_store f" fs]
  show ?case by auto
qed simp

end
