(* ===== verification/Service_Life.thy ===== *)
theory Service_Life
  imports Service_Main Loop_Store
begin

section \<open>The life of the service\<close>

text \<open>
  From the moment \<open>main\<close> has started its tasks to the exit: the event loop and the flusher of
  \<open>src/main.rs\<close> work on the same peer store and take their steps in any order. The first firing
  of the flusher's timer is skipped; a loop whose command channel has closed takes no further
  step, which ends the service. Every command of the gRPC handlers and of the maintenance task
  is a step of the loop.
\<close>

record ('w, 'p, 'c) service =
  svc_loop :: "('w, 'p, 'c) event_loop"
  svc_running :: bool
  svc_timer_fired :: bool
  svc_files :: filesystem

definition service_started :: "('w, 'p, 'c) event_loop \<Rightarrow> filesystem \<Rightarrow> ('w, 'p, 'c) service" where
  "service_started s fs =
     \<lparr>svc_loop = s, svc_running = True, svc_timer_fired = False, svc_files = fs\<rparr>"

datatype 'p service_action =
    LoopHandles "'p loop_input"
  | FlushTimer "write_fault option" "io_error option"

fun service_step ::
    "('w, 'p) swarm_ops \<Rightarrow> ('c, 'r) broadcast_ops \<Rightarrow> (peer_store \<Rightarrow> io_error + string) \<Rightarrow> path
      \<Rightarrow> 'p service_action \<Rightarrow> ('w, 'p, 'c) service \<Rightarrow> ('w, 'p, 'c) service" where
  "service_step ops bops to_json p (LoopHandles i) svc =
     (if svc_running svc
      then svc\<lparr>svc_loop := run_loop ops bops [i] (svc_loop svc),
               svc_running := (case i of CommandChannelClosed \<Rightarrow> False | _ \<Rightarrow> True)\<rparr>
      else svc)"
| "service_step ops bops to_json p (FlushTimer wfault rfault) svc =
     (if svc_timer_fired svc
      then svc\<lparr>svc_files := snd (save to_json wfault rfault p (peerstore (svc_loop svc)) (svc_files svc))\<rparr>
      else svc\<lparr>svc_timer_fired := True\<rparr>)"

definition service_run ::
    "('w, 'p) swarm_ops \<Rightarrow> ('c, 'r) broadcast_ops \<Rightarrow> (peer_store \<Rightarrow> io_error + string) \<Rightarrow> path
      \<Rightarrow> 'p service_action list \<Rightarrow> ('w, 'p, 'c) service \<Rightarrow> ('w, 'p, 'c) service" where
  "service_run ops bops to_json p steps svc = fold (service_step ops bops to_json p) steps svc"

text \<open>The exit, with the last flush.\<close>

definition service_exit ::
    "(peer_store \<Rightarrow> io_error + string) \<Rightarrow> write_fault option \<Rightarrow> io_error option \<Rightarrow> path
      \<Rightarrow> supervision \<Rightarrow> ('w, 'p, 'c) service \<Rightarrow> nat \<times> filesystem" where
  "service_exit to_json wfault rfault p ev svc =
     shutdown to_json wfault rfault p ev (peerstore (svc_loop svc)) (svc_files svc)"

subsection \<open>The loop's part of a life\<close>

fun handled_inputs :: "'p service_action list \<Rightarrow> 'p loop_input list" where
  "handled_inputs [] = []"
| "handled_inputs (LoopHandles i # steps) = i # handled_inputs steps"
| "handled_inputs (FlushTimer wfault rfault # steps) = handled_inputs steps"

lemma service_run_simps [simp]:
  "service_run ops bops to_json p [] svc = svc"
  "service_run ops bops to_json p (st # steps) svc =
     service_run ops bops to_json p steps (service_step ops bops to_json p st svc)"
  "service_run ops bops to_json p (steps @ [st]) svc =
     service_step ops bops to_json p st (service_run ops bops to_json p steps svc)"
  by (simp_all add: service_run_def)

lemma service_loop:
  "svc_loop (service_run ops bops to_json p steps svc) =
     (if svc_running svc then run_loop ops bops (handled_inputs steps) (svc_loop svc)
      else svc_loop svc)"
proof (induction steps arbitrary: svc)
  case (Cons st steps)
  show ?case
  proof (cases st)
    case (LoopHandles i)
    with Cons.IH show ?thesis
      by (cases i) (simp_all del: handle_event.simps handle_command.simps)
  next
    case (FlushTimer wfault rfault)
    with Cons.IH show ?thesis by simp
  qed
qed simp

lemma service_loop_started:
  "svc_loop (service_run ops bops to_json p steps (service_started s fs)) =
     run_loop ops bops (handled_inputs steps) s"
  by (simp add: service_loop service_started_def)

subsection \<open>The file\<close>

text \<open>The texts of the stores that the loop had after some of the steps.\<close>

definition store_texts ::
    "('w, 'p) swarm_ops \<Rightarrow> ('c, 'r) broadcast_ops \<Rightarrow> (peer_store \<Rightarrow> io_error + string) \<Rightarrow> path
      \<Rightarrow> 'p service_action list \<Rightarrow> ('w, 'p, 'c) service \<Rightarrow> string set" where
  "store_texts ops bops to_json p steps svc =
     {contents. \<exists>k \<le> length steps.
        to_json (peerstore (svc_loop (service_run ops bops to_json p (take k steps) svc))) = Inr contents}"

lemma store_texts_mono:
  "store_texts ops bops to_json p steps svc \<subseteq> store_texts ops bops to_json p (steps @ [st]) svc"
proof
  fix c
  assume "c \<in> store_texts ops bops to_json p steps svc"
  then obtain k where "k \<le> length steps"
    "to_json (peerstore (svc_loop (service_run ops bops to_json p (take k steps) svc))) = Inr c"
    by (auto simp: store_texts_def)
  then show "c \<in> store_texts ops bops to_json p (steps @ [st]) svc"
    unfolding store_texts_def by (intro CollectI exI [of _ k]) simp
qed

lemma store_texts_now:
  "to_json (peerstore (svc_loop (service_run ops bops to_json p steps svc))) = Inr c \<Longrightarrow>
     c \<in> store_texts ops bops to_json p (steps @ later) svc"
  unfolding store_texts_def by (intro CollectI exI [of _ "length steps"]) simp

lemma service_file:
  "svc_files (service_run ops bops to_json (d, Some name) steps svc) (d, Some name) \<in>
     insert (svc_files svc (d, Some name))
       (Some ` store_texts ops bops to_json (d, Some name) steps svc)"
proof (induction steps rule: rev_induct)
  case (snoc st steps)
  let ?p = "(d, Some name)"
  let ?svc = "service_run ops bops to_json ?p steps svc"
  from snoc have old: "svc_files ?svc ?p \<in> insert (svc_files svc ?p)
      (Some ` store_texts ops bops to_json ?p (steps @ [st]) svc)"
    using store_texts_mono [of ops bops to_json ?p steps svc st] by auto
  show ?case
  proof (cases st)
    case (FlushTimer wfault rfault)
    show ?thesis
    proof (cases "svc_timer_fired ?svc")
      case True
      have new: "contents \<in> store_texts ops bops to_json ?p (steps @ [st]) svc"
        if "to_json (peerstore (svc_loop ?svc)) = Inr contents" for contents
        using that by (rule store_texts_now)
      from save_effect [of to_json wfault rfault d name "peerstore (svc_loop ?svc)" "svc_files ?svc"]
      have "svc_files (service_run ops bops to_json ?p (steps @ [st]) svc) ?p \<in>
          insert (svc_files ?svc ?p) (Some ` store_texts ops bops to_json ?p (steps @ [st]) svc)"
        using True new by (auto simp: FlushTimer)
      with old show ?thesis by auto
    qed (use old in \<open>simp add: FlushTimer\<close>)
  qed (use old in simp)
qed simp

subsection \<open>A start on the store of the last exit\<close>

lemma subscribe_to_topics_store:
  "subscribe_to_topics ops bops turns i ts s = (r, s') \<Longrightarrow>
     extends_store (peerstore s') (peerstore s) \<and>
     ((\<forall>j. records_nothing (turns j)) \<longrightarrow> peerstore s' = peerstore s)"
proof (induction ts arbitrary: i s)
  case (Cons t ts)
  obtain r1 s1 where c: "client_subscribe ops bops (turns i) t s = (r1, s1)" by fastforce
  then have ext: "extends_store (peerstore s1) (peerstore s)"
    "records_nothing (turns i) \<Longrightarrow> peerstore s1 = peerstore s"
    using call_store [where ops = ops and bops = bops and t = "turns i" and c = "Subscribe t" and s = s]
    by (simp_all add: client_subscribe_def)
  show ?case
  proof (cases r1)
    case (Inr x)
    with Cons.prems c have "subscribe_to_topics ops bops turns (Suc i) ts s1 = (r, s')" by simp
    from Cons.IH [OF this] ext show ?thesis using extends_store_trans by fastforce
  qed (use Cons.prems c ext in auto)
qed auto

lemma started_store:
  assumes "main_start ops bops env = Started s cfg"
  obtains app where "read_config env = Some app"
    "extends_store (peerstore s)
       (load (peerstore_json env) (peerstore_read env (cfg_peerstore_path (app_p2p app))))"
    "records_nothing (listen_turn env) \<Longrightarrow> \<forall>j. records_nothing (topic_turns env j) \<Longrightarrow>
       peerstore s = load (peerstore_json env) (peerstore_read env (cfg_peerstore_path (app_p2p app)))"
proof -
  from main_start_Started [OF assms] obtain app keys s0 s1 r where
    app: "read_config env = Some app" and init: "initial_loop env app keys = Inr s0"
    and listen: "client_start_listening ops bops (listen_turn env)
        (bind_multiaddr (cfg_port (app_p2p app))) s0 = (Inr r, s1)"
    and topics: "subscribe_to_topics ops bops (topic_turns env) 0
        (dedup_topics (cfg_topics (app_p2p app))) s1 = (Inr (), s)" by blast
  let ?st = "load (peerstore_json env) (peerstore_read env (cfg_peerstore_path (app_p2p app)))"
  from init have "peerstore s0 = ?st" by (auto simp: initial_loop_Inr event_loop_new_def)
  with listen have s1: "extends_store (peerstore s1) ?st"
    "records_nothing (listen_turn env) \<Longrightarrow> peerstore s1 = ?st"
    using call_store [where ops = ops and bops = bops and t = "listen_turn env" and s = s0
        and c = "StartListening (bind_multiaddr (cfg_port (app_p2p app)))"]
    by (simp_all add: client_start_listening_def)
  from subscribe_to_topics_store [OF topics] s1 show thesis
    by (intro that [OF app]) (auto intro: extends_store_trans)
qed

end
