(* ===== verification/Service_Boot.thy ===== *)
theory Service_Boot
  imports Service_Life
begin

section \<open>The process (src/main.rs)\<close>

text \<open>
  \<open>main\<close> from the command line to the exit code, around the start of \<open>Service_Main\<close> and the life of
  \<open>Service_Life\<close>: logging, the arguments and their defaults, Sentry, the files at the paths the
  arguments name, the tasks that are spawned, supervised and aborted, and how the process ends. The
  libraries are arguments: clap's parser, the loggers, Sentry's client, the binds.
\<close>

subsection \<open>Logging, arguments, Sentry\<close>

datatype level_filter = LevelOff | LevelError | LevelWarn | LevelInfo | LevelDebug | LevelTrace

record logging =
  stderr_lines :: "string list"
  max_level :: level_filter

text \<open>Before \<open>main\<close> nothing is logged. \<open>set_boxed_logger\<close> fails when a logger is set already.\<close>

definition logging_start :: logging where
  "logging_start = \<lparr>stderr_lines = [], max_level = LevelOff\<rparr>"

definition configure_logging :: "string + unit \<Rightarrow> logging \<Rightarrow> logging" where
  "configure_logging set_boxed_logger l =
     (let l1 = (case set_boxed_logger of
                  Inl e \<Rightarrow> l\<lparr>stderr_lines := stderr_lines l @ [''Failed to set global logger: '' @ e]\<rparr>
                | Inr _ \<Rightarrow> l)
      in l1\<lparr>max_level := LevelInfo\<rparr>)"

record cli_args =
  config_path :: path
  private_key_file :: path

text \<open>What the command line gave, or the defaults.\<close>

definition cli_args_of :: "path option \<Rightarrow> path option \<Rightarrow> cli_args" where
  "cli_args_of config key =
     \<lparr>config_path = (case config of Some p \<Rightarrow> p | None \<Rightarrow> ('''', Some ''config.yml'')),
      private_key_file = (case key of Some p \<Rightarrow> p | None \<Rightarrow> ('''', Some ''node-secret.pkcs8.der''))\<rparr>"

text \<open>Sentry runs, with the release's name, exactly when the configuration has a DSN.\<close>

definition configure_sentry :: "(string \<Rightarrow> string \<Rightarrow> 'g) \<Rightarrow> string \<Rightarrow> 'p app_config \<Rightarrow> 'g option" where
  "configure_sentry sentry_init release app =
     map_option (\<lambda>d. sentry_init d release) (dsn (app_sentry app))"

subsection \<open>The tasks\<close>

text \<open>In the order in which they are spawned, and in the order of the abort handles.\<close>

definition spawned_tasks :: "task list" where
  "spawned_tasks = [P2pEventLoop, MaintenanceTask, GrpcServer, PeerstoreFlusher, MetricsHttp]"

definition abort_handles :: "task list" where
  "abort_handles = [P2pEventLoop, GrpcServer, MaintenanceTask, PeerstoreFlusher, MetricsHttp]"

definition abort_all :: "task list \<Rightarrow> task set \<Rightarrow> task set" where
  "abort_all handles running = fold (\<lambda>t ts. ts - {t}) handles running"

text \<open>Every spawned task is aborted before the exit, and the supervision names each of them.\<close>

lemma abort_all_spawned: "abort_all abort_handles (set spawned_tasks) = {}"
  by (auto simp: abort_all_def abort_handles_def spawned_tasks_def)

lemma supervised_tasks: "t \<in> set spawned_tasks"
  by (cases t) (simp_all add: spawned_tasks_def)

subsection \<open>The process\<close>

text \<open>
  What the process finds outside: clap's verdict on the command line (its own exit code, for a
  usage error or \<open>--help\<close>, or the values it read), the answers of the global logger and of the
  installation of the signal handler, the files with the faults of reading them, and the libraries and turns of \<open>startup_env\<close>, whose file fields
  are those of the files here.
\<close>

record ('w, 'p, 'k, 'g) process_env =
  set_logger :: "string + unit"
  cli_parse :: "nat + path option \<times> path option"
  sentry_client :: "string \<Rightarrow> string \<Rightarrow> 'g"
  release_name :: string
  config_fault :: "io_error option"
  peerstore_fault :: "io_error option"
  read_key :: "path \<Rightarrow> io_error + u8 list"
  install_sigterm :: "string + unit"
  libraries :: "('w, 'p, 'k) startup_env"

definition startup_of ::
    "('w, 'p, 'k, 'g) process_env \<Rightarrow> cli_args \<Rightarrow> filesystem \<Rightarrow> ('w, 'p, 'k) startup_env" where
  "startup_of env args fs =
     (libraries env)\<lparr>config_file := fs_read (config_fault env) (config_path args) fs,
       key_file := read_key env (private_key_file args),
       peerstore_read := (\<lambda>p. fs_read (peerstore_fault env) p fs)\<rparr>"

text \<open>
  The life of the process once it has started: the steps of its tasks, the event that ends the
  supervision, and the faults that strike the last flush.
\<close>

record 'p process_life =
  life_steps :: "'p service_action list"
  life_ends :: supervision
  last_write_fault :: "write_fault option"
  last_rename_fault :: "io_error option"

datatype process_end =
    CliExit nat
  | MainReturnedErr startup_error
  | MainPanicked
  | Exited nat

text \<open>The status the operating system sees; 1 for an error that \<open>main\<close> returns, 101 for a panic.\<close>

fun process_status :: "process_end \<Rightarrow> nat" where
  "process_status (CliExit n) = n"
| "process_status (MainReturnedErr e) = 1"
| "process_status MainPanicked = 101"
| "process_status (Exited n) = n"

record 'g process_result =
  process_ended :: process_end
  process_logging :: logging
  process_sentry :: "'g option"
  process_files :: filesystem

text \<open>The client of Sentry is made after validation, whatever happens later.\<close>

definition sentry_guard :: "('w, 'p, 'k, 'g) process_env \<Rightarrow> ('w, 'p, 'k) startup_env \<Rightarrow> 'g option" where
  "sentry_guard env senv =
     (case read_config senv of
        None \<Rightarrow> None
      | Some app \<Rightarrow>
          (case validate_config app of
             Inl _ \<Rightarrow> None
           | Inr _ \<Rightarrow> configure_sentry (sentry_client env) (release_name env) app))"

definition peerstore_path_of :: "('w, 'p, 'k) startup_env \<Rightarrow> path" where
  "peerstore_path_of senv =
     (case read_config senv of None \<Rightarrow> ('''', None) | Some app \<Rightarrow> cfg_peerstore_path (app_p2p app))"

definition main ::
    "('w, 'p) swarm_ops \<Rightarrow> ('c, 'r) broadcast_ops \<Rightarrow> (peer_store \<Rightarrow> io_error + string)
      \<Rightarrow> ('w, 'p, 'k, 'g) process_env \<Rightarrow> 'p process_life \<Rightarrow> filesystem \<Rightarrow> 'g process_result" where
  "main ops bops to_json env life fs =
     (let l = configure_logging (set_logger env) logging_start
      in case cli_parse env of
           Inl n \<Rightarrow> \<lparr>process_ended = CliExit n, process_logging = l, process_sentry = None, process_files = fs\<rparr>
         | Inr (config, key) \<Rightarrow>
             (let senv = startup_of env (cli_args_of config key) fs;
                  stopped = (\<lambda>e. \<lparr>process_ended = e, process_logging = l,
                    process_sentry = sentry_guard env senv, process_files = fs\<rparr>)
              in case main_start ops bops senv :: ('w, 'p, 'c) startup of
                   MainError e \<Rightarrow> stopped (MainReturnedErr e)
                 | MainPanic \<Rightarrow> stopped MainPanicked
                 | Started s cfg \<Rightarrow>
                     (case install_sigterm env of
                        Inl _ \<Rightarrow> stopped MainPanicked
                      | Inr _ \<Rightarrow>
                          (let p = peerstore_path_of senv;
                               svc = service_run ops bops to_json p (life_steps life) (service_started s fs);
                               (n, files) = service_exit to_json (last_write_fault life)
                                 (last_rename_fault life) p (life_ends life) svc
                           in (stopped (Exited n))\<lparr>process_files := files\<rparr>))))"

subsection \<open>How it ends\<close>

text \<open>A process that does not reach the supervision leaves the files alone.\<close>

lemma main_not_started:
  assumes "\<forall>n. process_ended (main ops bops to_json env life fs) \<noteq> Exited n"
  shows "process_files (main ops bops to_json env life fs) = fs"
  using assms by (auto simp: main_def Let_def split: sum.splits startup.splits prod.splits)

text \<open>The one that does has read and accepted a configuration and started.\<close>

lemma main_exited:
  fixes bops :: "('c, 'r) broadcast_ops"
  assumes "process_ended (main ops bops to_json env life fs) = Exited n"
  obtains config key app and s :: "('w, 'p, 'c) event_loop" and cfg where
    "cli_parse env = Inr (config, key)"
    "read_config (startup_of env (cli_args_of config key) fs) = Some app" "validate_config app = Inr ()"
    "main_start ops bops (startup_of env (cli_args_of config key) fs) = Started s cfg"
    "install_sigterm env = Inr ()" "n = exit_code (life_ends life)"
    "process_sentry (main ops bops to_json env life fs) =
       configure_sentry (sentry_client env) (release_name env) app"
    "process_files (main ops bops to_json env life fs) =
       snd (service_exit to_json (last_write_fault life) (last_rename_fault life)
         (cfg_peerstore_path (app_p2p app)) (life_ends life)
         (service_run ops bops to_json (cfg_peerstore_path (app_p2p app)) (life_steps life)
           (service_started s fs)))"
proof -
  from assms obtain config key where cli: "cli_parse env = Inr (config, key)"
    by (auto simp: main_def Let_def split: sum.splits)
  let ?senv = "startup_of env (cli_args_of config key) fs"
  from assms cli obtain s :: "('w, 'p, 'c) event_loop" and cfg where start: "main_start ops bops ?senv = Started s cfg"
    and sigterm: "install_sigterm env = Inr ()"
    by (auto simp: main_def Let_def split: startup.splits sum.splits)
  from main_start_Started [OF start] obtain app where
    app: "read_config ?senv = Some app" "validate_config app = Inr ()" by blast
  with assms cli start sigterm show thesis
    by (intro that [OF cli app start sigterm])
      (auto simp: main_def Let_def service_exit_def shutdown_def peerstore_path_of_def sentry_guard_def)
qed

text \<open>The last flush on top of what the life left at the path.\<close>

lemma exit_file:
  fixes s :: "('w, 'p, 'c) event_loop" and d name :: string
  defines "p \<equiv> (d, Some name)"
  shows "snd (service_exit to_json wfault rfault p ev
      (service_run ops bops to_json p steps (service_started s fs))) p \<in>
    insert (fs p) {Some contents |contents k. k \<le> length steps \<and>
      to_json (peerstore (run_loop ops bops (handled_inputs (take k steps)) s)) = Inr contents}"
proof -
  let ?svc = "service_run ops bops to_json p steps (service_started s fs)"
  let ?texts = "{Some contents |contents k. k \<le> length steps \<and>
    to_json (peerstore (run_loop ops bops (handled_inputs (take k steps)) s)) = Inr contents}"
  have "svc_files ?svc p \<in> insert (fs p) ?texts"
    using service_file [of ops bops to_json d name steps "service_started s fs"]
    by (auto simp: p_def store_texts_def service_loop_started) (auto simp: service_started_def)
  moreover have "Some contents \<in> ?texts" if "to_json (peerstore (svc_loop ?svc)) = Inr contents" for contents
    using that by (intro CollectI exI [of _ contents] exI [of _ "length steps"]) (simp add: service_loop_started)
  ultimately show ?thesis
    using save_effect [of to_json wfault rfault d name "peerstore (svc_loop ?svc)" "svc_files ?svc"]
    by (auto simp: service_exit_def shutdown_def p_def)
qed

text \<open>The status is 0 for a command line that asks for nothing more, and after a signal.\<close>

lemma exit_code_0: "exit_code ev = 0 \<longleftrightarrow> ev \<in> {SigInt, SigTerm}"
  by (cases ev) auto

lemma main_status_0:
  "process_status (process_ended (main ops bops to_json env life fs)) = 0 \<longleftrightarrow> cli_parse env = Inl 0 \<or>
     (\<exists>n. process_ended (main ops bops to_json env life fs) = Exited n) \<and> life_ends life \<in> {SigInt, SigTerm}"
proof -
  have "process_status (process_ended (main ops bops to_json env life fs)) = 0 \<longleftrightarrow> cli_parse env = Inl 0 \<or>
      process_ended (main ops bops to_json env life fs) = Exited 0"
    unfolding main_def Let_def by (auto split: sum.split startup.split prod.split)
  then show ?thesis
    using main_exited [of ops bops to_json env life fs] exit_code_0 [of "life_ends life"] by metis
qed

text \<open>The store file of a process that exited.\<close>

lemma exited_store_file:
  fixes s :: "('w, 'p, 'c) event_loop"
  assumes "files = snd (service_exit to_json wfault rfault p ev
      (service_run ops bops to_json p steps (service_started s fs)))" and "p = (d, Some name)"
  shows "files (d, Some name) \<in> insert (fs (d, Some name)) {Some contents |contents k.
      to_json (peerstore (run_loop ops bops (handled_inputs (take k steps)) s)) = Inr contents}"
    "wfault = None \<and> rfault = None \<and>
      to_json (peerstore (run_loop ops bops (handled_inputs steps) s)) = Inr contents \<Longrightarrow>
      files (d, Some name) = Some contents"
  using exit_file [where ops = ops and bops = bops and s = s and d = d and name = name
      and steps = steps and fs = fs and to_json = to_json and ev = ev and wfault = wfault and rfault = rfault]
  unfolding assms by (blast, simp add: service_exit_def shutdown_def save_ok service_loop_started)

end
