(* ===== verification/Service_Properties.thy ===== *)
theory Service_Properties
  imports Reference_Environment Service_Boot Http_Endpoints
begin

section \<open>Properties of the peer store's persistence and of the service's life cycle\<close>

text \<open>
  The properties of \<open>src/p2p/peerstore.rs\<close>, \<open>src/config.rs\<close>, \<open>src/main.rs\<close> and
  \<open>src/metrics.rs\<close>, with their witnesses.
\<close>

subsection \<open>The peer store\<close>

text \<open>The dial candidates of the store are exactly the pairs of a peer seen within the age
  limit and an address recorded for it, both of which parse; a peer seen in the future is not
  too old.\<close>

theorem dial_candidates_exact:
  assumes "iterates (dom (peers st)) ord"
  shows "set (dial_candidates parse_peer parse_addr ord age now st) =
    {(p, a). \<exists>key seen x. seen_at st key = Some seen \<and> now - seen \<le> age \<and> parse_peer key = Some p \<and>
       x \<in> set (known_addrs st key) \<and> parse_addr x = Some a}"
  by (rule set_eqI) (simp add: set_dial_candidates [OF assms] split: prod.split)

theorem dial_candidates_exact_witness:
  "set (dial_candidates Some Some [''p''] 10 100
     (record_peer id id ''p'' [''a'', ''b''] 95 peer_store_default)) = {(''p'', ''a''), (''p'', ''b'')}"
proof -
  let ?st = "record_peer id id ''p'' [''a'', ''b''] 95 peer_store_default"
  have ord: "iterates (dom (peers ?st)) [''p'']"
    by (simp add: iterates_def record_peer_def peer_store_default_def Let_def)
  have known: "known_addrs ?st key = (if key = ''p'' then [''a'', ''b''] else [])"
    and seen: "seen_at ?st key = (if key = ''p'' then Some 95 else None)" for key
    unfolding known_record seen_record
    by (simp_all add: push_addr_def known_addrs_def seen_at_def peer_store_default_def
        max_addrs_per_peer_def)
  show ?thesis
    unfolding dial_candidates_exact [OF ord] known seen by (auto split: if_splits)
qed

text \<open>What was saved without a fault is what the next start loads, and a file that is
  missing, unreadable or not a store loads as the empty store.\<close>

theorem save_load_roundtrip:
  assumes "to_json st = Inr contents" "from_json contents = Some st"
  shows "load from_json (fs_read None (d, Some name)
      (snd (save to_json None None (d, Some name) st fs))) = st \<and>
    load from_json (Inl e) = peer_store_default \<and>
    load (\<lambda>_. None) (Inr garbage) = peer_store_default"
  using assms save_ok [of to_json st contents d name fs] by (simp add: load_def fs_read_def)

theorem save_load_roundtrip_witness:
  "load (\<lambda>c. if c = ''{}'' then Some peer_store_default else None)
     (fs_read None ([], Some ''peers.json'')
       (snd (save (\<lambda>st. Inr ''{}'') None None ([], Some ''peers.json'') peer_store_default Map.empty)))
   = peer_store_default"
  using save_load_roundtrip [of "\<lambda>st. Inr ''{}''" peer_store_default "''{}''"
      "\<lambda>c. if c = ''{}'' then Some peer_store_default else None" "[]" "''peers.json''" Map.empty]
  by simp

text \<open>The flusher is safe against faults at any point: after any number of flushes, each of
  which may fail or stop in the middle of a write or before the rename, the file is what it was
  at the start or the complete text of one of the stores that were flushed.\<close>

theorem flusher_crash_safe:
  "flusher to_json (d, Some name) flushes fs (d, Some name) \<in>
     insert (fs (d, Some name))
       {Some contents |contents f. f \<in> set (tl flushes) \<and> to_json (flushed_store f) = Inr contents}"
  using fold_save_effect [of to_json d name "tl flushes" fs] by (auto simp: flusher_def)

text \<open>The process exits with 0 exactly on a signal and with 1 when a task ended, whatever
  becomes of the last flush; and when that flush meets no fault the file holds the store.\<close>

theorem shutdown_flushes:
  assumes "to_json st = Inr contents"
  shows "fst (shutdown to_json wfault rfault p ev st fs) = (case ev of TaskEnded _ \<Rightarrow> 1 | _ \<Rightarrow> 0) \<and>
    snd (shutdown to_json None None (d, Some name) ev st fs) (d, Some name) = Some contents"
  using save_ok [of to_json st contents d name fs, OF assms]
  by (simp add: shutdown_def split: supervision.split)

theorem shutdown_flushes_witness:
  "fst (shutdown (\<lambda>st. Inr ''{}'') (Some (WriteFault NotFound None)) None ([], Some ''p'')
     (TaskEnded GrpcServer) peer_store_default Map.empty) = 1"
  using shutdown_flushes [of "\<lambda>st. Inr ''{}''" peer_store_default "''{}''"
      "Some (WriteFault NotFound None)" None "([], Some ''p'')" "TaskEnded GrpcServer" Map.empty]
  by simp

subsection \<open>Configuration and start\<close>

text \<open>A configuration is accepted exactly when the low watermark does not exceed the high
  one, the subnet cap and the maintenance interval are positive, and the protected share is a
  number between 0 and 1.\<close>

theorem validate_config_exact:
  "validate_config app = Inr () \<longleftrightarrow>
     cfg_low_water (app_p2p app) \<le> cfg_high_water (app_p2p app) \<and>
     0 < cfg_per_subnet_cap (app_p2p app) \<and>
     (\<exists>neg x. cfg_max_protected_share (app_p2p app) = F32 neg x \<and>
        (\<not> neg \<or> dval x = 0) \<and> dval x \<le> 1) \<and>
     0 < cfg_maintenance_interval_secs (app_p2p app)"
  by (cases "cfg_max_protected_share (app_p2p app)")
    (auto simp: validate_config_ok dyadic_le_dval)

definition sample_p2p :: "nat p2p_config" where
  "sample_p2p = the (p2p_config_default (\<lambda>text. Some [OtherProtocol text, P2p (length text)]))"

theorem validate_config_exact_witness:
  "validate_config \<lparr>app_p2p = sample_p2p\<lparr>cfg_low_water := 161\<rparr>, app_sentry = sentry_config_default\<rparr> \<noteq> Inr ()"
  using validate_config_exact
    [of "\<lparr>app_p2p = sample_p2p\<lparr>cfg_low_water := 161\<rparr>, app_sentry = sentry_config_default\<rparr>"]
  by (simp add: sample_p2p_def p2p_config_default_def)

text \<open>C32. An accepted configuration never lets the preferred peers alone fill more than the high
  watermark: in every reachable state of a loop with its settings there are at most as many as the
  share of the watermark, which is at most the watermark as long as that is at most 2^24, the
  integers that \<open>f32\<close> represents exactly. The protected peers are at most that many and the
  bootstrap peers, which do not count towards the cap.\<close>

theorem protected_cap_within_high_water:
  assumes valid: "validate_config app = Inr ()" "cfg_high_water (app_p2p app) \<le> 2 ^ 24"
    and n: "net_reachable ops bops n" "settings (event_loop n) = network_settings_of app"
  shows "card (dom (dial_hints (event_loop n))) \<le> protected_cap (network_settings_of app) \<and>
    protected_cap (network_settings_of app) \<le> cfg_high_water (app_p2p app) \<and>
    card (protected (event_loop n)) \<le> cfg_high_water (app_p2p app) + card (bootstrap_peers (event_loop n))"
proof -
  have cap: "protected_cap (network_settings_of app) \<le> cfg_high_water (app_p2p app)"
    using valid by (simp add: protected_cap_def network_settings_of_def validate_config_ok usize_share_le)
  from n(1) have "protected_inv n"
    unfolding net_reachable_def by (blast intro: protected_net.reachable_invar)
  then have hints: "card (dom (dial_hints (event_loop n))) \<le> protected_cap (network_settings_of app)"
    and prot: "protected (event_loop n) = bootstrap_peers (event_loop n) \<union> dom (dial_hints (event_loop n))"
    by (simp_all add: protected_inv_def Let_def n(2))
  have "card (protected (event_loop n)) \<le>
      card (bootstrap_peers (event_loop n)) + card (dom (dial_hints (event_loop n)))"
    unfolding prot by (rule card_Un_le)
  with cap hints show ?thesis by simp
qed

text \<open>The configuration whose settings the sample network runs with.\<close>

definition sample_small_app :: "nat app_config" where
  "sample_small_app = \<lparr>app_p2p = sample_p2p\<lparr>cfg_low_water := 1, cfg_high_water := 4,
     cfg_per_subnet_cap := 1\<rparr>, app_sentry = sentry_config_default\<rparr>"

theorem protected_cap_within_high_water_witness:
  "card (protected (event_loop sample_net)) \<le> 4 + card (bootstrap_peers (event_loop sample_net))"
proof -
  have "validate_config sample_small_app = Inr ()" "cfg_high_water (app_p2p sample_small_app) = 4"
    by (simp_all add: sample_small_app_def sample_p2p_def p2p_config_default_def validate_config_ok
        dyadic_le_dval dval_def pow2_def)
  moreover have "settings (event_loop sample_net) = network_settings_of sample_small_app"
    by (simp add: sample_net_def sample_loop_def event_loop_new_def sample_settings_def
        network_settings_of_def sample_small_app_def sample_p2p_def p2p_config_default_def)
  ultimately show ?thesis
    using protected_cap_within_high_water [OF _ _ sample_reachable, of sample_small_app] by simp
qed

text \<open>The defaults are a valid configuration that protects at most 80 peers, whenever the two
  built-in bootstrap addresses parse.\<close>

theorem default_config_valid:
  assumes "app_config_default parse = Some app"
  shows "validate_config app = Inr () \<and> protected_cap (network_settings_of app) = 80 \<and>
    length (cfg_peers (app_p2p app)) = 2 \<and> dedup_topics (cfg_topics (app_p2p app)) = [''ALIVE'', ''ALEPH-TEST'']"
proof -
  from assms obtain a b where app: "app_p2p app =
      \<lparr>cfg_port = Port 4025, cfg_grpc_host = ''0.0.0.0'', cfg_grpc_port = Port 4030,
       cfg_metrics_port = Port 4040, cfg_peers = [a, b], cfg_topics = [''ALIVE'', ''ALEPH-TEST''],
       cfg_nb_api_workers = 4, cfg_peerstore_path = ('''', Some ''peerstore.json''),
       cfg_low_water = 80, cfg_high_water = 160, cfg_per_subnet_cap = 4,
       cfg_max_protected_share = F32 False (1, -1), cfg_maintenance_interval_secs = 30\<rparr>"
    by (auto simp: app_config_default_def p2p_config_default_def bind_eq_Some_conv)
  show ?thesis
    by (simp add: validate_config_ok app dyadic_le_dval dval_def pow2_def protected_cap_def
        network_settings_of_def f32_of_usize_def fl_of_nat_def fl_mult_def fl_round_exact
        floorlog_fits_iff dyadic_mult_def dyadic_floor_def usize_max_def dedup_topics_def)
qed

theorem default_config_valid_witness:
  "\<exists>app. app_config_default (\<lambda>text. Some [OtherProtocol text, P2p (length text)]) = Some app \<and>
    validate_config app = Inr ()"
proof -
  obtain app where app: "app_config_default (\<lambda>text. Some [OtherProtocol text, P2p (length text)]) = Some app"
    by (simp add: app_config_default_def p2p_config_default_def)
  with default_config_valid [OF app] show ?thesis by blast
qed

text \<open>The topics the service joins are the configured ones without repetitions, each at its
  first place.\<close>

theorem dedup_topics_exact:
  "dedup_topics ts = rev (remdups (rev ts)) \<and> distinct (dedup_topics ts) \<and>
   set (dedup_topics ts) = set ts"
  by (simp add: dedup_topics_remdups)

text \<open>C31. The service starts only with a configuration that was accepted, with the loop's settings,
  bootstrap peers and maintenance settings taken from it, and only after the swarm has accepted the
  listening address and gossipsub has joined every configured topic, each once and in the order
  in which they first occur: the loop goes through one state per topic, and each is the one
  before after a \<open>subscribe\<close> to that topic that gossipsub answered with success, and whatever
  else the loop handled in that turn. Each call is taken to have a reply channel of its own.\<close>

theorem started_service:
  fixes s :: "('w, 'p, 'c) event_loop"
  assumes start: "main_start ops bops env = Started s cfg" and own: "own_senders env"
  shows "\<exists>app keys w. \<exists>ss :: nat \<Rightarrow> ('w, 'p, 'c) event_loop.
    read_config env = Some app \<and> validate_config app = Inr () \<and>
    load_p2p_private_key env = Some keys \<and>
    build_swarm env (swarm_setup_of (cargo_pkg_version env) keys) = Inr w \<and>
    cfg = maintenance_settings_of app \<and> settings s = network_settings_of app \<and>
    bootstrap_peers s = {p. \<exists>a. a @ [P2p p] \<in> set (cfg_peers (app_p2p app))} \<and>
    (let s0 = event_loop_new w (subscriptions_new 1024) metrics_new
           (load (peerstore_json env) (peerstore_read env (cfg_peerstore_path (app_p2p app))))
           (network_settings_of app) (bootstrap_peer_ids (cfg_peers (app_p2p app)));
         listened = state_at_call ops bops (listen_turn env) s0;
         ts = rev (remdups (rev (cfg_topics (app_p2p app))))
     in (\<exists>w1. sw_listen_on ops [Ip4 (Ipv4 0 0 0 0), Tcp (port_number (cfg_port (app_p2p app)))]
           (swarm listened) = (Inr (), w1)) \<and>
        (\<exists>r. client_start_listening ops bops (listen_turn env)
           [Ip4 (Ipv4 0 0 0 0), Tcp (port_number (cfg_port (app_p2p app)))] s0 = (Inr r, ss 0)) \<and>
        ss (length ts) = s \<and>
        (\<forall>k < length ts. \<exists>b w1.
           gs_subscribe ops (ts ! k) (swarm (state_at_call ops bops (topic_turns env k) (ss k))) = (Inr b, w1) \<and>
           ss (Suc k) = run_loop ops bops (afterwards (topic_turns env k))
             (answer (reply_to (topic_turns env k)) (Inr Done)
               ((state_at_call ops bops (topic_turns env k) (ss k))\<lparr>swarm := w1\<rparr>))))"
proof -
  have ids: "bootstrap_peer_ids ms = {p. \<exists>a. a @ [P2p p] \<in> set ms}" for ms :: "'p multiaddr list"
    by (auto simp: bootstrap_peer_ids_def set_map_filter split_peer_multiaddr_Some_iff image_iff)
  let ?addr = "\<lambda>app. [Ip4 (Ipv4 0 0 0 0), Tcp (port_number (cfg_port (app_p2p app)))]"
  let ?s0 = "\<lambda>w app. event_loop_new w (subscriptions_new 1024) metrics_new
    (load (peerstore_json env) (peerstore_read env (cfg_peerstore_path (app_p2p app))))
    (network_settings_of app) (bootstrap_peer_ids (cfg_peers (app_p2p app)))"
  from main_start_Started [OF start] obtain app keys w s1 r where
    conf: "read_config env = Some app" "validate_config app = Inr ()" "load_p2p_private_key env = Some keys"
      "build_swarm env (swarm_setup_of (cargo_pkg_version env) keys) = Inr w"
      "cfg = maintenance_settings_of app" "settings s = network_settings_of app"
      "bootstrap_peers s = bootstrap_peer_ids (cfg_peers (app_p2p app))"
    and listen: "client_start_listening ops bops (listen_turn env) (?addr app) (?s0 w app) = (Inr r, s1)"
    and topics: "subscribe_to_topics ops bops (topic_turns env) 0
      (rev (remdups (rev (cfg_topics (app_p2p app))))) s1 = (Inr (), s)"
    unfolding initial_loop_Inr subscription_capacity_def bind_multiaddr_def append_Cons append_Nil
      dedup_topics_remdups by blast
  have "reply_to (listen_turn env) \<notin># {#} + senders_taken (before (listen_turn env))"
    using own by (simp add: own_senders_def)
  note heard = start_listening_accepted [OF listen account_new this]
  then have "dials_account s1 (turn_senders (listen_turn env))" by simp
  from subscribe_to_topics_joins [OF topics this] own obtain ss where "ss 0 = s1"
    "ss (length (rev (remdups (rev (cfg_topics (app_p2p app)))))) = s"
    "\<forall>k < length (rev (remdups (rev (cfg_topics (app_p2p app))))). joins_topic ops bops (topic_turns env k)
       (rev (remdups (rev (cfg_topics (app_p2p app)))) ! k) (ss k) (ss (Suc k))"
    by (auto simp: own_senders_def)
  with conf heard listen show ?thesis
    unfolding Let_def joins_topic_def
    by (intro exI [of _ app] exI [of _ keys] exI [of _ w] exI [of _ ss]) (simp add: ids)
qed

definition sample_app :: "nat app_config" where
  "sample_app = the (app_config_default (\<lambda>text. Some [OtherProtocol text, P2p (length text)]))"

definition sample_env :: "(io_error + string) \<Rightarrow> (swarm_call list, nat, unit) startup_env" where
  "sample_env stored_file = \<lparr>config_file = Inr ''p2p:'', config_yaml = (\<lambda>text. Inr sample_app),
     key_file = Inr [48], decode_pkcs8 = (\<lambda>bytes. Inr ()), peerstore_read = (\<lambda>p. stored_file),
     peerstore_json = (\<lambda>c. if c = ''{}'' then
       Some (record_peer id id ''p'' [''a''] 95 peer_store_default) else None),
     cargo_pkg_version = ''2.0.0'', build_swarm = (\<lambda>setup. Inr []),
     listen_turn = sample_turn 0 [], topic_turns = (\<lambda>i. sample_turn (Suc i) []),
     grpc_bind = (\<lambda>host p. Inr ()), http_bind = (\<lambda>workers p. Inr ())\<rparr>"

lemma sample_app_simps:
  "cfg_port (app_p2p sample_app) = Port 4025"
  "cfg_topics (app_p2p sample_app) = [''ALIVE'', ''ALEPH-TEST'']"
  "cfg_peerstore_path (app_p2p sample_app) = ([], Some ''peerstore.json'')"
  by (simp_all add: sample_app_def app_config_default_def p2p_config_default_def)

lemma sample_env_starts_on:
  "\<exists>s cfg. main_start sample_ops queue_channel_ops ((sample_env old_file)\<lparr>peerstore_read := rd\<rparr>) = Started s cfg \<and>
     swarm s = [CallListen [Ip4 (Ipv4 0 0 0 0), Tcp 4025], CallSubscribe ''ALIVE'',
       CallSubscribe ''ALEPH-TEST'']"
proof -
  have valid: "validate_config sample_app = Inr ()"
    by (simp add: validate_config_ok sample_app_def app_config_default_def p2p_config_default_def
        dyadic_le_dval dval_def pow2_def)
  show ?thesis
    by (simp add: main_start_def sample_env_def read_config_def load_p2p_private_key_def valid
        sample_app_simps client_defs send_command_and_wait_def sample_turn_def initial_loop_def
        network_new_def event_loop_new_def answer_def dedup_topics_def bind_multiaddr_def Let_def)
qed

lemma sample_env_starts:
  "\<exists>s cfg. main_start sample_ops queue_channel_ops (sample_env old_file) = Started s cfg \<and>
     swarm s = [CallListen [Ip4 (Ipv4 0 0 0 0), Tcp 4025], CallSubscribe ''ALIVE'',
       CallSubscribe ''ALEPH-TEST'']"
  using sample_env_starts_on [where old_file = old_file and rd = "\<lambda>p. old_file"] by (simp add: sample_env_def)

lemma sample_own_senders: "own_senders (sample_env old_file)"
  by (simp add: own_senders_def sample_env_def turn_senders_def sample_turn_def set_mset_sum)

theorem started_service_witness:
  "\<exists>s cfg. main_start sample_ops queue_channel_ops (sample_env (Inl NotFound)) = Started s cfg \<and>
     settings s = network_settings_of sample_app"
proof -
  from sample_env_starts [of "Inl NotFound"] obtain s cfg where
    start: "main_start sample_ops queue_channel_ops (sample_env (Inl NotFound)) = Started s cfg" by blast
  have "read_config (sample_env (Inl NotFound)) = Some sample_app"
    by (simp add: read_config_def sample_env_def)
  with started_service [OF start sample_own_senders] start show ?thesis by auto
qed

subsection \<open>The life of the service\<close>

text \<open>C22. The peer store file is safe while the event loop records and the flusher saves in any
  interleaving, with any faults: after any number of steps it is what it was at the start, or
  the complete text of the store as it was after some of these steps; and the last flush of the
  exit, when it meets no fault, leaves the text of the store that the whole run recorded.\<close>

theorem service_file_safe:
  "svc_files (service_run ops bops to_json (d, Some name) steps (service_started s fs)) (d, Some name)
     \<in> insert (fs (d, Some name))
       {Some contents |contents k. to_json (peerstore
          (run_loop ops bops (handled_inputs (take k steps)) s)) = Inr contents} \<and>
   (to_json (peerstore (run_loop ops bops (handled_inputs steps) s)) = Inr final \<longrightarrow>
     snd (service_exit to_json None None (d, Some name) ev
       (service_run ops bops to_json (d, Some name) steps (service_started s fs))) (d, Some name) =
     Some final)"
proof
  show "svc_files (service_run ops bops to_json (d, Some name) steps (service_started s fs)) (d, Some name)
     \<in> insert (fs (d, Some name))
       {Some contents |contents k. to_json (peerstore
          (run_loop ops bops (handled_inputs (take k steps)) s)) = Inr contents}"
    using service_file [of ops bops to_json d name steps "service_started s fs"]
    by (auto simp: store_texts_def service_loop_started) (auto simp: service_started_def)
qed (simp add: service_exit_def shutdown_def save_ok service_loop_started)

theorem service_file_safe_witness:
  "snd (service_exit (\<lambda>st. Inr ''{}'') None None ([], Some ''p'') (TaskEnded P2pEventLoop)
     (service_run sample_ops queue_channel_ops (\<lambda>st. Inr ''{}'') ([], Some ''p'')
       [FlushTimer None None, LoopHandles CommandChannelClosed,
        FlushTimer (Some (WriteFault NotFound None)) None] (service_started sample_loop Map.empty)))
     ([], Some ''p'') = Some ''{}''"
  using service_file_safe [where to_json = "\<lambda>st. Inr ''{}''" and final = "''{}''" and s = sample_loop]
  by blast

text \<open>C21. What the service knew when it exited it knows when it starts again: with the file that a
  faultless last flush left, every peer that the store of the old process held is in the store
  of the new one, with an address if it had one; and when the start itself brings no addresses
  the two stores are equal.\<close>

theorem restart_remembers:
  assumes exit: "service_exit to_json None None (d, Some name) ev svc = (exit_status, files)"
    and json: "to_json (peerstore (svc_loop svc)) = Inr contents"
      "peerstore_json env contents = Some (peerstore (svc_loop svc))"
    and env: "peerstore_read env (d, Some name) = fs_read None (d, Some name) files"
    and path: "\<forall>app. read_config env = Some app \<longrightarrow> cfg_peerstore_path (app_p2p app) = (d, Some name)"
    and start: "main_start ops bops env = Started s cfg"
  shows "(seen_at (peerstore (svc_loop svc)) key \<noteq> None \<longrightarrow> seen_at (peerstore s) key \<noteq> None) \<and>
    (known_addrs (peerstore (svc_loop svc)) key \<noteq> [] \<longrightarrow> known_addrs (peerstore s) key \<noteq> []) \<and>
    (records_nothing (listen_turn env) \<and> (\<forall>j. records_nothing (topic_turns env j)) \<longrightarrow>
      peerstore s = peerstore (svc_loop svc))"
proof -
  have "files (d, Some name) = Some contents"
    using exit save_ok [where to_json = to_json and st = "peerstore (svc_loop svc)", OF json(1)]
    by (auto simp: service_exit_def shutdown_def)
  with json env have load: "load (peerstore_json env) (peerstore_read env (d, Some name)) =
      peerstore (svc_loop svc)" by (simp add: load_def fs_read_def)
  from started_store [OF start] path load have ext:
    "extends_store (peerstore s) (peerstore (svc_loop svc))"
    "records_nothing (listen_turn env) \<Longrightarrow> \<forall>j. records_nothing (topic_turns env j) \<Longrightarrow>
       peerstore s = peerstore (svc_loop svc)" by metis+
  from extends_store_keeps [OF ext(1)] ext(2) show ?thesis by blast
qed

theorem restart_remembers_witness:
  "\<exists>s cfg. main_start sample_ops queue_channel_ops (sample_env (Inr ''{}'')) = Started s cfg \<and>
     known_addrs (peerstore s) ''p'' \<noteq> []"
proof -
  let ?st = "record_peer id id ''p'' [''a''] 95 peer_store_default"
  let ?p = "([], Some ''peerstore.json'')"
  let ?svc = "service_started (sample_loop\<lparr>peerstore := ?st\<rparr>) Map.empty"
  from sample_env_starts obtain s cfg where
    start: "main_start sample_ops queue_channel_ops (sample_env (Inr ''{}'')) = Started s cfg" by blast
  have known: "known_addrs ?st ''p'' \<noteq> []"
    unfolding known_record by (simp add: push_addr_def max_addrs_per_peer_def known_addrs_def
        peer_store_default_def)
  obtain exit_status files where
    exit: "service_exit (\<lambda>st. Inr ''{}'') None None ?p SigTerm ?svc = (exit_status, files)" by fastforce
  then have "fs_read None ?p files = Inr ''{}''"
    using save_ok [of "\<lambda>st. Inr ''{}''" ?st "''{}''" "[]" "''peerstore.json''" Map.empty]
    by (auto simp: service_exit_def shutdown_def service_started_def fs_read_def)
  then have "peerstore_read (sample_env (Inr ''{}'')) ?p = fs_read None ?p files"
    "peerstore_json (sample_env (Inr ''{}'')) ''{}'' = Some (peerstore (svc_loop ?svc))"
    "\<forall>app. read_config (sample_env (Inr ''{}'')) = Some app \<longrightarrow> cfg_peerstore_path (app_p2p app) = ?p"
    by (simp_all add: sample_env_def service_started_def read_config_def sample_app_simps)
  from restart_remembers [OF exit _ this(2,1,3) start, of "''p''"] known
  have "known_addrs (peerstore s) ''p'' \<noteq> []" by (simp add: service_started_def)
  with start show ?thesis by blast
qed

subsection \<open>The process\<close>

text \<open>C23. How the process ends and what it leaves on disk: its status is 0 exactly when the command
  line asked for that or a signal ended the supervision; a process that does not reach the
  supervision leaves all files alone; one that does has accepted the configuration at the path
  the command line names or its default, has installed the handler of SIGTERM, runs Sentry exactly if that has a DSN, and leaves the peer
  store file as it was or with the complete text of a store that its loop had, of the last
  one if the last flush meets no fault.\<close>

theorem process_exit:
  fixes ops :: "('w, 'p) swarm_ops" and bops :: "('c, 'r) broadcast_ops"
    and env :: "('w, 'p, 'k, 'g) process_env"
  assumes "main ops bops to_json env life fs = r"
  shows "(process_status (process_ended r) = 0 \<longleftrightarrow> cli_parse env = Inl 0 \<or>
      (\<exists>n. process_ended r = Exited n) \<and> life_ends life \<in> {SigInt, SigTerm}) \<and>
    ((\<forall>n. process_ended r \<noteq> Exited n) \<longrightarrow> process_files r = fs) \<and>
    (\<forall>n. process_ended r = Exited n \<longrightarrow> (\<exists>config key app cfg. \<exists>s :: ('w, 'p, 'c) event_loop.
      cli_parse env = Inr (config, key) \<and>
      read_config (startup_of env (cli_args_of config key) fs) = Some app \<and> validate_config app = Inr () \<and>
      main_start ops bops (startup_of env (cli_args_of config key) fs) = Started s cfg \<and>
      install_sigterm env = Inr () \<and>
      process_sentry r = map_option (\<lambda>d. sentry_client env d (release_name env)) (dsn (app_sentry app)) \<and>
      (\<forall>d name. cfg_peerstore_path (app_p2p app) = (d, Some name) \<longrightarrow>
        process_files r (d, Some name) \<in> insert (fs (d, Some name)) {Some contents |contents k.
          to_json (peerstore (run_loop ops bops (handled_inputs (take k (life_steps life))) s)) = Inr contents} \<and>
        (\<forall>contents. last_write_fault life = None \<and> last_rename_fault life = None \<and>
          to_json (peerstore (run_loop ops bops (handled_inputs (life_steps life)) s)) = Inr contents \<longrightarrow>
          process_files r (d, Some name) = Some contents))))"
    (is "_ \<and> _ \<and> (\<forall>n. _ \<longrightarrow> (\<exists>config key app cfg s. ?run config key app cfg s))")
proof (intro conjI allI impI)
  show "process_status (process_ended r) = 0 \<longleftrightarrow> cli_parse env = Inl 0 \<or>
      (\<exists>n. process_ended r = Exited n) \<and> life_ends life \<in> {SigInt, SigTerm}"
    using main_status_0 [of ops bops to_json env life fs] unfolding assms .
  show "process_files r = fs" if "\<forall>n. process_ended r \<noteq> Exited n"
    using main_not_started [of ops bops to_json env life fs] that unfolding assms .
next
  fix n
  assume "process_ended r = Exited n"
  then obtain config key app and s :: "('w, 'p, 'c) event_loop" and cfg where
    run: "cli_parse env = Inr (config, key)"
      "read_config (startup_of env (cli_args_of config key) fs) = Some app" "validate_config app = Inr ()"
      "main_start ops bops (startup_of env (cli_args_of config key) fs) = Started s cfg"
      "install_sigterm env = Inr ()" "process_sentry r = configure_sentry (sentry_client env) (release_name env) app"
    and files: "process_files r = snd (service_exit to_json (last_write_fault life) (last_rename_fault life)
      (cfg_peerstore_path (app_p2p app)) (life_ends life)
      (service_run ops bops to_json (cfg_peerstore_path (app_p2p app)) (life_steps life)
        (service_started s fs)))"
    using main_exited [of ops bops to_json env life fs n] unfolding assms by metis
  from run(6) have "process_sentry r = map_option (\<lambda>d. sentry_client env d (release_name env)) (dsn (app_sentry app))"
    by (simp only: configure_sentry_def)
  with run(1-5) exited_store_file [OF files] show "\<exists>config key app cfg. \<exists>s :: ('w, 'p, 'c) event_loop. ?run config key app cfg s"
    by (intro exI [of _ config] exI [of _ key] exI [of _ app] exI [of _ cfg] exI [of _ s] conjI allI impI) assumption+
qed

definition sample_process :: "(swarm_call list, nat, unit, string) process_env" where
  "sample_process = \<lparr>set_logger = Inr (), cli_parse = Inr (None, None),
     sentry_client = (\<lambda>d release. d @ release), release_name = ''2.0.0'', config_fault = None,
     peerstore_fault = None, read_key = (\<lambda>p. Inr [48]),
     install_sigterm = Inr (), libraries = sample_env (Inl NotFound)\<rparr>"

definition sample_files :: filesystem where
  "sample_files = [([], Some ''config.yml'') \<mapsto> ''p2p:'']"

definition sample_life :: "supervision \<Rightarrow> nat process_life" where
  "sample_life ev = \<lparr>life_steps = [FlushTimer None None, LoopHandles CommandChannelClosed],
     life_ends = ev, last_write_fault = None, last_rename_fault = None\<rparr>"

theorem process_exit_witness:
  "process_files (main sample_ops queue_channel_ops (\<lambda>st. Inr ''{}'') sample_process (sample_life SigTerm)
     sample_files) ([], Some ''peerstore.json'') = Some ''{}'' \<and>
   process_status (process_ended (main sample_ops queue_channel_ops (\<lambda>st. Inr ''{}'') sample_process
     (sample_life SigTerm) sample_files)) = 0"
proof -
  let ?r = "main sample_ops queue_channel_ops (\<lambda>st. Inr ''{}'') sample_process (sample_life SigTerm) sample_files"
  let ?senv = "startup_of sample_process (cli_args_of None None) sample_files"
  have cli: "cli_parse sample_process = Inr (None, None)" and sigterm: "install_sigterm sample_process = Inr ()"
    by (simp_all add: sample_process_def)
  have senv: "?senv = (sample_env (Inl NotFound))\<lparr>peerstore_read := \<lambda>p. fs_read None p sample_files\<rparr>"
    by (simp add: startup_of_def sample_process_def sample_files_def sample_env_def cli_args_of_def fs_read_def)
  have conf: "read_config ?senv = Some sample_app"
    unfolding senv by (simp add: read_config_def sample_env_def)
  obtain s cfg where "main_start sample_ops queue_channel_ops ?senv = Started s cfg"
    using sample_env_starts_on [where old_file = "Inl NotFound"] unfolding senv by blast
  then have ended: "\<exists>n. process_ended ?r = Exited n"
    by (simp add: main_def cli sigterm Let_def split: prod.split)
  from process_exit [of sample_ops queue_channel_ops "\<lambda>st. Inr ''{}''" sample_process "sample_life SigTerm"
      sample_files, OF refl] ended conf show ?thesis
    by (simp add: sample_life_def sample_app_simps cli)
qed

subsection \<open>Memory usage and message ids\<close>

text \<open>C40. The memory gauge shows what the kernel reports: for a status file whose first \<open>VmRSS:\<close>
  line holds blanks, a decimal number below 2^64 and a unit, the number times 1024 modulo 2^64 is
  returned, and the gauge is exactly that product while it fits a signed 64-bit integer.\<close>

theorem memory_usage_exact:
  fixes m :: metrics
  assumes layout: "\<forall>l \<in> set (pre @ status_line blanks kb unit # post). newline \<notin> set l \<and> CHR 0x0D \<notin> set l"
    and first: "\<forall>l \<in> set pre. \<not> starts_with ''VmRSS:'' l"
    and line: "blanks \<noteq> []" "\<forall>c \<in> set blanks. is_whitespace c" "unit = [] \<or> is_whitespace (hd unit)"
    and kb: "kb < 2 ^ 64"
  defines "status \<equiv> concat (map (\<lambda>l. l @ [newline]) (pre @ status_line blanks kb unit # post))"
  shows "get_memory_usage (Inr status :: 'e + string) = Inr (of_nat kb * 1024) \<and>
    (kb < 2 ^ 53 \<longrightarrow> memory_usage_bytes (update_memory_usage (Inr status :: 'e + string) m) = int kb * 1024)"
proof -
  have usage: "get_memory_usage (Inr status :: 'e + string) = Inr (of_nat kb * 1024)"
    by (simp only: get_memory_usage_def status_def sum.case str_lines_join [OF layout]
        memory_of_other_lines [OF first] memory_of_status_line [OF line kb])
  moreover have "sint (of_nat kb * 1024 :: u64) = int kb * 1024" if "kb < 2 ^ 53"
    using sint_small [of "kb * 1024"] that by simp
  ultimately show ?thesis by (simp add: update_memory_usage_def)
qed

theorem memory_usage_exact_witness:
  "memory_usage_bytes (update_memory_usage
     (Inr (''Name: p2p'' @ [newline] @ ''VmRSS:  20480 kB'' @ [newline]) :: unit + string) metrics_new) = 20971520"
proof -
  have "decimal 20480 = ''20480''" by (simp add: decimal.simps char_of_def bit_iff_odd)
  then show ?thesis
    using memory_usage_exact [of "[''Name: p2p'']" "''  ''" 20480 "'' kB''" "[]" metrics_new,
        where 'e = unit]
    by (simp add: status_line_def newline_def starts_with_def is_whitespace_def)
qed

text \<open>Messages are named by their payload alone: two messages have the same id exactly when
  their payloads have the same hash, whatever their topics, sources and sequence numbers, and
  the id reads back as that hash.\<close>

theorem message_id_exact:
  "(message_id_fn hasher m1 = message_id_fn hasher m2 \<longleftrightarrow> hasher (gm_data m1) = hasher (gm_data m2)) \<and>
   parse_u64 (message_id_fn hasher m1) = Some (hasher (gm_data m1))"
  by (simp add: message_id_fn_def u64_to_string_inj parse_u64_to_string)

end
