(* ===== verification/Core2_Io.thy ===== *)
theory Core2_Io
  imports P2P_Prelude
begin

section \<open>The pinned I/O crate (src/patches/core2-0.4.0/src/io)\<close>

text \<open>
  The repository carries a copy of \<open>core2\<close>, a version of \<open>std::io\<close> without the standard
  library, and patches the dependency tree with it. Modelled here: the errors, the readers and
  writers of byte slices, \<open>Cursor\<close>, the default loops of \<open>Read\<close> and \<open>Write\<close>, the adapters
  \<open>Take\<close>, \<open>Chain\<close> and \<open>Bytes\<close>, \<open>BufReader\<close> and \<open>BufWriter\<close>.

  A \<open>read\<close> takes the length of the buffer it may fill and returns the bytes it put at the
  buffer's start; the rest of the buffer is not part of the result. Loops that retry after
  \<open>Interrupted\<close> may run forever: they are partial functions, whose value is \<open>None\<close> then.
\<close>

subsection \<open>Errors (io/error.rs)\<close>

datatype error_kind =
    EkNotFound | EkPermissionDenied | EkConnectionRefused | EkConnectionReset
  | EkConnectionAborted | EkNotConnected | EkAddrInUse | EkAddrNotAvailable | EkBrokenPipe
  | EkAlreadyExists | EkWouldBlock | EkInvalidInput | EkInvalidData | EkTimedOut | EkWriteZero
  | EkInterrupted | EkOther | EkUnexpectedEof | EkUncategorized

fun as_str :: "error_kind \<Rightarrow> string" where
  "as_str EkNotFound = ''entity not found''"
| "as_str EkPermissionDenied = ''permission denied''"
| "as_str EkConnectionRefused = ''connection refused''"
| "as_str EkConnectionReset = ''connection reset''"
| "as_str EkConnectionAborted = ''connection aborted''"
| "as_str EkNotConnected = ''not connected''"
| "as_str EkAddrInUse = ''address in use''"
| "as_str EkAddrNotAvailable = ''address not available''"
| "as_str EkBrokenPipe = ''broken pipe''"
| "as_str EkAlreadyExists = ''entity already exists''"
| "as_str EkWouldBlock = ''operation would block''"
| "as_str EkInvalidInput = ''invalid input parameter''"
| "as_str EkInvalidData = ''invalid data''"
| "as_str EkTimedOut = ''timed out''"
| "as_str EkWriteZero = ''write zero''"
| "as_str EkInterrupted = ''operation interrupted''"
| "as_str EkOther = ''other os error''"
| "as_str EkUnexpectedEof = ''unexpected end of file''"
| "as_str EkUncategorized = ''uncategorized''"

text \<open>The derived \<open>Ord\<close>: the order of declaration.\<close>

fun discriminant :: "error_kind \<Rightarrow> nat" where
  "discriminant EkNotFound = 0"
| "discriminant EkPermissionDenied = 1"
| "discriminant EkConnectionRefused = 2"
| "discriminant EkConnectionReset = 3"
| "discriminant EkConnectionAborted = 4"
| "discriminant EkNotConnected = 5"
| "discriminant EkAddrInUse = 6"
| "discriminant EkAddrNotAvailable = 7"
| "discriminant EkBrokenPipe = 8"
| "discriminant EkAlreadyExists = 9"
| "discriminant EkWouldBlock = 10"
| "discriminant EkInvalidInput = 11"
| "discriminant EkInvalidData = 12"
| "discriminant EkTimedOut = 13"
| "discriminant EkWriteZero = 14"
| "discriminant EkInterrupted = 15"
| "discriminant EkOther = 16"
| "discriminant EkUnexpectedEof = 17"
| "discriminant EkUncategorized = 18"

lemma discriminant_inj: "discriminant a = discriminant b \<Longrightarrow> a = b"
  by (cases a; cases b; simp)

instantiation error_kind :: linorder
begin

definition less_eq_error_kind :: "error_kind \<Rightarrow> error_kind \<Rightarrow> bool" where
  "less_eq_error_kind a b \<longleftrightarrow> discriminant a \<le> discriminant b"

definition less_error_kind :: "error_kind \<Rightarrow> error_kind \<Rightarrow> bool" where
  "less_error_kind a b \<longleftrightarrow> discriminant a < discriminant b"

instance
  by standard (auto simp: less_eq_error_kind_def less_error_kind_def intro: discriminant_inj)

end

datatype core_error = Simple error_kind | Custom error_kind string

fun error_kind_of :: "core_error \<Rightarrow> error_kind" where
  "error_kind_of (Simple k) = k"
| "error_kind_of (Custom k _) = k"

fun error_get_ref :: "core_error \<Rightarrow> string option" where
  "error_get_ref (Simple _) = None"
| "error_get_ref (Custom _ e) = Some e"

fun error_display :: "core_error \<Rightarrow> string" where
  "error_display (Custom _ e) = e"
| "error_display (Simple k) = as_str k"

type_synonym 's reader = "nat \<Rightarrow> 's \<Rightarrow> (core_error + u8 list) \<times> 's"
type_synonym 's writer = "u8 list \<Rightarrow> 's \<Rightarrow> (core_error + nat) \<times> 's"

subsection \<open>Slices and vectors (io/impls.rs)\<close>

definition slice_read :: "u8 list reader" where
  "slice_read n s = (let amt = min n (length s) in (Inr (take amt s), drop amt s))"

definition slice_read_exact :: "u8 list reader" where
  "slice_read_exact n s =
     (if n > length s then (Inl (Custom EkUnexpectedEof ''failed to fill whole buffer''), s)
      else (Inr (take n s), drop n s))"

text \<open>\<open>&self[amt..]\<close> panics when the slice is too short.\<close>

definition slice_consume :: "nat \<Rightarrow> u8 list \<Rightarrow> u8 list option" where
  "slice_consume amt s = (if amt \<le> length s then Some (drop amt s) else None)"

text \<open>A mutable slice under writing: the part already overwritten, and the rest it points to.\<close>

definition mut_slice_write :: "(u8 list \<times> u8 list) writer" where
  "mut_slice_write data sl =
     (case sl of (written, rest) \<Rightarrow>
        (let amt = min (length data) (length rest)
         in (Inr amt, (written @ take amt data, drop amt rest))))"

definition mut_slice_write_all ::
    "u8 list \<Rightarrow> u8 list \<times> u8 list \<Rightarrow> (core_error + unit) \<times> (u8 list \<times> u8 list)" where
  "mut_slice_write_all data sl =
     (case mut_slice_write data sl of
        (Inl e, sl') \<Rightarrow> (Inl e, sl')
      | (Inr n, sl') \<Rightarrow>
          (if n = length data then Inr () else Inl (Custom EkWriteZero ''failed to write whole buffer''),
           sl'))"

definition vec_write :: "u8 list writer" where
  "vec_write data v = (Inr (length data), v @ data)"

subsection \<open>Cursor (io/cursor.rs)\<close>

record cursor =
  cursor_inner :: "u8 list"
  cursor_pos :: u64

definition cursor_new :: "u8 list \<Rightarrow> cursor" where
  "cursor_new bs = \<lparr>cursor_inner = bs, cursor_pos = 0\<rparr>"

definition set_position :: "u64 \<Rightarrow> cursor \<Rightarrow> cursor" where
  "set_position p c = c\<lparr>cursor_pos := p\<rparr>"

text \<open>An \<open>i64\<close> offset is a 64-bit word read with \<open>sint\<close>.\<close>

datatype seek_from = Start u64 | End u64 | Current u64

definition checked_add :: "u64 \<Rightarrow> u64 \<Rightarrow> u64 option" where
  "checked_add a b = (if unat a + unat b < 2 ^ 64 then Some (a + b) else None)"

definition checked_sub :: "u64 \<Rightarrow> u64 \<Rightarrow> u64 option" where
  "checked_sub a b = (if b \<le> a then Some (a - b) else None)"

definition seek_target :: "u64 \<Rightarrow> u64 \<Rightarrow> u64 option" where
  "seek_target base_pos offset =
     (if 0 \<le> sint offset then checked_add base_pos offset else checked_sub base_pos (- offset))"

definition cursor_seek :: "seek_from \<Rightarrow> cursor \<Rightarrow> (core_error + u64) \<times> cursor" where
  "cursor_seek style c =
     (case style of
        Start n \<Rightarrow> (Inr n, c\<lparr>cursor_pos := n\<rparr>)
      | _ \<Rightarrow>
          (let target =
             (case style of
                End n \<Rightarrow> seek_target (of_nat (length (cursor_inner c))) n
              | Current n \<Rightarrow> seek_target (cursor_pos c) n)
           in case target of
                Some n \<Rightarrow> (Inr n, c\<lparr>cursor_pos := n\<rparr>)
              | None \<Rightarrow>
                  (Inl (Custom EkInvalidInput ''invalid seek to a negative or overflowing position''), c)))"

definition cursor_fill_buf :: "cursor \<Rightarrow> u8 list" where
  "cursor_fill_buf c = drop (min (unat (cursor_pos c)) (length (cursor_inner c))) (cursor_inner c)"

definition cursor_consume :: "nat \<Rightarrow> cursor \<Rightarrow> cursor" where
  "cursor_consume amt c = c\<lparr>cursor_pos := cursor_pos c + of_nat amt\<rparr>"

definition cursor_read :: "cursor reader" where
  "cursor_read n c =
     (case fst (slice_read n (cursor_fill_buf c)) of
        Inl e \<Rightarrow> (Inl e, c)
      | Inr bs \<Rightarrow> (Inr bs, c\<lparr>cursor_pos := cursor_pos c + of_nat (length bs)\<rparr>))"

definition cursor_read_exact :: "cursor reader" where
  "cursor_read_exact n c =
     (case fst (slice_read_exact n (cursor_fill_buf c)) of
        Inl e \<Rightarrow> (Inl e, c)
      | Inr bs \<Rightarrow> (Inr bs, c\<lparr>cursor_pos := cursor_pos c + of_nat n\<rparr>))"

text \<open>\<open>slice_write\<close>: the position moves by the amount written, even from beyond the end.\<close>

definition cursor_write :: "cursor writer" where
  "cursor_write data c =
     (let p = min (unat (cursor_pos c)) (length (cursor_inner c))
      in case mut_slice_write data ([], drop p (cursor_inner c)) of
           (Inl e, _) \<Rightarrow> (Inl e, c)
         | (Inr amt, written, rest) \<Rightarrow>
             (Inr amt, \<lparr>cursor_inner = take p (cursor_inner c) @ written @ rest,
                        cursor_pos = cursor_pos c + of_nat amt\<rparr>))"

subsection \<open>The default loops of Read and Write (io/traits.rs)\<close>

text \<open>The bytes read so far are returned with the result, an error included.\<close>

partial_function (option) read_exact_loop ::
    "'s reader \<Rightarrow> nat \<Rightarrow> u8 list \<Rightarrow> 's \<Rightarrow> ((core_error + unit) \<times> u8 list \<times> 's) option" where
  "read_exact_loop rd n acc s =
     (if n = 0 then Some (Inr (), acc, s)
      else case rd n s of
        (Inr bs, s') \<Rightarrow>
          (if bs = [] then Some (Inl (Custom EkUnexpectedEof ''failed to fill whole buffer''), acc, s')
           else read_exact_loop rd (n - length bs) (acc @ bs) s')
      | (Inl e, s') \<Rightarrow>
          (if error_kind_of e = EkInterrupted then read_exact_loop rd n acc s'
           else Some (Inl e, acc, s')))"

definition read_exact where
  "read_exact rd n s = read_exact_loop rd n [] s"

partial_function (option) write_all ::
    "'s writer \<Rightarrow> u8 list \<Rightarrow> 's \<Rightarrow> ((core_error + unit) \<times> 's) option" where
  "write_all wr data s =
     (if data = [] then Some (Inr (), s)
      else case wr data s of
        (Inr n, s') \<Rightarrow>
          (if n = 0 then Some (Inl (Custom EkWriteZero ''failed to write whole buffer''), s')
           else write_all wr (drop n data) s')
      | (Inl e, s') \<Rightarrow>
          (if error_kind_of e = EkInterrupted then write_all wr data s' else Some (Inl e, s')))"

text \<open>
  \<open>read_to_end\<close>: \<open>used\<close> and \<open>avail\<close> are \<open>g.len\<close> and \<open>g.buf.len()\<close>, counted from the vector's
  start; \<open>grow len additional\<close> is the capacity \<open>Vec::reserve\<close> leaves, the allocator's choice.
\<close>

partial_function (option) read_to_end_loop ::
    "'s reader \<Rightarrow> ('s \<Rightarrow> nat) \<Rightarrow> (nat \<Rightarrow> nat \<Rightarrow> nat) \<Rightarrow> nat \<Rightarrow> nat \<Rightarrow> u8 list \<Rightarrow> 's
      \<Rightarrow> ((core_error + unit) \<times> u8 list \<times> 's) option" where
  "read_to_end_loop rd reservation grow used avail acc s =
     (let avail' = (if used = avail then grow used (reservation s) else avail)
      in case rd (avail' - used) s of
        (Inr bs, s') \<Rightarrow>
          (if bs = [] then Some (Inr (), acc, s')
           else read_to_end_loop rd reservation grow (used + length bs) avail' (acc @ bs) s')
      | (Inl e, s') \<Rightarrow>
          (if error_kind_of e = EkInterrupted
           then read_to_end_loop rd reservation grow used avail' acc s'
           else Some (Inl e, acc, s')))"

definition read_to_end ::
    "'s reader \<Rightarrow> ('s \<Rightarrow> nat) \<Rightarrow> (nat \<Rightarrow> nat \<Rightarrow> nat) \<Rightarrow> u8 list \<Rightarrow> 's
      \<Rightarrow> ((core_error + nat) \<times> u8 list \<times> 's) option" where
  "read_to_end rd reservation grow buf s =
     (case read_to_end_loop rd reservation grow (length buf) (length buf) buf s of
        None \<Rightarrow> None
      | Some (Inl e, buf', s') \<Rightarrow> Some (Inl e, buf', s')
      | Some (Inr _, buf', s') \<Rightarrow> Some (Inr (length buf' - length buf), buf', s'))"

definition grows :: "(nat \<Rightarrow> nat \<Rightarrow> nat) \<Rightarrow> bool" where
  "grows grow \<longleftrightarrow> (\<forall>used additional. used + additional \<le> grow used additional)"

text \<open>\<open>Bytes::next\<close>.\<close>

partial_function (option) bytes_next ::
    "'s reader \<Rightarrow> 's \<Rightarrow> ((core_error + u8) option \<times> 's) option" where
  "bytes_next rd s =
     (case rd 1 s of
        (Inr bs, s') \<Rightarrow> Some (case bs of [] \<Rightarrow> None | b # _ \<Rightarrow> Some (Inr b), s')
      | (Inl e, s') \<Rightarrow>
          (if error_kind_of e = EkInterrupted then bytes_next rd s' else Some (Some (Inl e), s')))"

subsection \<open>Take and Chain\<close>

record 's take_reader =
  take_inner :: 's
  take_limit :: u64

definition take_read :: "'s reader \<Rightarrow> 's take_reader reader" where
  "take_read rd n t =
     (if take_limit t = 0 then (Inr [], t)
      else case rd (min n (unat (take_limit t))) (take_inner t) of
             (Inl e, s) \<Rightarrow> (Inl e, t\<lparr>take_inner := s\<rparr>)
           | (Inr bs, s) \<Rightarrow>
               (Inr bs, \<lparr>take_inner = s, take_limit = take_limit t - of_nat (length bs)\<rparr>))"

text \<open>The reservation of \<open>Take\<close>'s own \<open>read_to_end\<close>.\<close>

definition take_reservation :: "'s take_reader \<Rightarrow> nat" where
  "take_reservation t = min (unat (take_limit t)) 32"

record ('s, 't) chain_reader =
  chain_first :: 's
  chain_second :: 't
  done_first :: bool

definition chain_second_read ::
    "'t reader \<Rightarrow> nat \<Rightarrow> ('s, 't) chain_reader \<Rightarrow> (core_error + u8 list) \<times> ('s, 't) chain_reader" where
  "chain_second_read rd2 n c =
     (case rd2 n (chain_second c) of (r, s) \<Rightarrow> (r, c\<lparr>chain_second := s\<rparr>))"

definition chain_read :: "'s reader \<Rightarrow> 't reader \<Rightarrow> ('s, 't) chain_reader reader" where
  "chain_read rd1 rd2 n c =
     (if done_first c then chain_second_read rd2 n c
      else case rd1 n (chain_first c) of
             (Inl e, s) \<Rightarrow> (Inl e, c\<lparr>chain_first := s\<rparr>)
           | (Inr bs, s) \<Rightarrow>
               (if bs = [] \<and> n \<noteq> 0
                then chain_second_read rd2 n (c\<lparr>chain_first := s, done_first := True\<rparr>)
                else (Inr bs, c\<lparr>chain_first := s\<rparr>)))"

subsection \<open>BufRead (io/impls.rs, io/cursor.rs, io/traits.rs)\<close>

text \<open>\<open>fill_buf\<close> may change the reader and fail; \<open>consume\<close> cannot fail.\<close>

type_synonym 's filler = "'s \<Rightarrow> (core_error + u8 list) \<times> 's"
type_synonym 's consumer = "nat \<Rightarrow> 's \<Rightarrow> 's"

definition slice_fill_buf :: "u8 list filler" where
  "slice_fill_buf s = (Inr s, s)"

definition take_fill_buf :: "'s filler \<Rightarrow> 's take_reader filler" where
  "take_fill_buf fb t =
     (if take_limit t = 0 then (Inr [], t)
      else case fb (take_inner t) of
             (Inl e, s) \<Rightarrow> (Inl e, t\<lparr>take_inner := s\<rparr>)
           | (Inr bs, s) \<Rightarrow>
               (Inr (take (min (length bs) (unat (take_limit t))) bs), t\<lparr>take_inner := s\<rparr>))"

definition take_consume :: "'s consumer \<Rightarrow> 's take_reader consumer" where
  "take_consume cons amt t =
     (let k = min amt (unat (take_limit t))
      in \<lparr>take_inner = cons k (take_inner t), take_limit = take_limit t - of_nat k\<rparr>)"

definition chain_second_fill :: "'t filler \<Rightarrow> ('s, 't) chain_reader filler" where
  "chain_second_fill fb2 c = (case fb2 (chain_second c) of (r, s) \<Rightarrow> (r, c\<lparr>chain_second := s\<rparr>))"

definition chain_fill_buf :: "'s filler \<Rightarrow> 't filler \<Rightarrow> ('s, 't) chain_reader filler" where
  "chain_fill_buf fb1 fb2 c =
     (if done_first c then chain_second_fill fb2 c
      else case fb1 (chain_first c) of
             (Inl e, s) \<Rightarrow> (Inl e, c\<lparr>chain_first := s\<rparr>)
           | (Inr bs, s) \<Rightarrow>
               (if bs = [] then chain_second_fill fb2 (c\<lparr>chain_first := s, done_first := True\<rparr>)
                else (Inr bs, c\<lparr>chain_first := s\<rparr>)))"

definition chain_consume :: "'s consumer \<Rightarrow> 't consumer \<Rightarrow> ('s, 't) chain_reader consumer" where
  "chain_consume cons1 cons2 amt c =
     (if \<not> done_first c then c\<lparr>chain_first := cons1 amt (chain_first c)\<rparr>
      else c\<lparr>chain_second := cons2 amt (chain_second c)\<rparr>)"

subsection \<open>Copying (io/util.rs)\<close>

text \<open>\<open>copy\<close> with a buffer of \<open>n\<close> bytes; \<open>written\<close> is a \<open>u64\<close>.\<close>

partial_function (option) copy_loop ::
    "'s reader \<Rightarrow> 't writer \<Rightarrow> nat \<Rightarrow> u64 \<Rightarrow> 's \<Rightarrow> 't \<Rightarrow> ((core_error + u64) \<times> 's \<times> 't) option" where
  "copy_loop rd wr n written s t =
     (case rd n s of
        (Inr bs, s') \<Rightarrow>
          (if bs = [] then Some (Inr written, s', t)
           else case write_all wr bs t of
                  None \<Rightarrow> None
                | Some (Inl e, t') \<Rightarrow> Some (Inl e, s', t')
                | Some (Inr _, t') \<Rightarrow> copy_loop rd wr n (written + of_nat (length bs)) s' t')
      | (Inl e, s') \<Rightarrow>
          (if error_kind_of e = EkInterrupted then copy_loop rd wr n written s' t
           else Some (Inl e, s', t)))"

definition copy :: "'s reader \<Rightarrow> 't writer \<Rightarrow> nat \<Rightarrow> 's \<Rightarrow> 't \<Rightarrow> ((core_error + u64) \<times> 's \<times> 't) option" where
  "copy rd wr n s t = copy_loop rd wr n 0 s t"

end
