(* ===== verification/Core2_Readers.thy ===== *)
theory Core2_Readers
  imports Core2_Io
begin

section \<open>Readers over a known content\<close>

lemma write_all_vec: "write_all vec_write data v = Some (Inr (), v @ data)"
  by (simp add: write_all.simps [of vec_write data] vec_write_def write_all.simps [of vec_write "[]"])

text \<open>
  The contract of a reader whose remaining bytes are known: a read returns a prefix of them, at
  most as long as the buffer, and nothing only for an empty buffer or at the end. Reads may be
  short. Slices and cursors satisfy it; \<open>Take\<close>, \<open>Chain\<close> and (in \<open>Core2_Buffered\<close>)
  \<open>BufReader\<close> turn readers that satisfy it into readers that satisfy it; and the default loops
  are proved once from it.
\<close>

locale byte_reader =
  fixes rd :: "'s reader"
    and content :: "'s \<Rightarrow> u8 list"
    and valid :: "'s \<Rightarrow> bool"
  assumes read_prefix: "valid s \<Longrightarrow> \<exists>bs s'. rd n s = (Inr bs, s') \<and> valid s' \<and> length bs \<le> n \<and>
    content s = bs @ content s' \<and> (bs = [] \<longrightarrow> n = 0 \<or> content s = [])"
begin

lemma readE:
  assumes "valid s"
  obtains bs s' where "rd n s = (Inr bs, s')" "valid s'" "length bs \<le> n"
    "content s = bs @ content s'" "bs = [] \<Longrightarrow> n \<noteq> 0 \<Longrightarrow> content s = []"
  using read_prefix [OF assms, of n] by blast

text \<open>Reading exactly \<open>n\<close> bytes ends, and fails only when there are not that many.\<close>

lemma read_exact_loop_result:
  "valid s \<Longrightarrow> \<exists>s'. valid s' \<and> read_exact_loop rd n acc s =
     (if n \<le> length (content s) then Some (Inr (), acc @ take n (content s), s')
      else Some (Inl (Custom EkUnexpectedEof ''failed to fill whole buffer''), acc @ content s, s')) \<and>
     content s' = drop n (content s)"
proof (induction n arbitrary: acc s rule: less_induct)
  case (less n)
  show ?case
  proof (cases "n = 0")
    case True
    with less.prems show ?thesis by (intro exI [of _ s]) (simp add: read_exact_loop.simps)
  next
    case False
    obtain bs s1 where rd: "rd n s = (Inr bs, s1)" and v: "valid s1" and len: "length bs \<le> n"
      and c: "content s = bs @ content s1" and e: "bs = [] \<Longrightarrow> n \<noteq> 0 \<Longrightarrow> content s = []"
      using readE [OF less.prems, of n] by blast
    show ?thesis
    proof (cases "bs = []")
      case True
      with e False c have "content s = []" "content s1 = []" by simp_all
      with True False rd v show ?thesis
        by (intro exI [of _ s1]) (simp add: read_exact_loop.simps)
    next
      case nonempty: False
      then have "n - length bs < n" using False by (cases bs) simp_all
      from less.IH [OF this v, of "acc @ bs"] obtain s' where s': "valid s'"
        "read_exact_loop rd (n - length bs) (acc @ bs) s1 =
          (if n - length bs \<le> length (content s1)
           then Some (Inr (), (acc @ bs) @ take (n - length bs) (content s1), s')
           else Some (Inl (Custom EkUnexpectedEof ''failed to fill whole buffer''),
             (acc @ bs) @ content s1, s'))"
        "content s' = drop (n - length bs) (content s1)" by blast
      have "read_exact_loop rd n acc s = read_exact_loop rd (n - length bs) (acc @ bs) s1"
        using rd nonempty False by (simp add: read_exact_loop.simps [of rd n])
      moreover have "n - length bs \<le> length (content s1) \<longleftrightarrow> n \<le> length (content s)"
        using c by auto
      ultimately show ?thesis
        using s' len by (intro exI [of _ s']) (simp add: c)
    qed
  qed
qed

text \<open>Reading to the end ends, with everything.\<close>

lemma read_to_end_loop_result:
  assumes grow: "grows grow" and reservation: "\<And>s. valid s \<Longrightarrow> content s \<noteq> [] \<Longrightarrow> 0 < reservation s"
  shows "valid s \<Longrightarrow> used \<le> avail \<Longrightarrow>
    \<exists>s'. read_to_end_loop rd reservation grow used avail acc s = Some (Inr (), acc @ content s, s') \<and>
      valid s' \<and> content s' = []"
proof (induction "length (content s)" arbitrary: s used avail acc rule: less_induct)
  case less
  define avail' where "avail' = (if used = avail then grow used (reservation s) else avail)"
  have room: "used \<le> avail'" "content s \<noteq> [] \<Longrightarrow> avail' - used \<noteq> 0"
  proof -
    have "used + reservation s \<le> grow used (reservation s)" using grow by (simp add: grows_def)
    then show "used \<le> avail'" "content s \<noteq> [] \<Longrightarrow> avail' - used \<noteq> 0"
      using reservation [OF less.prems(1)] less.prems(2) by (auto simp: avail'_def)
  qed
  obtain bs s1 where rd: "rd (avail' - used) s = (Inr bs, s1)" and v: "valid s1"
    and len: "length bs \<le> avail' - used" and c: "content s = bs @ content s1"
    and e: "bs = [] \<Longrightarrow> avail' - used \<noteq> 0 \<Longrightarrow> content s = []"
    using readE [OF less.prems(1), of "avail' - used"] by blast
  show ?case
  proof (cases "bs = []")
    case True
    with e room(2) have "content s = []" by blast
    with True rd c v show ?thesis
      by (intro exI [of _ s1]) (simp add: read_to_end_loop.simps [of rd reservation grow used avail]
          flip: avail'_def)
  next
    case False
    then have "length (content s1) < length (content s)" "used + length bs \<le> avail'"
      using c len room(1) by auto
    from less.hyps [OF this(1) v this(2), of "acc @ bs"] obtain s' where
      "read_to_end_loop rd reservation grow (used + length bs) avail' (acc @ bs) s1 =
        Some (Inr (), (acc @ bs) @ content s1, s')" "valid s'" "content s' = []" by blast
    with False rd c show ?thesis
      by (intro exI [of _ s']) (simp add: read_to_end_loop.simps [of rd reservation grow used avail]
          flip: avail'_def)
  qed
qed

lemma read_to_end_result:
  assumes "grows grow" "\<And>s. valid s \<Longrightarrow> content s \<noteq> [] \<Longrightarrow> 0 < reservation s" "valid s"
  shows "\<exists>s'. read_to_end rd reservation grow buf s =
    Some (Inr (length (content s)), buf @ content s, s') \<and> valid s' \<and> content s' = []"
proof -
  from read_to_end_loop_result [where reservation = reservation, OF assms, of "length buf" "length buf" buf]
  obtain s' where "read_to_end_loop rd reservation grow (length buf) (length buf) buf s =
      Some (Inr (), buf @ content s, s')" "valid s'" "content s' = []" by blast
  then show ?thesis by (simp add: read_to_end_def)
qed

text \<open>Copying into a vector, with room for at least a byte, moves everything.\<close>

lemma copy_loop_result:
  assumes "0 < n"
  shows "valid s \<Longrightarrow> \<exists>s'. copy_loop rd vec_write n written s v =
      Some (Inr (written + of_nat (length (content s))), s', v @ content s) \<and> valid s' \<and> content s' = []"
proof (induction "length (content s)" arbitrary: s written v rule: less_induct)
  case less
  obtain bs s1 where rd: "rd n s = (Inr bs, s1)" and v1: "valid s1"
    and c: "content s = bs @ content s1" and e: "bs = [] \<Longrightarrow> n \<noteq> 0 \<Longrightarrow> content s = []"
    using readE [OF less.prems, of n] by blast
  show ?case
  proof (cases "bs = []")
    case True
    with e assms rd c v1 show ?thesis by (simp add: copy_loop.simps [of rd])
  next
    case False
    with c have "length (content s1) < length (content s)" by simp
    from less.hyps [OF this v1, of "written + of_nat (length bs)" "v @ bs"] obtain s' where
      "copy_loop rd vec_write n (written + of_nat (length bs)) s1 (v @ bs) =
        Some (Inr (written + of_nat (length bs) + of_nat (length (content s1))), s', (v @ bs) @ content s1)"
      "valid s'" "content s' = []" by blast
    with False rd c show ?thesis
      by (intro exI [of _ s']) (simp add: copy_loop.simps [of rd] write_all_vec ac_simps)
  qed
qed

text \<open>The byte iterator yields the first byte, and ends at the end.\<close>

lemma bytes_next_result:
  assumes "valid s"
  shows "\<exists>s'. bytes_next rd s = Some (case content s of [] \<Rightarrow> None | b # _ \<Rightarrow> Some (Inr b), s') \<and>
    valid s' \<and> content s' = tl (content s)"
proof -
  obtain bs s1 where rd: "rd 1 s = (Inr bs, s1)" and v: "valid s1" and len: "length bs \<le> 1"
    and c: "content s = bs @ content s1" and e: "bs = [] \<Longrightarrow> content s = []"
    using readE [OF assms, of 1] by (metis zero_neq_one)
  show ?thesis
  proof (cases bs)
    case Nil
    with rd v c e show ?thesis by (simp add: bytes_next.simps)
  next
    case (Cons b bs')
    with len rd v c show ?thesis by (simp add: bytes_next.simps)
  qed
qed

end

subsection \<open>Slices and cursors\<close>

interpretation slice_reader: byte_reader slice_read "\<lambda>s. s" "\<lambda>s. True"
  by unfold_locales (auto simp: slice_read_def Let_def min_def split: if_splits)

text \<open>A cursor's position is a \<open>u64\<close>; its buffer is shorter than 2^64 bytes, as every slice is.\<close>

definition cursor_valid :: "cursor \<Rightarrow> bool" where
  "cursor_valid c \<longleftrightarrow> length (cursor_inner c) < 2 ^ 64"

lemma cursor_fill_buf_drop: "cursor_fill_buf c = drop (unat (cursor_pos c)) (cursor_inner c)"
  by (simp add: cursor_fill_buf_def min_def)

lemma unat_add_short:
  fixes a :: u64
  assumes "unat a + n < 2 ^ 64"
  shows "unat (a + of_nat n) = unat a + n"
  using assms by (simp add: unat_word_ariths unat_of_nat)

lemma cursor_read_prefix:
  assumes "cursor_valid c"
  shows "\<exists>bs c'. cursor_read n c = (Inr bs, c') \<and> cursor_valid c' \<and> length bs \<le> n \<and>
    cursor_fill_buf c = bs @ cursor_fill_buf c' \<and> (bs = [] \<longrightarrow> n = 0 \<or> cursor_fill_buf c = [])"
proof -
  let ?bs = "take (min n (length (cursor_fill_buf c))) (cursor_fill_buf c)"
  let ?c' = "c\<lparr>cursor_pos := cursor_pos c + of_nat (length ?bs)\<rparr>"
  have read: "cursor_read n c = (Inr ?bs, ?c')"
    by (simp add: cursor_read_def slice_read_def Let_def)
  have "cursor_fill_buf c = ?bs @ cursor_fill_buf ?c'"
  proof (cases "unat (cursor_pos c) < length (cursor_inner c)")
    case True
    then have "unat (cursor_pos c + of_nat (length ?bs)) = unat (cursor_pos c) + length ?bs"
      using assms by (intro unat_add_short) (simp add: cursor_valid_def cursor_fill_buf_drop)
    then have "cursor_fill_buf ?c' = drop (length ?bs) (cursor_fill_buf c)"
      by (simp add: cursor_fill_buf_drop add.commute)
    then show ?thesis by (simp add: min_def)
  next
    case False
    then have "cursor_fill_buf c = []" by (simp add: cursor_fill_buf_drop)
    then show ?thesis using False by (simp add: cursor_fill_buf_drop)
  qed
  moreover have "?bs = [] \<longrightarrow> n = 0 \<or> cursor_fill_buf c = []" by (auto simp: min_def)
  ultimately show ?thesis
    using read assms by (intro exI [of _ ?bs] exI [of _ ?c']) (simp add: cursor_valid_def)
qed

interpretation cursor_reader: byte_reader cursor_read cursor_fill_buf cursor_valid
  by unfold_locales (rule cursor_read_prefix)

subsection \<open>Take\<close>

definition take_content :: "('s \<Rightarrow> u8 list) \<Rightarrow> 's take_reader \<Rightarrow> u8 list" where
  "take_content content t = take (unat (take_limit t)) (content (take_inner t))"

locale limited_reader = inner: byte_reader rd content valid
  for rd :: "'s reader" and content :: "'s \<Rightarrow> u8 list" and valid :: "'s \<Rightarrow> bool"
begin

lemma take_read_prefix:
  assumes "valid (take_inner t)"
  shows "\<exists>bs t'. take_read rd n t = (Inr bs, t') \<and> valid (take_inner t') \<and> length bs \<le> n \<and>
    take_content content t = bs @ take_content content t' \<and>
    (bs = [] \<longrightarrow> n = 0 \<or> take_content content t = [])"
proof (cases "take_limit t = 0")
  case True
  with assms show ?thesis by (simp add: take_read_def take_content_def)
next
  case False
  then have limit: "0 < unat (take_limit t)" by (simp add: unat_gt_0)
  define m where "m = min n (unat (take_limit t))"
  obtain bs s' where rd: "rd m (take_inner t) = (Inr bs, s')" and v: "valid s'"
    and len: "length bs \<le> m" and c: "content (take_inner t) = bs @ content s'"
    and e: "bs = [] \<Longrightarrow> m \<noteq> 0 \<Longrightarrow> content (take_inner t) = []"
    using inner.readE [OF assms, of m] by blast
  have le: "length bs \<le> unat (take_limit t)" using len by (simp add: m_def)
  then have "of_nat (length bs) \<le> take_limit t"
    by (simp add: word_le_nat_alt unat_of_nat)
  moreover have "unat (take_limit t) < 2 ^ 64" using unsigned_less [of "take_limit t"] by simp
  ultimately have "unat (take_limit t - of_nat (length bs)) = unat (take_limit t) - length bs"
    using le by (simp add: unat_sub unat_of_nat)
  with rd v le c have "take_read rd n t =
      (Inr bs, \<lparr>take_inner = s', take_limit = take_limit t - of_nat (length bs)\<rparr>)"
    "take_content content t = bs @ take_content content
      \<lparr>take_inner = s', take_limit = take_limit t - of_nat (length bs)\<rparr>"
    using False by (simp_all add: take_read_def take_content_def flip: m_def)
  moreover have "bs = [] \<longrightarrow> n = 0 \<or> take_content content t = []"
    using e limit by (auto simp: m_def take_content_def)
  ultimately show ?thesis
    using v len by (intro exI [of _ bs] exI) (auto simp: m_def)
qed

end

sublocale limited_reader < limited: byte_reader
  "take_read rd" "take_content content" "\<lambda>t. valid (take_inner t)"
  by unfold_locales (rule take_read_prefix)

subsection \<open>Chain\<close>

definition chain_content ::
    "('s \<Rightarrow> u8 list) \<Rightarrow> ('t \<Rightarrow> u8 list) \<Rightarrow> ('s, 't) chain_reader \<Rightarrow> u8 list" where
  "chain_content content1 content2 c =
     (if done_first c then [] else content1 (chain_first c)) @ content2 (chain_second c)"

definition chain_valid ::
    "('s \<Rightarrow> bool) \<Rightarrow> ('t \<Rightarrow> bool) \<Rightarrow> ('s, 't) chain_reader \<Rightarrow> bool" where
  "chain_valid valid1 valid2 c \<longleftrightarrow> valid1 (chain_first c) \<and> valid2 (chain_second c)"

locale chained_readers =
  first: byte_reader rd1 content1 valid1 + second: byte_reader rd2 content2 valid2
  for rd1 :: "'s reader" and content1 :: "'s \<Rightarrow> u8 list" and valid1 :: "'s \<Rightarrow> bool"
    and rd2 :: "'t reader" and content2 :: "'t \<Rightarrow> u8 list" and valid2 :: "'t \<Rightarrow> bool"
begin

lemma second_read_prefix:
  assumes "valid1 (chain_first c)" "valid2 (chain_second c)"
  shows "\<exists>bs c'. chain_second_read rd2 n c = (Inr bs, c') \<and> chain_valid valid1 valid2 c' \<and>
    done_first c' = done_first c \<and> length bs \<le> n \<and>
    content2 (chain_second c) = bs @ content2 (chain_second c') \<and>
    (bs = [] \<longrightarrow> n = 0 \<or> content2 (chain_second c) = [])"
proof -
  obtain bs s' where "rd2 n (chain_second c) = (Inr bs, s')" "valid2 s'" "length bs \<le> n"
    "content2 (chain_second c) = bs @ content2 s'"
    "bs = [] \<Longrightarrow> n \<noteq> 0 \<Longrightarrow> content2 (chain_second c) = []"
    using second.readE [OF assms(2), of n] by blast
  with assms(1) show ?thesis by (auto simp: chain_second_read_def chain_valid_def)
qed

lemma chain_read_prefix:
  assumes valid: "chain_valid valid1 valid2 c"
  shows "\<exists>bs c'. chain_read rd1 rd2 n c = (Inr bs, c') \<and> chain_valid valid1 valid2 c' \<and>
    length bs \<le> n \<and> chain_content content1 content2 c = bs @ chain_content content1 content2 c' \<and>
    (bs = [] \<longrightarrow> n = 0 \<or> chain_content content1 content2 c = [])"
proof (cases "done_first c")
  case True
  with second_read_prefix [of c n] valid show ?thesis
    by (auto simp: chain_read_def chain_content_def chain_valid_def)
next
  case False
  from valid obtain bs s' where rd: "rd1 n (chain_first c) = (Inr bs, s')" "valid1 s'" "length bs \<le> n"
    "content1 (chain_first c) = bs @ content1 s'"
    "bs = [] \<Longrightarrow> n \<noteq> 0 \<Longrightarrow> content1 (chain_first c) = []"
    using first.readE [of "chain_first c" n] unfolding chain_valid_def by blast
  show ?thesis
  proof (cases "bs = [] \<and> n \<noteq> 0")
    case True
    let ?c = "c\<lparr>chain_first := s', done_first := True\<rparr>"
    from second_read_prefix [of ?c n] valid rd(2) True False rd(1,5) show ?thesis
      by (auto simp: chain_read_def chain_content_def chain_valid_def)
  next
    case short: False
    with rd valid False show ?thesis
      by (auto simp: chain_read_def chain_content_def chain_valid_def)
  qed
qed

end

sublocale chained_readers < chained: byte_reader
  "chain_read rd1 rd2" "chain_content content1 content2" "chain_valid valid1 valid2"
  by unfold_locales (rule chain_read_prefix)

interpretation limited_cursor: limited_reader cursor_read cursor_fill_buf cursor_valid
  by unfold_locales

interpretation cursor_then_slice: chained_readers
  cursor_read cursor_fill_buf cursor_valid slice_read "\<lambda>s. s" "\<lambda>s. True"
  by unfold_locales

end
