(* ===== verification/Core2_Buffered.thy ===== *)
theory Core2_Buffered
  imports Core2_Readers
begin

section \<open>Buffered readers and writers (src/patches/core2-0.4.0/src/io/buffered.rs)\<close>

subsection \<open>BufReader\<close>

text \<open>\<open>BufReader<R, S>\<close>; the length of the array \<open>br_buf\<close> is \<open>S\<close>.\<close>

record 's buf_reader =
  br_inner :: 's
  br_buf :: "u8 list"
  br_pos :: nat
  br_cap :: nat

definition buf_reader_new :: "nat \<Rightarrow> 's \<Rightarrow> 's buf_reader" where
  "buf_reader_new cap s = \<lparr>br_inner = s, br_buf = replicate cap 0, br_pos = 0, br_cap = 0\<rparr>"

definition buf_reader_buffer :: "'s buf_reader \<Rightarrow> u8 list" where
  "buf_reader_buffer b = drop (br_pos b) (take (br_cap b) (br_buf b))"

definition discard_buffer :: "'s buf_reader \<Rightarrow> 's buf_reader" where
  "discard_buffer b = b\<lparr>br_pos := 0, br_cap := 0\<rparr>"

definition buf_reader_fill_buf ::
    "'s reader \<Rightarrow> 's buf_reader \<Rightarrow> (core_error + u8 list) \<times> 's buf_reader" where
  "buf_reader_fill_buf rd b =
     (if br_pos b \<ge> br_cap b
      then case rd (length (br_buf b)) (br_inner b) of
             (Inl e, s) \<Rightarrow> (Inl e, b\<lparr>br_inner := s\<rparr>)
           | (Inr bs, s) \<Rightarrow>
               (let b' = b\<lparr>br_inner := s, br_buf := bs @ drop (length bs) (br_buf b),
                           br_cap := length bs, br_pos := 0\<rparr>
                in (Inr (buf_reader_buffer b'), b'))
      else (Inr (buf_reader_buffer b), b))"

definition buf_reader_consume :: "nat \<Rightarrow> 's buf_reader \<Rightarrow> 's buf_reader" where
  "buf_reader_consume amt b = b\<lparr>br_pos := min (br_pos b + amt) (br_cap b)\<rparr>"

definition buf_reader_read :: "'s reader \<Rightarrow> 's buf_reader reader" where
  "buf_reader_read rd n b =
     (if br_pos b = br_cap b \<and> n \<ge> length (br_buf b)
      then (let b1 = discard_buffer b
            in case rd n (br_inner b1) of (r, s) \<Rightarrow> (r, b1\<lparr>br_inner := s\<rparr>))
      else case buf_reader_fill_buf rd b of
             (Inl e, b1) \<Rightarrow> (Inl e, b1)
           | (Inr rem, b1) \<Rightarrow>
               (case fst (slice_read n rem) of
                  Inl e \<Rightarrow> (Inl e, b1)
                | Inr bs \<Rightarrow> (Inr bs, buf_reader_consume (length bs) b1)))"

text \<open>\<open>seek\<close>; \<open>i64::checked_sub\<close> on 64-bit words read with \<open>sint\<close>.\<close>

definition checked_sub_i64 :: "u64 \<Rightarrow> u64 \<Rightarrow> u64 option" where
  "checked_sub_i64 a b =
     (if - (2 ^ 63) \<le> sint a - sint b \<and> sint a - sint b < 2 ^ 63 then Some (a - b) else None)"

definition buf_reader_seek ::
    "(seek_from \<Rightarrow> 's \<Rightarrow> (core_error + u64) \<times> 's) \<Rightarrow> seek_from \<Rightarrow> 's buf_reader
      \<Rightarrow> (core_error + u64) \<times> 's buf_reader" where
  "buf_reader_seek sk pos b =
     (let finish = (\<lambda>b1 (r, s). case r of
            Inl e \<Rightarrow> (Inl e, b1\<lparr>br_inner := s\<rparr>)
          | Inr p \<Rightarrow> (Inr p, discard_buffer (b1\<lparr>br_inner := s\<rparr>)))
      in case pos of
           Current n \<Rightarrow>
             (let remainder = of_nat (br_cap b - br_pos b)
              in case checked_sub_i64 n remainder of
                   Some off \<Rightarrow> finish b (sk (Current off) (br_inner b))
                 | None \<Rightarrow>
                     (case sk (Current (- remainder)) (br_inner b) of
                        (Inl e, s) \<Rightarrow> (Inl e, b\<lparr>br_inner := s\<rparr>)
                      | (Inr _, s) \<Rightarrow>
                          (let b1 = discard_buffer (b\<lparr>br_inner := s\<rparr>)
                           in finish b1 (sk (Current n) (br_inner b1)))))
         | _ \<Rightarrow> finish b (sk pos (br_inner b)))"

definition buf_reader_content :: "('s \<Rightarrow> u8 list) \<Rightarrow> 's buf_reader \<Rightarrow> u8 list" where
  "buf_reader_content content b = buf_reader_buffer b @ content (br_inner b)"

definition buf_reader_valid :: "('s \<Rightarrow> bool) \<Rightarrow> 's buf_reader \<Rightarrow> bool" where
  "buf_reader_valid valid b \<longleftrightarrow>
     valid (br_inner b) \<and> br_pos b \<le> br_cap b \<and> br_cap b \<le> length (br_buf b) \<and> 0 < length (br_buf b)"

locale buffered_reader = inner: byte_reader rd content valid
  for rd :: "'s reader" and content :: "'s \<Rightarrow> u8 list" and valid :: "'s \<Rightarrow> bool"
begin

lemma fill_buf_result:
  assumes "buf_reader_valid valid b"
  obtains rem b1 where "buf_reader_fill_buf rd b = (Inr rem, b1)" "buf_reader_valid valid b1"
    "rem = buf_reader_buffer b1" "buf_reader_content content b1 = buf_reader_content content b"
    "rem = [] \<Longrightarrow> buf_reader_content content b = []"
proof (cases "br_pos b \<ge> br_cap b")
  case True
  from assms have v: "valid (br_inner b)" and room: "0 < length (br_buf b)"
    by (simp_all add: buf_reader_valid_def)
  obtain bs s' where rd: "rd (length (br_buf b)) (br_inner b) = (Inr bs, s')" and v': "valid s'"
    and len: "length bs \<le> length (br_buf b)" and c: "content (br_inner b) = bs @ content s'"
    and e: "bs = [] \<Longrightarrow> length (br_buf b) \<noteq> 0 \<Longrightarrow> content (br_inner b) = []"
    using inner.readE [OF v, of "length (br_buf b)"] by blast
  let ?b = "b\<lparr>br_inner := s', br_buf := bs @ drop (length bs) (br_buf b),
    br_cap := length bs, br_pos := 0\<rparr>"
  have buffer: "buf_reader_buffer ?b = bs" "buf_reader_buffer b = []"
    using True by (simp_all add: buf_reader_buffer_def)
  show thesis
  proof (rule that)
    show "buf_reader_fill_buf rd b = (Inr (buf_reader_buffer ?b), ?b)"
      using True rd by (simp add: buf_reader_fill_buf_def Let_def)
    show "buf_reader_valid valid ?b" using v' len room by (simp add: buf_reader_valid_def)
    show "buf_reader_content content ?b = buf_reader_content content b"
      using buffer c by (simp add: buf_reader_content_def)
    show "buf_reader_buffer ?b = [] \<Longrightarrow> buf_reader_content content b = []"
      using buffer e room by (simp add: buf_reader_content_def)
  qed simp
next
  case False
  show thesis
  proof (rule that)
    show "buf_reader_fill_buf rd b = (Inr (buf_reader_buffer b), b)"
      using False by (simp add: buf_reader_fill_buf_def)
    show "buf_reader_buffer b = [] \<Longrightarrow> buf_reader_content content b = []"
      using False assms by (simp add: buf_reader_buffer_def buf_reader_valid_def)
  qed (use assms in simp_all)
qed

lemma consume_buffer:
  assumes "buf_reader_valid valid b" "k \<le> length (buf_reader_buffer b)"
  shows "buf_reader_valid valid (buf_reader_consume k b)"
    "buf_reader_content content (buf_reader_consume k b) = drop k (buf_reader_content content b)"
proof -
  have "min (br_pos b + k) (br_cap b) = br_pos b + k"
    using assms by (auto simp: buf_reader_buffer_def buf_reader_valid_def)
  then have "buf_reader_buffer (buf_reader_consume k b) = drop k (buf_reader_buffer b)"
    by (simp add: buf_reader_buffer_def buf_reader_consume_def add.commute)
  then show "buf_reader_content content (buf_reader_consume k b) = drop k (buf_reader_content content b)"
    using assms(2) by (simp add: buf_reader_content_def) (simp add: buf_reader_consume_def)
  show "buf_reader_valid valid (buf_reader_consume k b)"
    using assms(1) by (simp add: buf_reader_valid_def buf_reader_consume_def)
qed

lemma buf_read_prefix:
  assumes b: "buf_reader_valid valid b"
  shows "\<exists>bs b'. buf_reader_read rd n b = (Inr bs, b') \<and> buf_reader_valid valid b' \<and> length bs \<le> n \<and>
    buf_reader_content content b = bs @ buf_reader_content content b' \<and>
    (bs = [] \<longrightarrow> n = 0 \<or> buf_reader_content content b = [])"
proof (cases "br_pos b = br_cap b \<and> n \<ge> length (br_buf b)")
  case True
  from b have v: "valid (br_inner b)" by (simp add: buf_reader_valid_def)
  obtain bs s' where "rd n (br_inner b) = (Inr bs, s')" "valid s'" "length bs \<le> n"
    "content (br_inner b) = bs @ content s'"
    "bs = [] \<Longrightarrow> n \<noteq> 0 \<Longrightarrow> content (br_inner b) = []"
    using inner.readE [OF v, of n] by blast
  with True b show ?thesis
    by (auto simp: buf_reader_read_def discard_buffer_def buf_reader_valid_def
        buf_reader_content_def buf_reader_buffer_def Let_def)
next
  case False
  obtain rem b1 where fill: "buf_reader_fill_buf rd b = (Inr rem, b1)" and b1: "buf_reader_valid valid b1"
    and rem: "rem = buf_reader_buffer b1"
    and c: "buf_reader_content content b1 = buf_reader_content content b"
    and e: "rem = [] \<Longrightarrow> buf_reader_content content b = []"
    using fill_buf_result [OF b] by blast
  let ?bs = "take (min n (length rem)) rem"
  have read: "buf_reader_read rd n b = (Inr ?bs, buf_reader_consume (length ?bs) b1)"
    using False fill by (auto simp: buf_reader_read_def slice_read_def Let_def)
  have k: "length ?bs \<le> length (buf_reader_buffer b1)" by (simp add: rem)
  have "?bs = take (length ?bs) (buf_reader_content content b1)"
    by (simp add: buf_reader_content_def rem min_def)
  then have "buf_reader_content content b =
      ?bs @ buf_reader_content content (buf_reader_consume (length ?bs) b1)"
    unfolding consume_buffer(2) [OF b1 k] c [symmetric] by (metis append_take_drop_id)
  moreover have "?bs = [] \<longrightarrow> n = 0 \<or> buf_reader_content content b = []"
    using e by (auto simp: min_def split: if_splits)
  ultimately show ?thesis
    using read consume_buffer(1) [OF b1 k]
    by (intro exI [of _ ?bs] exI [of _ "buf_reader_consume (length ?bs) b1"]) simp
qed

end

sublocale buffered_reader < buffered: byte_reader
  "buf_reader_read rd" "buf_reader_content content" "buf_reader_valid valid"
  by unfold_locales (rule buf_read_prefix)

interpretation buffered_cursor: buffered_reader cursor_read cursor_fill_buf cursor_valid
  by unfold_locales

subsection \<open>BufWriter\<close>

text \<open>
  \<open>BufWriter<W, S>\<close>. A panic is a result of its own: \<open>copy_from_slice\<close> panics unless both
  slices have the same length. \<open>flush_buf\<close> writes the whole array, and the guard that it drops
  at the end copies what is left of the array over a new one.
\<close>

record 's buf_writer =
  bw_inner :: 's
  bw_buf :: "u8 list"
  bw_len :: nat
  bw_panicked :: bool

datatype 'a outcome = Panic | Returned 'a

definition buf_writer_new :: "nat \<Rightarrow> 's \<Rightarrow> 's buf_writer" where
  "buf_writer_new cap s =
     \<lparr>bw_inner = s, bw_buf = replicate cap 0, bw_len = 0, bw_panicked = False\<rparr>"

definition copy_from_slice :: "u8 list \<Rightarrow> u8 list \<Rightarrow> u8 list outcome" where
  "copy_from_slice dst src = (if length dst = length src then Returned src else Panic)"

text \<open>The \<open>?\<close> operator: an error is returned, a panic or a loop that never ends is not left.\<close>

fun and_then ::
    "((core_error + 'a) \<times> 'b) outcome option \<Rightarrow> ('a \<Rightarrow> 'b \<Rightarrow> ((core_error + 'c) \<times> 'b) outcome option)
      \<Rightarrow> ((core_error + 'c) \<times> 'b) outcome option" where
  "and_then None k = None"
| "and_then (Some Panic) k = Some Panic"
| "and_then (Some (Returned (Inl e, b))) k = Some (Returned (Inl e, b))"
| "and_then (Some (Returned (Inr x, b))) k = k x b"

text \<open>The loop: the result, how much of the array was written, and the inner writer.\<close>

partial_function (option) flush_loop ::
    "'s writer \<Rightarrow> u8 list \<Rightarrow> nat \<Rightarrow> 's \<Rightarrow> ((core_error + unit) \<times> nat \<times> 's) option" where
  "flush_loop wr buffer written s =
     (if written \<ge> length buffer then Some (Inr (), written, s)
      else case wr (drop written buffer) s of
        (Inr n, s') \<Rightarrow>
          (if n = 0
           then Some (Inl (Custom EkWriteZero ''failed to write the buffered data''), written, s')
           else flush_loop wr buffer (written + n) s')
      | (Inl e, s') \<Rightarrow>
          (if error_kind_of e = EkInterrupted then flush_loop wr buffer written s'
           else Some (Inl e, written, s')))"

definition flush_buf ::
    "'s writer \<Rightarrow> 's buf_writer \<Rightarrow> ((core_error + unit) \<times> 's buf_writer) outcome option" where
  "flush_buf wr b =
     (case flush_loop wr (bw_buf b) 0 (bw_inner b) of
        None \<Rightarrow> None
      | Some (r, written, s) \<Rightarrow>
          (let b1 = b\<lparr>bw_inner := s, bw_panicked := False\<rparr>
           in if written > 0
              then (case copy_from_slice (replicate (length (bw_buf b)) 0) (drop written (bw_buf b)) of
                      Panic \<Rightarrow> Some Panic
                    | Returned new_buf \<Rightarrow> Some (Returned (r, b1\<lparr>bw_buf := new_buf\<rparr>)))
              else Some (Returned (r, b1))))"

text \<open>The part of \<open>write\<close> after the flush.\<close>

definition buf_writer_put ::
    "'s writer \<Rightarrow> u8 list \<Rightarrow> 's buf_writer \<Rightarrow> ((core_error + nat) \<times> 's buf_writer) outcome" where
  "buf_writer_put wr data b =
     (if length data \<ge> length (bw_buf b)
      then (case wr data (bw_inner b) of
              (r, s) \<Rightarrow> Returned (r, b\<lparr>bw_inner := s, bw_panicked := False\<rparr>))
      else (case copy_from_slice (bw_buf b) data of
              Panic \<Rightarrow> Panic
            | Returned buf \<Rightarrow> Returned (Inr (length data), b\<lparr>bw_buf := buf\<rparr>)))"

definition buf_writer_write ::
    "'s writer \<Rightarrow> u8 list \<Rightarrow> 's buf_writer \<Rightarrow> ((core_error + nat) \<times> 's buf_writer) outcome option" where
  "buf_writer_write wr data b =
     (if bw_len b + length data > length (bw_buf b)
      then and_then (flush_buf wr b) (\<lambda>_ b1. Some (buf_writer_put wr data b1))
      else Some (buf_writer_put wr data b))"

text \<open>\<open>write_all\<close>, \<open>flush\<close> and \<open>into_inner\<close>; \<open>flush_inner\<close> is the inner writer's \<open>flush\<close>.\<close>

definition buf_writer_put_all ::
    "'s writer \<Rightarrow> u8 list \<Rightarrow> 's buf_writer \<Rightarrow> ((core_error + unit) \<times> 's buf_writer) outcome option" where
  "buf_writer_put_all wr data b =
     (if length data \<ge> length (bw_buf b)
      then (case write_all wr data (bw_inner b) of
              None \<Rightarrow> None
            | Some (r, s) \<Rightarrow> Some (Returned (r, b\<lparr>bw_inner := s, bw_panicked := False\<rparr>)))
      else (case copy_from_slice (bw_buf b) data of
              Panic \<Rightarrow> Some Panic
            | Returned buf \<Rightarrow> Some (Returned (Inr (), b\<lparr>bw_buf := buf\<rparr>))))"

definition buf_writer_write_all ::
    "'s writer \<Rightarrow> u8 list \<Rightarrow> 's buf_writer \<Rightarrow> ((core_error + unit) \<times> 's buf_writer) outcome option" where
  "buf_writer_write_all wr data b =
     (if bw_len b + length data > length (bw_buf b)
      then and_then (flush_buf wr b) (\<lambda>_ b1. buf_writer_put_all wr data b1)
      else buf_writer_put_all wr data b)"

definition buf_writer_flush ::
    "'s writer \<Rightarrow> ('s \<Rightarrow> (core_error + unit) \<times> 's) \<Rightarrow> 's buf_writer
      \<Rightarrow> ((core_error + unit) \<times> 's buf_writer) outcome option" where
  "buf_writer_flush wr flush_inner b =
     and_then (flush_buf wr b) (\<lambda>_ b1.
       case flush_inner (bw_inner b1) of (r, s) \<Rightarrow> Some (Returned (r, b1\<lparr>bw_inner := s\<rparr>)))"

definition buf_writer_into_inner ::
    "'s writer \<Rightarrow> 's buf_writer \<Rightarrow> (core_error \<times> 's buf_writer + 's) outcome option" where
  "buf_writer_into_inner wr b =
     (case flush_buf wr b of
        None \<Rightarrow> None
      | Some Panic \<Rightarrow> Some Panic
      | Some (Returned (Inl e, b1)) \<Rightarrow> Some (Returned (Inl (e, b1)))
      | Some (Returned (Inr _, b1)) \<Rightarrow> Some (Returned (Inr (bw_inner b1))))"

definition buf_writer_seek ::
    "'s writer \<Rightarrow> (seek_from \<Rightarrow> 's \<Rightarrow> (core_error + u64) \<times> 's) \<Rightarrow> seek_from \<Rightarrow> 's buf_writer
      \<Rightarrow> ((core_error + u64) \<times> 's buf_writer) outcome option" where
  "buf_writer_seek wr sk pos b =
     and_then (flush_buf wr b) (\<lambda>_ b1.
       case sk pos (bw_inner b1) of (r, s) \<Rightarrow> Some (Returned (r, b1\<lparr>bw_inner := s\<rparr>)))"

text \<open>\<open>write_to_buf\<close>: the amount copied; the destination is what follows \<open>available\<close>.\<close>

definition write_to_buf :: "u8 list \<Rightarrow> 's buf_writer \<Rightarrow> ((core_error + nat) \<times> 's buf_writer) outcome" where
  "write_to_buf data b =
     (let available = length (bw_buf b) - bw_len b; amt = min available (length data)
      in case copy_from_slice (drop available (bw_buf b)) (take amt data) of
           Panic \<Rightarrow> Panic
         | Returned copied \<Rightarrow>
             Returned (Inr amt, b\<lparr>bw_buf := take available (bw_buf b) @ copied, bw_len := bw_len b + amt\<rparr>))"

subsection \<open>LineWriter\<close>

text \<open>
  \<open>LineWriterShim\<close> borrows the \<open>BufWriter\<close>; \<open>memrchr b xs\<close> (the \<open>memchr\<close> crate) is where
  \<open>b\<close> occurs last in \<open>xs\<close>. \<open>buffered()\<close> is the whole array.
\<close>

definition line_feed :: u8 where "line_feed = 10"

definition flush_if_completed_line ::
    "'s writer \<Rightarrow> 's buf_writer \<Rightarrow> ((core_error + unit) \<times> 's buf_writer) outcome option" where
  "flush_if_completed_line wr b =
     (if bw_buf b \<noteq> [] \<and> last (bw_buf b) = line_feed then flush_buf wr b
      else Some (Returned (Inr (), b)))"

definition line_tail :: "(u8 \<Rightarrow> u8 list \<Rightarrow> nat option) \<Rightarrow> nat \<Rightarrow> nat \<Rightarrow> nat \<Rightarrow> u8 list \<Rightarrow> u8 list" where
  "line_tail memrchr capacity newline_idx flushed data =
     (if flushed \<ge> newline_idx then drop flushed data
      else if newline_idx - flushed \<le> capacity then take (newline_idx - flushed) (drop flushed data)
      else (let scan_area = take capacity (drop flushed data)
            in case memrchr line_feed scan_area of
                 Some i \<Rightarrow> take (i + 1) scan_area
               | None \<Rightarrow> scan_area))"

definition line_writer_write ::
    "(u8 \<Rightarrow> u8 list \<Rightarrow> nat option) \<Rightarrow> 's writer \<Rightarrow> u8 list \<Rightarrow> 's buf_writer
      \<Rightarrow> ((core_error + nat) \<times> 's buf_writer) outcome option" where
  "line_writer_write memrchr wr data b =
     (case memrchr line_feed data of
        None \<Rightarrow> and_then (flush_if_completed_line wr b) (\<lambda>_ b1. buf_writer_write wr data b1)
      | Some i \<Rightarrow>
          and_then (flush_buf wr b) (\<lambda>_ b1.
            case wr (take (i + 1) data) (bw_inner b1) of
              (Inl e, s) \<Rightarrow> Some (Returned (Inl e, b1\<lparr>bw_inner := s\<rparr>))
            | (Inr flushed, s) \<Rightarrow>
                (let b2 = b1\<lparr>bw_inner := s\<rparr>
                 in if flushed = 0 then Some (Returned (Inr 0, b2))
                    else if flushed > length data then Some Panic
                    else and_then
                      (Some (write_to_buf (line_tail memrchr (length (bw_buf b2)) (i + 1) flushed data) b2))
                      (\<lambda>buffered b3. Some (Returned (Inr (flushed + buffered), b3))))))"

definition line_writer_write_all ::
    "(u8 \<Rightarrow> u8 list \<Rightarrow> nat option) \<Rightarrow> 's writer \<Rightarrow> u8 list \<Rightarrow> 's buf_writer
      \<Rightarrow> ((core_error + unit) \<times> 's buf_writer) outcome option" where
  "line_writer_write_all memrchr wr data b =
     (case memrchr line_feed data of
        None \<Rightarrow> and_then (flush_if_completed_line wr b) (\<lambda>_ b1. buf_writer_write_all wr data b1)
      | Some i \<Rightarrow>
          and_then
            (if bw_buf b = []
             then (case write_all wr (take (i + 1) data) (bw_inner b) of
                     None \<Rightarrow> None
                   | Some (r, s) \<Rightarrow> Some (Returned (r, b\<lparr>bw_inner := s\<rparr>)))
             else and_then (buf_writer_write_all wr (take (i + 1) data) b) (\<lambda>_ b1. flush_buf wr b1))
            (\<lambda>_ b2. buf_writer_write_all wr (drop (i + 1) data) b2))"

subsection \<open>What the writer's copies do\<close>

text \<open>The loop only moves forward, and ends well only past the end of the array.\<close>

lemma flush_loop_written:
  assumes "flush_loop wr buffer written s = Some (r, w, s')"
  shows "written \<le> w \<and> (r = Inr () \<longrightarrow> length buffer \<le> w)"
proof -
  let ?P = "\<lambda>wr buffer written s y. case y of (r, w, s') \<Rightarrow> written \<le> w \<and> (r = Inr () \<longrightarrow> length buffer \<le> w)"
  have "?P wr buffer written s (r, w, s')"
  proof (rule flush_loop.raw_induct [where P = ?P, OF _ assms])
    fix loop and wr :: "'a writer" and buffer written s y
    assume IH: "\<And>buffer written s b y. loop buffer written s b = Some y \<Longrightarrow> ?P buffer written s b y"
      and y: "(if length buffer \<le> written then Some (Inr (), written, s)
        else case wr (drop written buffer) s of
          (Inl e, s') \<Rightarrow>
            if error_kind_of e = EkInterrupted then loop wr buffer written s'
            else Some (Inl e, written, s')
        | (Inr n, s') \<Rightarrow>
            if n = 0
            then Some (Inl (Custom EkWriteZero ''failed to write the buffered data''), written, s')
            else loop wr buffer (written + n) s') = Some y"
    obtain r1 s1 where step: "wr (drop written buffer) s = (r1, s1)"
      by (cases "wr (drop written buffer) s") auto
    show "?P wr buffer written s y"
    proof (cases r1)
      case (Inl e)
      with step y IH [of wr buffer written s1 y] show ?thesis by (auto split: if_splits)
    next
      case (Inr n)
      with step y IH [of wr buffer "written + n" s1 y] show ?thesis by (auto split: if_splits)
    qed
  qed
  then show ?thesis by simp
qed

lemma copy_shorter: "length dst \<noteq> length src \<Longrightarrow> copy_from_slice dst src = Panic"
  by (simp add: copy_from_slice_def)

text \<open>A flush of a writer with room for a byte never returns Ok: it fails before any byte is
  written, panics, or does not return.\<close>

lemma flush_buf_outcome:
  assumes "0 < length (bw_buf b)"
  shows "flush_buf wr b = None \<or> flush_buf wr b = Some Panic \<or>
    (\<exists>e b1. flush_buf wr b = Some (Returned (Inl e, b1)) \<and> bw_buf b1 = bw_buf b)"
proof (cases "flush_loop wr (bw_buf b) 0 (bw_inner b)")
  case None
  then show ?thesis by (simp add: flush_buf_def)
next
  case (Some p)
  obtain r w s where p: "p = (r, w, s)" by (cases p) auto
  with Some flush_loop_written [of wr "bw_buf b" 0 "bw_inner b" r w s]
  have w: "r = Inr () \<longrightarrow> length (bw_buf b) \<le> w" by simp
  show ?thesis
  proof (cases "0 < w")
    case True
    with assms have "length (replicate (length (bw_buf b)) (0::u8)) \<noteq> length (drop w (bw_buf b))"
      by (cases "bw_buf b") auto
    with True Some p show ?thesis by (simp add: flush_buf_def copy_shorter Let_def)
  next
    case False
    with w assms obtain e where "r = Inl e" by (cases r) auto
    with False Some p show ?thesis by (simp add: flush_buf_def Let_def)
  qed
qed

lemma flush_loop_vec:
  assumes "0 < length buffer"
  shows "flush_loop vec_write buffer 0 v = Some (Inr (), length buffer, v @ buffer)"
  using assms by (simp add: flush_loop.simps vec_write_def)

lemma flush_buf_vec:
  "0 < length (bw_buf b) \<Longrightarrow> flush_buf vec_write b = Some Panic"
  by (simp add: flush_buf_def flush_loop_vec copy_shorter Let_def)

lemma write_short:
  "length data < length (bw_buf b) \<Longrightarrow> buf_writer_put wr data b = Panic"
  by (simp add: buf_writer_put_def copy_shorter)

lemma write_all_short:
  "length data < length (bw_buf b) \<Longrightarrow> buf_writer_put_all wr data b = Some Panic"
  by (simp add: buf_writer_put_all_def copy_shorter)

text \<open>A sequence succeeds only when its first part does.\<close>

lemma and_then_ok:
  assumes "and_then m k = Some (Returned (Inr y, b'))"
  obtains x b where "m = Some (Returned (Inr x, b))" "k x b = Some (Returned (Inr y, b'))"
  using assms by (cases "(m, k)" rule: and_then.cases) auto

lemma flush_never_ok:
  "0 < length (bw_buf b) \<Longrightarrow> flush_buf wr b \<noteq> Some (Returned (Inr u, b1))"
  using flush_buf_outcome [of b wr] by auto

lemma write_never_ok:
  assumes "length data < length (bw_buf b)"
  shows "buf_writer_write wr data b \<noteq> Some (Returned (Inr n, b1))"
    "buf_writer_write_all wr data b \<noteq> Some (Returned (Inr u, b1))"
proof -
  have "0 < length (bw_buf b)" using assms by linarith
  then show "buf_writer_write wr data b \<noteq> Some (Returned (Inr n, b1))"
    "buf_writer_write_all wr data b \<noteq> Some (Returned (Inr u, b1))"
    using write_short [OF assms, of wr] write_all_short [OF assms, of wr]
    by (auto simp: buf_writer_write_def buf_writer_write_all_def flush_never_ok
        split: if_splits elim!: and_then_ok)
qed

lemma flush_if_completed_line_ok:
  "flush_if_completed_line wr b = Some (Returned (Inr u, b1)) \<Longrightarrow> b1 = b"
  by (auto simp: flush_if_completed_line_def flush_never_ok split: if_splits)

lemma line_write_never_ok:
  assumes "length data < length (bw_buf b)"
  shows "line_writer_write memrchr wr data b \<noteq> Some (Returned (Inr n, b1))"
    "line_writer_write_all memrchr wr data b \<noteq> Some (Returned (Inr u, b1))"
proof -
  have room: "0 < length (bw_buf b)" using assms by linarith
  then have nonempty: "bw_buf b \<noteq> []" by auto
  show "line_writer_write memrchr wr data b \<noteq> Some (Returned (Inr n, b1))"
    using write_never_ok(1) [OF assms, of wr] room
    by (auto simp: line_writer_write_def flush_never_ok split: option.splits
        elim!: and_then_ok dest!: flush_if_completed_line_ok)
  have "length (take k data) < length (bw_buf b)" for k using assms by simp
  from write_never_ok(2) [OF this, of wr] show
    "line_writer_write_all memrchr wr data b \<noteq> Some (Returned (Inr u, b1))"
    using write_never_ok(2) [OF assms, of wr] nonempty
    by (auto simp: line_writer_write_all_def split: option.splits
        elim!: and_then_ok dest!: flush_if_completed_line_ok)
qed

end
