(* ===== verification/Core2_Buf_Read.thy ===== *)
theory Core2_Buf_Read
  imports Core2_Buffered
begin

section \<open>The contract of BufRead\<close>

text \<open>
  \<open>fill_buf\<close> shows a prefix of what remains, nothing only at the end, and takes nothing;
  \<open>consume\<close> of at most what was shown drops it. Slices, cursors and \<open>BufReader\<close> satisfy the
  contract, and \<open>Take\<close> and \<open>Chain\<close> keep it.
\<close>

locale buf_source =
  fixes fb :: "'s filler" and cons :: "'s consumer"
    and content :: "'s \<Rightarrow> u8 list" and valid :: "'s \<Rightarrow> bool"
  assumes fill: "valid s \<Longrightarrow> \<exists>bs s'. fb s = (Inr bs, s') \<and> valid s' \<and> content s' = content s \<and>
      take (length bs) (content s) = bs \<and> (bs = [] \<longrightarrow> content s = [])"
    and consume_shown: "valid s \<Longrightarrow> fb s = (Inr bs, s') \<Longrightarrow> k \<le> length bs \<Longrightarrow>
      valid (cons k s') \<and> content (cons k s') = drop k (content s)"
    and consume_nothing: "valid s \<Longrightarrow> valid (cons 0 s) \<and> content (cons 0 s) = content s"
begin

lemma fillE:
  assumes "valid s"
  obtains bs s' where "fb s = (Inr bs, s')" "valid s'" "content s' = content s"
    "take (length bs) (content s) = bs" "bs = [] \<Longrightarrow> content s = []"
  using fill [OF assms] by blast

text \<open>Taking what is shown makes progress, so draining a reader this way ends.\<close>

lemma consume_progress:
  assumes "valid s" "fb s = (Inr bs, s')" "content s \<noteq> []"
  shows "length (content (cons (length bs) s')) < length (content s)"
proof -
  obtain "bs \<noteq> []" using fillE [OF assms(1)] assms(2,3) by (metis Pair_inject sum.inject(2))
  with consume_shown [OF assms(1,2) order_refl] assms(3) show ?thesis by simp
qed

end

interpretation slice_source: buf_source slice_fill_buf "\<lambda>k s. the (slice_consume k s)" "\<lambda>s. s" "\<lambda>s. True"
  by unfold_locales (auto simp: slice_fill_buf_def slice_consume_def)

lemma cursor_consume_content:
  assumes "cursor_valid c" "k \<le> length (cursor_fill_buf c)"
  shows "cursor_fill_buf (cursor_consume k c) = drop k (cursor_fill_buf c)"
proof (cases "k = 0")
  case False
  with assms(2) have "unat (cursor_pos c) + k \<le> length (cursor_inner c)"
    by (simp add: cursor_fill_buf_drop)
  with assms(1) have "unat (cursor_pos c + of_nat k) = unat (cursor_pos c) + k"
    by (intro unat_add_short) (simp add: cursor_valid_def)
  then show ?thesis by (simp add: cursor_fill_buf_drop cursor_consume_def add.commute)
qed (simp add: cursor_consume_def)

interpretation cursor_source: buf_source "\<lambda>c. (Inr (cursor_fill_buf c), c)" cursor_consume
  cursor_fill_buf cursor_valid
  by unfold_locales (auto simp: cursor_consume_content, simp_all add: cursor_consume_def cursor_valid_def)

subsection \<open>Take keeps the contract\<close>

locale limited_source = inner: buf_source fb cons content valid
  for fb :: "'s filler" and cons :: "'s consumer" and content :: "'s \<Rightarrow> u8 list" and valid :: "'s \<Rightarrow> bool"
begin

lemma take_fill:
  assumes "valid (take_inner t)"
  shows "\<exists>bs t'. take_fill_buf fb t = (Inr bs, t') \<and> valid (take_inner t') \<and>
    take_content content t' = take_content content t \<and>
    take (length bs) (take_content content t) = bs \<and> (bs = [] \<longrightarrow> take_content content t = [])"
proof (cases "take_limit t = 0")
  case True
  with assms show ?thesis by (simp add: take_fill_buf_def take_content_def)
next
  case False
  then have limit: "0 < unat (take_limit t)" by (simp add: unat_gt_0)
  from inner.fillE [OF assms] obtain bs s' where f: "fb (take_inner t) = (Inr bs, s')" "valid s'"
    "content s' = content (take_inner t)" and bs: "take (length bs) (content (take_inner t)) = bs"
    "bs = [] \<Longrightarrow> content (take_inner t) = []" by blast
  let ?shown = "take (min (length bs) (unat (take_limit t))) bs"
  have "take (length ?shown) (take_content content t) =
      take (min (length bs) (unat (take_limit t))) (take (length bs) (content (take_inner t)))"
    by (simp add: take_content_def min.commute)
  then have "take (length ?shown) (take_content content t) = ?shown" unfolding bs(1) .
  moreover have "?shown = [] \<longrightarrow> take_content content t = []"
    using bs(2) limit by (auto simp: take_content_def min_def split: if_splits)
  moreover have "take_fill_buf fb t = (Inr ?shown, t\<lparr>take_inner := s'\<rparr>)"
    using False f(1) by (simp add: take_fill_buf_def)
  ultimately show ?thesis using f(2,3) by (simp add: take_content_def)
qed

lemma take_consume_limit:
  "k \<le> unat (take_limit t) \<Longrightarrow>
    take_consume cons k t = \<lparr>take_inner = cons k (take_inner t), take_limit = take_limit t - of_nat k\<rparr> \<and>
    unat (take_limit t - of_nat k) = unat (take_limit t) - k"
proof -
  assume k: "k \<le> unat (take_limit t)"
  moreover have "unat (take_limit t) < 2 ^ 64" using unsigned_less [of "take_limit t"] by simp
  ultimately have "unat (of_nat k :: u64) = k" by (simp add: unat_of_nat)
  moreover from this k have "(of_nat k :: u64) \<le> take_limit t" by (simp add: word_le_nat_alt)
  ultimately show ?thesis using k by (simp add: take_consume_def unat_sub min_def)
qed

lemma take_consume_shown:
  assumes "valid (take_inner t)" "take_fill_buf fb t = (Inr bs, t')" "k \<le> length bs"
  shows "valid (take_inner (take_consume cons k t')) \<and>
    take_content content (take_consume cons k t') = drop k (take_content content t)"
proof (cases "take_limit t = 0")
  case True
  with assms have "k = 0" "t' = t" by (auto simp: take_fill_buf_def)
  with True inner.consume_nothing [OF assms(1)] show ?thesis
    by (simp add: take_consume_def take_content_def)
next
  case False
  obtain bs0 s' where f: "fb (take_inner t) = (Inr bs0, s')"
    using inner.fillE [OF assms(1)] by blast
  with assms(2) False have t': "t' = t\<lparr>take_inner := s'\<rparr>"
    and bs: "bs = take (min (length bs0) (unat (take_limit t))) bs0"
    by (auto simp: take_fill_buf_def)
  from bs assms(3) have k: "k \<le> length bs0" "k \<le> unat (take_limit t')" by (auto simp: t')
  from inner.consume_shown [OF assms(1) f k(1)] take_consume_limit [OF k(2)] show ?thesis
    by (simp add: take_content_def t' drop_take)
qed

end

sublocale limited_source < limited: buf_source
  "take_fill_buf fb" "take_consume cons" "take_content content" "\<lambda>t. valid (take_inner t)"
proof (unfold_locales, goal_cases)
  case (1 t) then show ?case by (rule take_fill)
next
  case (2 t bs t' k) then show ?case by (rule take_consume_shown)
next
  case (3 t)
  then show ?case using inner.consume_nothing by (simp add: take_consume_def take_content_def)
qed

subsection \<open>Chain keeps the contract\<close>

locale chained_sources =
  first: buf_source fb1 cons1 content1 valid1 + second: buf_source fb2 cons2 content2 valid2
  for fb1 :: "'s filler" and cons1 :: "'s consumer" and content1 :: "'s \<Rightarrow> u8 list" and valid1 :: "'s \<Rightarrow> bool"
    and fb2 :: "'t filler" and cons2 :: "'t consumer" and content2 :: "'t \<Rightarrow> u8 list" and valid2 :: "'t \<Rightarrow> bool"
begin

lemma second_fill:
  assumes "chain_valid valid1 valid2 c" "done_first c"
  shows "\<exists>bs c'. chain_second_fill fb2 c = (Inr bs, c') \<and> chain_valid valid1 valid2 c' \<and> done_first c' \<and>
    chain_content content1 content2 c' = chain_content content1 content2 c \<and>
    take (length bs) (chain_content content1 content2 c) = bs \<and>
    (bs = [] \<longrightarrow> chain_content content1 content2 c = [])"
proof -
  from assms(1) have "valid2 (chain_second c)" by (simp add: chain_valid_def)
  from second.fillE [OF this] obtain bs s' where "fb2 (chain_second c) = (Inr bs, s')" "valid2 s'"
    "content2 s' = content2 (chain_second c)" "take (length bs) (content2 (chain_second c)) = bs"
    "bs = [] \<Longrightarrow> content2 (chain_second c) = []" by blast
  with assms show ?thesis
    by (auto simp: chain_second_fill_def chain_content_def chain_valid_def)
qed

lemma chain_fill:
  assumes valid: "chain_valid valid1 valid2 c"
  shows "\<exists>bs c'. chain_fill_buf fb1 fb2 c = (Inr bs, c') \<and> chain_valid valid1 valid2 c' \<and>
    chain_content content1 content2 c' = chain_content content1 content2 c \<and>
    take (length bs) (chain_content content1 content2 c) = bs \<and>
    (bs = [] \<longrightarrow> chain_content content1 content2 c = [])"
proof (cases "done_first c")
  case True
  with second_fill [OF valid] show ?thesis by (auto simp: chain_fill_buf_def)
next
  case False
  from valid have "valid1 (chain_first c)" by (simp add: chain_valid_def)
  from first.fillE [OF this] obtain bs s' where f: "fb1 (chain_first c) = (Inr bs, s')" "valid1 s'"
    "content1 s' = content1 (chain_first c)" "take (length bs) (content1 (chain_first c)) = bs"
    "bs = [] \<Longrightarrow> content1 (chain_first c) = []" by blast
  show ?thesis
  proof (cases "bs = []")
    case True
    let ?c = "c\<lparr>chain_first := s', done_first := True\<rparr>"
    have "chain_valid valid1 valid2 ?c" "done_first ?c"
      "chain_content content1 content2 ?c = chain_content content1 content2 c"
      using valid f(2,5) True False by (simp_all add: chain_valid_def chain_content_def)
    with second_fill [of ?c] True False f(1) show ?thesis by (auto simp: chain_fill_buf_def)
  next
    case shown: False
    have "length bs \<le> length (content1 (chain_first c))"
      using f(4) by (metis length_take min.cobounded1)
    with shown False f valid show ?thesis
      by (simp add: chain_fill_buf_def chain_content_def chain_valid_def)
  qed
qed

lemma second_consume:
  assumes "chain_valid valid1 valid2 c" "done_first c" "chain_second_fill fb2 c = (Inr bs, c')"
    "k \<le> length bs"
  shows "chain_valid valid1 valid2 (chain_consume cons1 cons2 k c') \<and>
    chain_content content1 content2 (chain_consume cons1 cons2 k c') =
      drop k (chain_content content1 content2 c)"
proof -
  from assms(1,3) obtain s' where f: "fb2 (chain_second c) = (Inr bs, s')"
    and c': "c' = c\<lparr>chain_second := s'\<rparr>" and v: "valid2 (chain_second c)"
    by (auto simp: chain_second_fill_def chain_valid_def split: prod.splits)
  from second.consume_shown [OF v f assms(4)] assms(1,2) show ?thesis
    by (simp add: c' chain_consume_def chain_content_def chain_valid_def)
qed

lemma chain_consume_shown:
  assumes valid: "chain_valid valid1 valid2 c" and shown: "chain_fill_buf fb1 fb2 c = (Inr bs, c')"
    and k: "k \<le> length bs"
  shows "chain_valid valid1 valid2 (chain_consume cons1 cons2 k c') \<and>
    chain_content content1 content2 (chain_consume cons1 cons2 k c') =
      drop k (chain_content content1 content2 c)"
proof (cases "done_first c")
  case True
  with second_consume [OF valid] shown k show ?thesis by (simp add: chain_fill_buf_def)
next
  case False
  from valid have v: "valid1 (chain_first c)" by (simp add: chain_valid_def)
  from first.fillE [OF this] obtain bs1 s' where f: "fb1 (chain_first c) = (Inr bs1, s')" "valid1 s'"
    and t: "take (length bs1) (content1 (chain_first c)) = bs1"
    and e: "bs1 = [] \<Longrightarrow> content1 (chain_first c) = []" by blast
  show ?thesis
  proof (cases "bs1 = []")
    case True
    let ?c = "c\<lparr>chain_first := s', done_first := True\<rparr>"
    have "chain_valid valid1 valid2 ?c" "done_first ?c"
      "chain_content content1 content2 ?c = chain_content content1 content2 c"
      using valid f(2) e True False by (simp_all add: chain_valid_def chain_content_def)
    with second_consume [of ?c bs c' k] shown k True False f(1) show ?thesis
      by (simp add: chain_fill_buf_def)
  next
    case False1: False
    with False f(1) shown have "bs = bs1" "c' = c\<lparr>chain_first := s'\<rparr>"
      by (auto simp: chain_fill_buf_def)
    moreover from first.consume_shown [OF v f(1)] k \<open>bs = bs1\<close>
    have "valid1 (cons1 k s') \<and> content1 (cons1 k s') = drop k (content1 (chain_first c))" by blast
    moreover have "k \<le> length (content1 (chain_first c))"
      using t k \<open>bs = bs1\<close> by (metis length_take min.bounded_iff)
    ultimately show ?thesis
      using False valid by (simp add: chain_consume_def chain_content_def chain_valid_def)
  qed
qed

end

sublocale chained_sources < chained: buf_source
  "chain_fill_buf fb1 fb2" "chain_consume cons1 cons2" "chain_content content1 content2"
  "chain_valid valid1 valid2"
proof (unfold_locales, goal_cases)
  case (1 c) then show ?case by (rule chain_fill)
next
  case (2 c bs c' k) then show ?case by (rule chain_consume_shown)
next
  case (3 c)
  then show ?case
    using first.consume_nothing second.consume_nothing
    by (simp add: chain_consume_def chain_content_def chain_valid_def)
qed

subsection \<open>BufReader provides it over any reader\<close>

context buffered_reader
begin

lemma fill_shows:
  assumes "buf_reader_valid valid b"
  shows "\<exists>bs b'. buf_reader_fill_buf rd b = (Inr bs, b') \<and> buf_reader_valid valid b' \<and>
    buf_reader_content content b' = buf_reader_content content b \<and>
    take (length bs) (buf_reader_content content b) = bs \<and>
    (bs = [] \<longrightarrow> buf_reader_content content b = [])"
proof -
  from fill_buf_result [OF assms] obtain rem b1 where "buf_reader_fill_buf rd b = (Inr rem, b1)"
    "buf_reader_valid valid b1" "rem = buf_reader_buffer b1"
    "buf_reader_content content b1 = buf_reader_content content b"
    "rem = [] \<Longrightarrow> buf_reader_content content b = []" by blast
  moreover from this have "take (length rem) (buf_reader_content content b) = rem"
    unfolding \<open>buf_reader_content content b1 = buf_reader_content content b\<close> [symmetric]
    by (simp add: buf_reader_content_def)
  ultimately show ?thesis by blast
qed

lemma consume_drops:
  assumes "buf_reader_valid valid b" "buf_reader_fill_buf rd b = (Inr bs, b')" "k \<le> length bs"
  shows "buf_reader_valid valid (buf_reader_consume k b') \<and>
    buf_reader_content content (buf_reader_consume k b') = drop k (buf_reader_content content b)"
proof -
  from fill_buf_result [OF assms(1)] assms(2) have "buf_reader_valid valid b'"
    "bs = buf_reader_buffer b'" "buf_reader_content content b' = buf_reader_content content b"
    by (metis Pair_inject sum.inject(2))+
  with consume_buffer [of b' k] assms(3) show ?thesis by simp
qed

end

sublocale buffered_reader < source: buf_source
  "buf_reader_fill_buf rd" buf_reader_consume "buf_reader_content content" "buf_reader_valid valid"
proof (unfold_locales, goal_cases)
  case (1 b) then show ?case by (rule fill_shows)
next
  case (2 b bs b' k) then show ?case by (rule consume_drops)
next
  case (3 b) then show ?case using consume_buffer [of b 0] by simp
qed

interpretation limited_buffered_source: limited_source "buf_reader_fill_buf cursor_read"
  buf_reader_consume "buf_reader_content cursor_fill_buf" "buf_reader_valid cursor_valid"
  by unfold_locales

interpretation chained_buf_sources: chained_sources
  "take_fill_buf (buf_reader_fill_buf cursor_read)" "take_consume buf_reader_consume"
  "take_content (buf_reader_content cursor_fill_buf)" "\<lambda>t. buf_reader_valid cursor_valid (take_inner t)"
  slice_fill_buf "\<lambda>k s. the (slice_consume k s)" "\<lambda>s. s" "\<lambda>s. True"
  by unfold_locales

end
