(* ===== verification/Core2_Format.thy ===== *)
theory Core2_Format
  imports Core2_Buffered
begin

section \<open>Formatted output, destructors and wrappers of core2\<close>

text \<open>
  \<open>Write::write_fmt\<close> of \<open>io/traits.rs\<close> with its \<open>Adaptor\<close>, and what is left of
  \<open>io/buffered.rs\<close>: the destructor of \<open>BufWriter\<close>, \<open>IntoInnerError\<close>, and \<open>LineWriter\<close> around
  its \<open>BufWriter\<close>.
\<close>

subsection \<open>Formatting\<close>

text \<open>
  A \<open>fmt::Arguments\<close> as \<open>fmt::write\<close> runs it: it hands pieces of text to \<open>write_str\<close>, goes on
  as it likes with the knowledge whether that worked, and ends with success or failure. A
  \<open>Display\<close> implementation is free to fail without a failed write, and to ignore one.
\<close>

datatype formatting =
    Formatted bool
  | WriteStr "u8 list" "bool \<Rightarrow> formatting"

text \<open>The text of some pieces, ended by the first failure, as the macros generate it.\<close>

fun format_pieces :: "u8 list list \<Rightarrow> bool \<Rightarrow> formatting" where
  "format_pieces [] ok = Formatted ok"
| "format_pieces (p # ps) ok = WriteStr p (\<lambda>written. if written then format_pieces ps ok else Formatted False)"

text \<open>A \<open>write_all\<close> that may panic or never return.\<close>

type_synonym 's all_writer = "u8 list \<Rightarrow> 's \<Rightarrow> ((core_error + unit) \<times> 's) outcome option"

definition default_write_all :: "'s writer \<Rightarrow> 's all_writer" where
  "default_write_all wr data s = map_option Returned (write_all wr data s)"

text \<open>The run on the \<open>Adaptor\<close>: the end, the error it saved, the writer.\<close>

primrec adaptor_run ::
    "'s all_writer \<Rightarrow> formatting \<Rightarrow> core_error option \<Rightarrow> 's
      \<Rightarrow> (bool \<times> core_error option \<times> 's) outcome option" where
  "adaptor_run wa (Formatted ok) err s = Some (Returned (ok, err, s))"
| "adaptor_run wa (WriteStr text k) err s =
     (case wa text s of
        None \<Rightarrow> None
      | Some Panic \<Rightarrow> Some Panic
      | Some (Returned (Inr _, s')) \<Rightarrow> adaptor_run wa (k True) err s'
      | Some (Returned (Inl e, s')) \<Rightarrow> adaptor_run wa (k False) (Some e) s')"

definition write_fmt :: "'s all_writer \<Rightarrow> formatting \<Rightarrow> 's \<Rightarrow> ((core_error + unit) \<times> 's) outcome option" where
  "write_fmt wa f s =
     (case adaptor_run wa f None s of
        None \<Rightarrow> None
      | Some Panic \<Rightarrow> Some Panic
      | Some (Returned (True, _, s')) \<Rightarrow> Some (Returned (Inr (), s'))
      | Some (Returned (False, Some e, s')) \<Rightarrow> Some (Returned (Inl e, s'))
      | Some (Returned (False, None, s')) \<Rightarrow>
          Some (Returned (Inl (Custom EkOther ''formatter error''), s')))"

subsection \<open>The rest of the buffered writers\<close>

text \<open>
  \<open>Drop for BufWriter\<close>: a failed flush is ignored; a panicking one panics. \<open>into_inner\<close> takes
  the inner writer out, after which the destructor does nothing (\<open>None\<close>).
\<close>

definition buf_writer_drop :: "'s writer \<Rightarrow> 's buf_writer option \<Rightarrow> 's option outcome option" where
  "buf_writer_drop wr b =
     (case b of
        None \<Rightarrow> Some (Returned None)
      | Some b \<Rightarrow>
          (if bw_panicked b then Some (Returned (Some (bw_inner b)))
           else case flush_buf wr b of
                  None \<Rightarrow> None
                | Some Panic \<Rightarrow> Some Panic
                | Some (Returned (_, b1)) \<Rightarrow> Some (Returned (Some (bw_inner b1)))))"

text \<open>\<open>IntoInnerError\<close> is a pair of the writer and the error.\<close>

datatype 'w into_inner_error = IntoInnerError 'w core_error

fun into_inner_error_error :: "'w into_inner_error \<Rightarrow> core_error" where
  "into_inner_error_error (IntoInnerError w e) = e"

fun into_inner_error_into_inner :: "'w into_inner_error \<Rightarrow> 'w" where
  "into_inner_error_into_inner (IntoInnerError w e) = w"

text \<open>\<open>LineWriter\<close> holds a \<open>BufWriter\<close> and forwards to the shim or to it.\<close>

datatype 's line_writer = LineWriter "'s buf_writer"

definition line_writer_new :: "nat \<Rightarrow> 's \<Rightarrow> 's line_writer" where
  "line_writer_new capacity s = LineWriter (buf_writer_new capacity s)"

definition line_writer_flush ::
    "'s writer \<Rightarrow> ('s \<Rightarrow> (core_error + unit) \<times> 's) \<Rightarrow> 's line_writer
      \<Rightarrow> ((core_error + unit) \<times> 's line_writer) outcome option" where
  "line_writer_flush wr flush_inner lw =
     (case lw of LineWriter b \<Rightarrow>
        map_option (map_outcome (\<lambda>(r, b1). (r, LineWriter b1))) (buf_writer_flush wr flush_inner b))"

definition line_writer_into_inner ::
    "'s writer \<Rightarrow> 's line_writer \<Rightarrow> ('s line_writer into_inner_error + 's) outcome option" where
  "line_writer_into_inner wr lw =
     (case lw of LineWriter b \<Rightarrow>
        map_option (map_outcome (\<lambda>r. case r of
            Inl (e, b1) \<Rightarrow> Inl (IntoInnerError (LineWriter b1) e)
          | Inr s \<Rightarrow> Inr s)) (buf_writer_into_inner wr b))"

definition line_writer_write_fmt ::
    "(u8 \<Rightarrow> u8 list \<Rightarrow> nat option) \<Rightarrow> 's writer \<Rightarrow> formatting \<Rightarrow> 's buf_writer
      \<Rightarrow> ((core_error + unit) \<times> 's buf_writer) outcome option" where
  "line_writer_write_fmt memrchr wr f b = write_fmt (line_writer_write_all memrchr wr) f b"

subsection \<open>What formatting writes\<close>

lemma adaptor_run_pieces:
  "adaptor_run (default_write_all vec_write) (format_pieces ps ok) err v =
     Some (Returned (ok, err, v @ concat ps))"
  by (induction ps arbitrary: v) (simp_all add: default_write_all_def write_all_vec)

text \<open>An error is reported only when the formatting failed, and it is the last one saved.\<close>

lemma write_fmt_ok_iff:
  "(\<exists>s'. write_fmt wa f s = Some (Returned (Inr (), s'))) \<longleftrightarrow>
     (\<exists>err s'. adaptor_run wa f None s = Some (Returned (True, err, s')))"
  by (auto simp: write_fmt_def split: option.splits outcome.splits bool.splits prod.splits)

text \<open>The first piece that cannot be written ends the output with its error.\<close>

lemma adaptor_run_stops:
  assumes "\<And>p s. p \<in> set ps \<Longrightarrow> \<exists>s'. wa p s = Some (Returned (Inr (), s'))"
    and "\<And>s. \<exists>s'. wa q s = Some (Returned (Inl e, s'))"
  shows "\<exists>s'. adaptor_run wa (format_pieces (ps @ q # rest) ok) err s = Some (Returned (False, Some e, s'))"
  using assms(1)
proof (induction ps arbitrary: s)
  case Nil
  from assms(2) [of s] show ?case by auto
next
  case (Cons p ps)
  from Cons.prems [of p s] obtain s1 where "wa p s = Some (Returned (Inr (), s1))" by auto
  with Cons.IH [OF Cons.prems, of s1] show ?case by simp
qed

lemma buf_writer_drop_vec:
  "0 < capacity \<Longrightarrow> buf_writer_drop vec_write (Some (buf_writer_new capacity v)) = Some Panic"
  by (simp add: buf_writer_drop_def flush_buf_vec buf_writer_new_def)

text \<open>The destructor of a writer with room either panics, or its inner writer refused every byte.\<close>

lemma buf_writer_drop_outcome:
  assumes "0 < length (bw_buf b)" "\<not> bw_panicked b"
    and "buf_writer_drop wr (Some b) = Some (Returned r)"
  shows "\<exists>e b1. flush_buf wr b = Some (Returned (Inl e, b1)) \<and> r = Some (bw_inner b1)"
  using assms flush_buf_outcome [OF assms(1), of wr]
  by (auto simp: buf_writer_drop_def)

end
