(* ===== verification/Core2_Properties.thy ===== *)
theory Core2_Properties
  imports Core2_Buf_Read Core2_Format
begin

section \<open>Properties of the pinned I/O crate\<close>

subsection \<open>Seeking\<close>

text \<open>The position a seek aims at, over the integers.\<close>

definition seek_goal :: "seek_from \<Rightarrow> cursor \<Rightarrow> int" where
  "seek_goal style c =
     (case style of
        Start n \<Rightarrow> uint n
      | End n \<Rightarrow> int (length (cursor_inner c)) + sint n
      | Current n \<Rightarrow> uint (cursor_pos c) + sint n)"

lemma uint_sint_mod:
  fixes n :: u64
  shows "uint n = sint n mod 2 ^ 64"
  by (simp add: uint_sint take_bit_eq_mod)

lemma sint_bounds:
  fixes n :: u64
  shows "- (2 ^ 63) \<le> sint n" "sint n < 2 ^ 63"
  using sint_lt [of n] sint_ge [of n] by simp_all

lemma uint_nonneg: "0 \<le> sint n \<Longrightarrow> uint n = sint n" for n :: u64
  using uint_sint_mod [of n] sint_bounds [of n] by simp

lemma uint_minus_negative: "sint n < 0 \<Longrightarrow> uint (- n) = - sint n" for n :: u64
proof -
  assume "sint n < 0"
  have "uint (- n) = (- uint n) mod 2 ^ 64" by (simp add: uint_word_ariths take_bit_eq_mod)
  also have "\<dots> = (- sint n) mod 2 ^ 64" by (simp only: uint_sint_mod mod_minus_eq)
  also have "\<dots> = - sint n" using \<open>sint n < 0\<close> sint_bounds [of n] by simp
  finally show ?thesis .
qed

lemma checked_add_int:
  "checked_add a b = (if uint a + uint b < 2 ^ 64 then Some (word_of_int (uint a + uint b)) else None)"
proof -
  have "int (unat a + unat b) < int (2 ^ 64) \<longleftrightarrow> unat a + unat b < 2 ^ 64" by (rule of_nat_less_iff)
  then have "unat a + unat b < 2 ^ 64 \<longleftrightarrow> uint a + uint b < 2 ^ 64" by simp
  moreover have "a + b = word_of_int (uint a + uint b)" by (rule word_add_def)
  ultimately show ?thesis by (simp only: checked_add_def)
qed

lemma checked_sub_int:
  "checked_sub a b = (if uint b \<le> uint a then Some (word_of_int (uint a - uint b)) else None)"
  by (simp add: checked_sub_def word_le_def)

lemma seek_target_int:
  "seek_target base_pos offset =
    (let goal = uint base_pos + sint offset
     in if 0 \<le> goal \<and> goal < 2 ^ 64 then Some (word_of_int goal) else None)"
proof (cases "0 \<le> sint offset")
  case True
  then show ?thesis by (simp add: seek_target_def checked_add_int uint_nonneg)
next
  case False
  moreover have "uint base_pos < 2 ^ 64" using uint_lt2p [of base_pos] by simp
  ultimately show ?thesis by (simp add: seek_target_def checked_sub_int uint_minus_negative)
qed

lemma cursor_seek_goal:
  assumes "cursor_valid c"
  shows "cursor_seek style c =
    (let goal = seek_goal style c
     in if 0 \<le> goal \<and> goal < 2 ^ 64
        then (Inr (word_of_int goal), c\<lparr>cursor_pos := word_of_int goal\<rparr>)
        else (Inl (Custom EkInvalidInput ''invalid seek to a negative or overflowing position''), c))"
proof (cases style)
  case (Start n)
  have "uint n < 2 ^ 64" using uint_lt2p [of n] by simp
  with Start show ?thesis by (simp add: cursor_seek_def seek_goal_def)
next
  case (End n)
  have "uint (of_nat (length (cursor_inner c)) :: u64) = int (length (cursor_inner c))"
    using assms by (simp add: cursor_valid_def uint_nat unat_of_nat)
  with End show ?thesis by (simp add: cursor_seek_def seek_goal_def seek_target_int Let_def)
next
  case (Current n)
  then show ?thesis by (simp add: cursor_seek_def seek_goal_def seek_target_int Let_def)
qed

text \<open>
  A seek succeeds exactly when the position it aims at, computed without wrap-around, is a
  \<open>u64\<close>; then it moves there and returns that position. A negative or overflowing target is
  refused and leaves the cursor as it was, although the code computes the target with 64-bit words.
\<close>

theorem cursor_seek_exact:
  assumes "cursor_valid c"
  shows "cursor_seek style c =
    (let goal = seek_goal style c
     in if 0 \<le> goal \<and> goal < 2 ^ 64
        then (Inr (word_of_int goal), c\<lparr>cursor_pos := word_of_int goal\<rparr>)
        else (Inl (Custom EkInvalidInput ''invalid seek to a negative or overflowing position''), c))"
  by (rule cursor_seek_goal [OF assms])

theorem cursor_seek_exact_witness:
  "cursor_seek (Current (-3)) \<lparr>cursor_inner = [7, 8], cursor_pos = 2\<rparr> =
     (Inl (Custom EkInvalidInput ''invalid seek to a negative or overflowing position''),
      \<lparr>cursor_inner = [7, 8], cursor_pos = 2\<rparr>) \<and>
   cursor_seek (End (-1)) \<lparr>cursor_inner = [7, 8], cursor_pos = 2\<rparr> =
     (Inr 1, \<lparr>cursor_inner = [7, 8], cursor_pos = 1\<rparr>)"
proof -
  let ?c = "\<lparr>cursor_inner = [7, 8], cursor_pos = 2\<rparr>"
  have "cursor_valid ?c" by (simp add: cursor_valid_def)
  from cursor_seek_exact [OF this, of "Current (-3)"] cursor_seek_exact [OF this, of "End (-1)"]
  show ?thesis by (simp add: seek_goal_def)
qed

subsection \<open>Reading exactly\<close>

lemma cursor_read_all:
  "cursor_read n c = (Inr (take n (cursor_fill_buf c)),
     c\<lparr>cursor_pos := cursor_pos c + of_nat (min n (length (cursor_fill_buf c)))\<rparr>)"
  by (simp add: cursor_read_def slice_read_def Let_def min_def)

lemma cursor_read_exact_cases:
  "cursor_read_exact n c =
    (if n \<le> length (cursor_fill_buf c)
     then (Inr (take n (cursor_fill_buf c)), c\<lparr>cursor_pos := cursor_pos c + of_nat n\<rparr>)
     else (Inl (Custom EkUnexpectedEof ''failed to fill whole buffer''), c))"
  by (simp add: cursor_read_exact_def slice_read_exact_def)

text \<open>
  The cursor's own \<open>read_exact\<close> agrees with the default loop over its \<open>read\<close>: the same
  bytes and the same cursor when there are enough of them, the same error otherwise. They differ
  in what a failure leaves behind: the override keeps the position, the loop has consumed
  everything.
\<close>

theorem read_exact_override:
  assumes "cursor_valid c"
  shows "(case cursor_read_exact n c of
      (Inr bs, c') \<Rightarrow> read_exact cursor_read n c = Some (Inr (), bs, c')
    | (Inl e, c') \<Rightarrow> c' = c \<and>
        (\<exists>c''. read_exact cursor_read n c = Some (Inl e, cursor_fill_buf c, c'') \<and> cursor_fill_buf c'' = []))"
proof -
  from cursor_reader.read_exact_loop_result [OF assms, of n "[]"] obtain c' where
    loop: "read_exact cursor_read n c =
      (if n \<le> length (cursor_fill_buf c) then Some (Inr (), take n (cursor_fill_buf c), c')
       else Some (Inl (Custom EkUnexpectedEof ''failed to fill whole buffer''), cursor_fill_buf c, c'))"
    and rest: "cursor_fill_buf c' = drop n (cursor_fill_buf c)"
    by (auto simp: read_exact_def)
  show ?thesis
  proof (cases "n \<le> length (cursor_fill_buf c)")
    case True
    have "read_exact cursor_read n c =
        Some (Inr (), take n (cursor_fill_buf c), c\<lparr>cursor_pos := cursor_pos c + of_nat n\<rparr>)"
      using True by (cases "n = 0") (auto simp: read_exact_def read_exact_loop.simps cursor_read_all min_def)
    with True show ?thesis by (simp add: cursor_read_exact_cases)
  next
    case False
    with loop rest show ?thesis by (simp add: cursor_read_exact_cases)
  qed
qed

theorem read_exact_override_witness:
  "read_exact cursor_read 2 (cursor_new [5, 6, 7]) =
    Some (Inr (), [5, 6], \<lparr>cursor_inner = [5, 6, 7], cursor_pos = 2\<rparr>)"
proof -
  have "cursor_valid (cursor_new [5, 6, 7])" by (simp add: cursor_valid_def cursor_new_def)
  from read_exact_override [OF this, of 2] show ?thesis
    by (simp add: cursor_read_exact_cases cursor_fill_buf_def cursor_new_def)
qed

subsection \<open>Stacked adapters\<close>

interpretation limited_buffered: limited_reader "buf_reader_read cursor_read"
  "buf_reader_content cursor_fill_buf" "buf_reader_valid cursor_valid"
  by unfold_locales

interpretation stack: chained_readers "take_read (buf_reader_read cursor_read)"
  "take_content (buf_reader_content cursor_fill_buf)"
  "\<lambda>t. buf_reader_valid cursor_valid (take_inner t)"
  slice_read "\<lambda>s. s" "\<lambda>s. True"
  by unfold_locales

text \<open>\<open>BufReader::new(c).take(limit).chain(s)\<close>, and its \<open>read\<close>.\<close>

abbreviation stack_read ::
    "(cursor buf_reader take_reader, u8 list) chain_reader reader" where
  "stack_read \<equiv> chain_read (take_read (buf_reader_read cursor_read)) slice_read"

abbreviation stack_new ::
    "nat \<Rightarrow> u64 \<Rightarrow> cursor \<Rightarrow> u8 list \<Rightarrow> (cursor buf_reader take_reader, u8 list) chain_reader" where
  "stack_new capacity limit c s \<equiv>
     \<lparr>chain_first = \<lparr>take_inner = buf_reader_new capacity c, take_limit = limit\<rparr>,
      chain_second = s, done_first = False\<rparr>"

lemma stack_new_facts:
  assumes "cursor_valid c" "0 < capacity"
  shows "chain_valid (\<lambda>t. buf_reader_valid cursor_valid (take_inner t)) (\<lambda>s. True)
      (stack_new capacity limit c s)"
    "chain_content (take_content (buf_reader_content cursor_fill_buf)) (\<lambda>s. s)
      (stack_new capacity limit c s) = take (unat limit) (cursor_fill_buf c) @ s"
  using assms by (simp_all add: chain_valid_def buf_reader_valid_def buf_reader_new_def
      chain_content_def take_content_def buf_reader_content_def buf_reader_buffer_def)

text \<open>
  C36. Reading a stack of adapters to the end: a cursor behind a \<open>BufReader\<close> of any capacity
  but 0, limited by \<open>Take\<close>, chained with a slice. The loop returns, whatever capacities the
  allocator picks, and appends exactly the cursor's bytes up to the limit, then the slice's, and
  reports how many it appended.
\<close>

theorem stack_read_to_end:
  assumes "cursor_valid c" "0 < capacity" "grows grow"
  shows "\<exists>r. read_to_end stack_read (\<lambda>_. 32) grow buf (stack_new capacity limit c s) =
    Some (Inr (min (unat limit) (length (cursor_fill_buf c)) + length s),
      buf @ take (unat limit) (cursor_fill_buf c) @ s, r)"
  using stack.chained.read_to_end_result
    [where reservation = "\<lambda>_. 32", OF assms(3) _ stack_new_facts(1) [OF assms(1,2), of limit s]]
  unfolding stack_new_facts(2) [OF assms(1,2)] by (auto simp: min.commute)

theorem stack_read_to_end_witness:
  "\<exists>r. read_to_end stack_read (\<lambda>_. 32) (+) [9] (stack_new 2 3 (cursor_new [1, 2, 3, 4]) [8]) =
    Some (Inr 4, [9, 1, 2, 3, 8], r)"
proof -
  have "cursor_valid (cursor_new [1, 2, 3, 4])" "grows (+)"
    by (simp_all add: cursor_valid_def cursor_new_def grows_def)
  moreover have "cursor_fill_buf (cursor_new [1, 2, 3, 4]) = [1, 2, 3, 4]"
    "min (unat (3::u64)) (length [1::u8, 2, 3, 4]) + length [8::u8] = 4"
    "[9] @ take (unat (3::u64)) [1::u8, 2, 3, 4] @ [8] = [9, 1, 2, 3, 8]"
    by (simp_all add: cursor_fill_buf_def cursor_new_def)
  ultimately show ?thesis
    using stack_read_to_end [of "cursor_new [1, 2, 3, 4]" 2 "(+)" "[9]" 3 "[8]"] by (simp only: zero_less_numeral simp_thms)
qed

text \<open>
  C38. Copying a reader, here the same stack, into a vector through a buffer of any size but 0
  returns, appends all its bytes and reports their number modulo 2^64.
\<close>

theorem copy_moves_everything:
  assumes "cursor_valid c" "0 < capacity" "0 < n"
  shows "\<exists>r. copy stack_read vec_write n (stack_new capacity limit c s) v =
    Some (Inr (of_nat (min (unat limit) (length (cursor_fill_buf c)) + length s)), r,
      v @ take (unat limit) (cursor_fill_buf c) @ s)"
  using stack.chained.copy_loop_result [OF assms(3) stack_new_facts(1) [OF assms(1,2), of limit s], of 0 v]
  unfolding stack_new_facts(2) [OF assms(1,2)] by (auto simp: copy_def min.commute)

theorem copy_moves_everything_witness:
  "\<exists>r. copy stack_read vec_write 2 (stack_new 2 3 (cursor_new [1, 2, 3, 4]) [8]) [9] =
    Some (Inr 4, r, [9, 1, 2, 3, 8])"
proof -
  have "cursor_valid (cursor_new [1, 2, 3, 4])"
    by (simp add: cursor_valid_def cursor_new_def)
  moreover have "cursor_fill_buf (cursor_new [1, 2, 3, 4]) = [1, 2, 3, 4]"
    "(of_nat (min (unat (3::u64)) (length [1::u8, 2, 3, 4]) + length [8::u8]) :: u64) = 4"
    "[9] @ take (unat (3::u64)) [1::u8, 2, 3, 4] @ [8] = [9, 1, 2, 3, 8]"
    by (simp_all add: cursor_fill_buf_def cursor_new_def)
  ultimately show ?thesis
    using copy_moves_everything [of "cursor_new [1, 2, 3, 4]" 2 2 3 "[8]" "[9]"]
    by (simp only: zero_less_numeral simp_thms)
qed

subsection \<open>The buffered writer\<close>

text \<open>
  C34. A \<open>BufWriter\<close> of a positive capacity never buffers anything: no \<open>write\<close> or \<open>write_all\<close> of
  less than its capacity, and no \<open>flush\<close>, \<open>seek\<close> or \<open>into_inner\<close>, ever succeeds, nor a \<open>write\<close> or
  \<open>write_all\<close> of less than the capacity on a \<open>LineWriter\<close> around it, whatever the inner writer
  does, because \<open>copy_from_slice\<close> is called on slices of different lengths. When the data fits
  behind what is buffered, \<open>write\<close> and \<open>write_all\<close> panic, and so does the destructor of a new
  writer around a vector.
\<close>

theorem buf_writer_never_buffers:
  assumes short: "length data < length (bw_buf b)"
  shows "(\<nexists>n b1. buf_writer_write wr data b = Some (Returned (Inr n, b1))) \<and>
    (\<nexists>b1. buf_writer_write_all wr data b = Some (Returned (Inr (), b1))) \<and>
    (\<nexists>b1. buf_writer_flush wr flush_inner b = Some (Returned (Inr (), b1))) \<and>
    (\<nexists>p b1. buf_writer_seek wr sk pos b = Some (Returned (Inr p, b1))) \<and>
    (\<nexists>s. buf_writer_into_inner wr b = Some (Returned (Inr s))) \<and>
    (\<nexists>n b1. line_writer_write memrchr wr data b = Some (Returned (Inr n, b1))) \<and>
    (\<nexists>b1. line_writer_write_all memrchr wr data b = Some (Returned (Inr (), b1))) \<and>
    (bw_len b + length data \<le> length (bw_buf b) \<longrightarrow>
      buf_writer_write wr data b = Some Panic \<and> buf_writer_write_all wr data b = Some Panic) \<and>
    buf_writer_drop vec_write (Some (buf_writer_new (length (bw_buf b)) v)) = Some Panic"
proof (intro conjI)
  from short have room: "0 < length (bw_buf b)" by linarith
  show "\<nexists>n b1. buf_writer_write wr data b = Some (Returned (Inr n, b1))"
    "\<nexists>b1. buf_writer_write_all wr data b = Some (Returned (Inr (), b1))"
    by (simp_all add: write_never_ok [OF short])
  show "\<nexists>n b1. line_writer_write memrchr wr data b = Some (Returned (Inr n, b1))"
    "\<nexists>b1. line_writer_write_all memrchr wr data b = Some (Returned (Inr (), b1))"
    by (simp_all add: line_write_never_ok [OF short])
  show "\<nexists>b1. buf_writer_flush wr flush_inner b = Some (Returned (Inr (), b1))"
    "\<nexists>p b1. buf_writer_seek wr sk pos b = Some (Returned (Inr p, b1))"
    by (auto simp: buf_writer_flush_def buf_writer_seek_def flush_never_ok [OF room] elim!: and_then_ok)
  show "\<nexists>s. buf_writer_into_inner wr b = Some (Returned (Inr s))"
    using flush_buf_outcome [OF room, of wr] by (auto simp: buf_writer_into_inner_def)
  show "bw_len b + length data \<le> length (bw_buf b) \<longrightarrow>
      buf_writer_write wr data b = Some Panic \<and> buf_writer_write_all wr data b = Some Panic"
    using write_short [OF short, of wr] write_all_short [OF short, of wr]
    by (simp add: buf_writer_write_def buf_writer_write_all_def)
  show "buf_writer_drop vec_write (Some (buf_writer_new (length (bw_buf b)) v)) = Some Panic"
    using room by (rule buf_writer_drop_vec)
qed

theorem buf_writer_never_buffers_witness:
  "buf_writer_write vec_write [1, 2] (buf_writer_new 4 []) = Some Panic"
  using buf_writer_never_buffers [of "[1, 2]" "buf_writer_new 4 []" vec_write "\<lambda>s. (Inr (), s)"
      "\<lambda>_ s. (Inr 0, s)" "Start 0" "\<lambda>_ _. None"]
  by (simp add: buf_writer_new_def)

subsection \<open>Formatted output\<close>

text \<open>\<open>write_fmt\<close> reports what happened: formatting into a vector appends the text of all pieces
  and succeeds exactly when the formatter does, with a formatter error otherwise; over a writer
  that fails for the first time on some piece, its error is what is returned, whatever the
  formatter would have done with the pieces after it.\<close>

theorem write_fmt_reports:
  assumes "\<And>p s. p \<in> set ps \<Longrightarrow> \<exists>s'. wa p s = Some (Returned (Inr (), s'))"
    and "\<And>s. \<exists>s'. wa q s = Some (Returned (Inl e, s'))"
  shows "(\<exists>s'. write_fmt wa (format_pieces (ps @ q # rest) ok) s = Some (Returned (Inl e, s'))) \<and>
    write_fmt (default_write_all vec_write) (format_pieces ps ok) v =
      Some (Returned (if ok then Inr () else Inl (Custom EkOther ''formatter error''), v @ concat ps))"
proof
  from adaptor_run_stops [where err = None and s = s and wa = wa, OF assms(1) assms(2)] obtain s' where
    "adaptor_run wa (format_pieces (ps @ q # rest) ok) None s = Some (Returned (False, Some e, s'))" by blast
  then show "\<exists>s'. write_fmt wa (format_pieces (ps @ q # rest) ok) s = Some (Returned (Inl e, s'))"
    by (simp add: write_fmt_def)
qed (simp add: write_fmt_def adaptor_run_pieces split: bool.split)

theorem write_fmt_reports_witness:
  "\<exists>s'. write_fmt (\<lambda>p s. Some (Returned (if p = [2] then (Inl (Simple EkBrokenPipe), s) else (Inr (), s @ p))))
     (format_pieces ([[1]] @ [2] # [[3]]) True) [] = Some (Returned (Inl (Simple EkBrokenPipe), s'))"
  using write_fmt_reports [of "[[1]]" "\<lambda>p s. Some (Returned
      (if p = [2] then (Inl (Simple EkBrokenPipe), s) else (Inr (), s @ p)))" "[2]"
      "Simple EkBrokenPipe" "[[3]]" True "[]" "[]"]
  by simp

subsection \<open>Seeking through the buffered reader\<close>

text \<open>The cursor as it would be without the buffer: before the bytes not handed out yet.\<close>

definition unbuffered :: "cursor buf_reader \<Rightarrow> cursor" where
  "unbuffered b = (br_inner b)\<lparr>cursor_pos := cursor_pos (br_inner b) - of_nat (length (buf_reader_buffer b))\<rparr>"

text \<open>What is buffered was read from just before the cursor; a buffer is shorter than 2^63 bytes.\<close>

definition buffered_ok :: "cursor buf_reader \<Rightarrow> bool" where
  "buffered_ok b \<longleftrightarrow> buf_reader_valid cursor_valid b \<and>
     length (buf_reader_buffer b) \<le> unat (cursor_pos (br_inner b)) \<and> br_cap b < 2 ^ 63"

lemma unbuffered_empty [simp]: "br_cap b \<le> br_pos b \<Longrightarrow> unbuffered b = br_inner b"
  by (simp add: unbuffered_def buf_reader_buffer_def)

lemma sint_diff:
  fixes a b :: u64
  assumes "- (2 ^ 63) \<le> sint a - sint b" "sint a - sint b < 2 ^ 63"
  shows "sint (a - b) = sint a - sint b"
  using assms by (simp add: sint_word_ariths signed_take_bit_int_eq_self)

lemma unbuffered_pos:
  assumes "buffered_ok b"
  shows "uint (cursor_pos (unbuffered b)) =
      uint (cursor_pos (br_inner b)) - int (length (buf_reader_buffer b))"
    "length (buf_reader_buffer b) = br_cap b - br_pos b"
    "sint (of_nat (br_cap b - br_pos b) :: u64) = int (length (buf_reader_buffer b))"
    "length (buf_reader_buffer b) < 2 ^ 63"
proof -
  let ?p = "cursor_pos (br_inner b)" and ?n = "length (buf_reader_buffer b)"
  show len: "?n = br_cap b - br_pos b"
    using assms by (simp add: buffered_ok_def buf_reader_valid_def buf_reader_buffer_def)
  have short: "br_cap b - br_pos b < 2 ^ 63" using assms unfolding buffered_ok_def by linarith
  with len show "?n < 2 ^ 63" by simp
  from sint_small [OF short] len show "sint (of_nat (br_cap b - br_pos b) :: u64) = int ?n" by simp
  have "?n \<le> unat ?p" using assms by (simp add: buffered_ok_def)
  moreover have "unat ?p < 2 ^ 64" using unsigned_less [of ?p] by simp
  ultimately have "unat (of_nat ?n :: u64) = ?n" by (simp add: unat_of_nat)
  moreover from this \<open>?n \<le> unat ?p\<close> have "(of_nat ?n :: u64) \<le> ?p" by (simp add: word_le_nat_alt)
  ultimately have "unat (cursor_pos (unbuffered b)) = unat ?p - ?n"
    by (simp add: unbuffered_def unat_sub)
  with \<open>?n \<le> unat ?p\<close> show "uint (cursor_pos (unbuffered b)) = uint ?p - int ?n"
    unfolding uint_nat by linarith
qed

lemma seek_same_goal:
  assumes "cursor_valid c" "cursor_inner c' = cursor_inner c" "seek_goal pos c = seek_goal pos' c'"
  shows "(\<exists>e. cursor_seek pos c = (Inl e, c) \<and> cursor_seek pos' c' = (Inl e, c')) \<or>
    (\<exists>p c1. cursor_seek pos c = (Inr p, c1) \<and> cursor_seek pos' c' = (Inr p, c1) \<and>
       uint p = seek_goal pos c \<and> cursor_pos c1 = p \<and> cursor_inner c1 = cursor_inner c)"
proof -
  have c': "cursor_valid c'" using assms(1,2) by (simp add: cursor_valid_def)
  have moved: "c\<lparr>cursor_pos := p\<rparr> = c'\<lparr>cursor_pos := p\<rparr>" for p
    using assms(2) by (cases c; cases c') simp
  show ?thesis
    unfolding cursor_seek_goal [OF assms(1)] cursor_seek_goal [OF c'] assms(3) [symmetric] Let_def
    using moved by (auto simp: uint_word_of_int assms(2))
qed

text \<open>
  C35. Seeking a buffered reader is seeking the cursor as if nothing had been buffered: the same
  result and the same position afterwards, also when the seek fails and when the offset less the
  buffered length is below the range of an \<open>i64\<close> and the code seeks twice.
\<close>

theorem buf_reader_seek_refines:
  assumes b: "buffered_ok b"
  shows "(case buf_reader_seek cursor_seek pos b of
      (r, b') \<Rightarrow> (r, unbuffered b')) = cursor_seek pos (unbuffered b)"
proof -
  let ?c = "br_inner b" and ?u = "unbuffered b"
  have valid: "cursor_valid ?c" using b by (simp add: buffered_ok_def buf_reader_valid_def)
  have inner: "cursor_inner ?u = cursor_inner ?c" by (simp add: unbuffered_def)
  have keep: "b\<lparr>br_inner := ?c\<rparr> = b" by simp
  show ?thesis
  proof (cases "\<exists>n. pos = Current n")
    case False
    then have "seek_goal pos ?c = seek_goal pos ?u"
      by (cases pos) (simp_all add: seek_goal_def inner)
    from seek_same_goal [OF valid inner this] False show ?thesis
      by (cases pos) (auto simp: buf_reader_seek_def discard_buffer_def Let_def)
  next
    case True
    then obtain n where pos: "pos = Current n" by blast
    let ?r = "of_nat (br_cap b - br_pos b) :: u64"
    show ?thesis
    proof (cases "checked_sub_i64 n ?r")
      case (Some off)
      then have "off = n - ?r" "- (2 ^ 63) \<le> sint n - sint ?r" "sint n - sint ?r < 2 ^ 63"
        by (simp_all add: checked_sub_i64_def split: if_splits)
      then have "seek_goal (Current off) ?c = seek_goal (Current n) ?u"
        using unbuffered_pos [OF b] by (simp add: seek_goal_def sint_diff)
      from seek_same_goal [OF valid inner this] Some show ?thesis
        by (auto simp: buf_reader_seek_def discard_buffer_def pos Let_def)
    next
      case None
      have "0 \<le> uint (cursor_pos ?u)" "uint (cursor_pos ?u) < 2 ^ 64"
        using uint_lt2p [of "cursor_pos ?u"] by simp_all
      moreover have "sint (- ?r) = - sint ?r"
        using unbuffered_pos(3,4) [OF b] sint_diff [of 0 ?r] by simp
      ultimately have "cursor_seek (Current (- ?r)) ?c = (Inr (cursor_pos ?u), ?u)"
        using unbuffered_pos [OF b] inner
        by (simp add: cursor_seek_goal [OF valid] seek_goal_def Let_def)
           (simp add: unbuffered_def)
      with None show ?thesis
        by (cases "cursor_seek (Current n) ?u") (auto simp: buf_reader_seek_def pos Let_def
            discard_buffer_def split: sum.split)
    qed
  qed
qed

theorem buf_reader_seek_refines_witness:
  "(case buf_reader_seek cursor_seek (Current 1)
      \<lparr>br_inner = \<lparr>cursor_inner = [1, 2, 3, 4], cursor_pos = 3\<rparr>, br_buf = [1, 2, 3], br_pos = 1, br_cap = 3\<rparr> of
      (r, b') \<Rightarrow> (r, unbuffered b')) = (Inr 2, \<lparr>cursor_inner = [1, 2, 3, 4], cursor_pos = 2\<rparr>)"
proof -
  let ?b = "\<lparr>br_inner = \<lparr>cursor_inner = [1, 2, 3, 4], cursor_pos = 3\<rparr>,
    br_buf = [1, 2, 3], br_pos = 1, br_cap = 3\<rparr> :: cursor buf_reader"
  have "buffered_ok ?b"
    by (simp add: buffered_ok_def buf_reader_valid_def cursor_valid_def buf_reader_buffer_def)
  then have "(case buf_reader_seek cursor_seek (Current 1) ?b of (r, b') \<Rightarrow> (r, unbuffered b')) =
      cursor_seek (Current 1) (unbuffered ?b)"
    by (rule buf_reader_seek_refines)
  also have "unbuffered ?b = \<lparr>cursor_inner = [1, 2, 3, 4], cursor_pos = 1\<rparr>"
    by (simp add: unbuffered_def buf_reader_buffer_def)
  also have "cursor_seek (Current 1) \<lparr>cursor_inner = [1, 2, 3, 4], cursor_pos = 1\<rparr> =
      (Inr 2, \<lparr>cursor_inner = [1, 2, 3, 4], cursor_pos = 2\<rparr>)"
    by (simp add: cursor_seek_def seek_target_def checked_add_def)
  finally show ?thesis .
qed

text \<open>The precondition holds at the start and reading keeps it.\<close>

lemma buffered_ok_new:
  "cursor_valid c \<Longrightarrow> 0 < capacity \<Longrightarrow> buffered_ok (buf_reader_new capacity c)"
  by (simp add: buffered_ok_def buf_reader_valid_def buf_reader_new_def buf_reader_buffer_def)

lemma cursor_read_moves:
  assumes "cursor_read n c = (Inr bs, c')" "cursor_valid c"
  shows "length bs \<le> unat (cursor_pos c')"
proof (cases "bs = []")
  case False
  let ?p = "unat (cursor_pos c)" and ?k = "min n (length (cursor_fill_buf c))"
  from assms(1) have c': "cursor_pos c' = cursor_pos c + of_nat ?k" and len: "length bs = ?k"
    by (auto simp: cursor_read_all)
  from False len have "0 < length (cursor_fill_buf c)" by (cases "cursor_fill_buf c") auto
  then have "?p + ?k \<le> length (cursor_inner c)" by (simp add: cursor_fill_buf_drop)
  then have "?p + ?k < 2 ^ 64" using assms(2) by (simp add: cursor_valid_def)
  then have "unat (cursor_pos c') = ?p + ?k" unfolding c' by (rule unat_add_short)
  with len show ?thesis by simp
qed simp

lemma buffered_ok_read:
  assumes b: "buffered_ok b" and short: "length (br_buf b) < 2 ^ 63"
  shows "buffered_ok (snd (buf_reader_read cursor_read n b))"
proof -
  from b have valid: "buf_reader_valid cursor_valid b" by (simp add: buffered_ok_def)
  obtain bs b' where read: "buf_reader_read cursor_read n b = (Inr bs, b')"
    and v': "buf_reader_valid cursor_valid b'"
    using buffered_cursor.buf_read_prefix [OF valid, of n] by blast
  show ?thesis
  proof (cases "br_pos b = br_cap b \<and> n \<ge> length (br_buf b)")
    case True
    with read v' show ?thesis
      by (auto simp: buf_reader_read_def discard_buffer_def buffered_ok_def buf_reader_buffer_def
          Let_def split: prod.splits)
  next
    case False
    obtain rem b1 where fill: "buf_reader_fill_buf cursor_read b = (Inr rem, b1)"
      and v1: "buf_reader_valid cursor_valid b1" and rem: "rem = buf_reader_buffer b1"
      using buffered_cursor.fill_buf_result [OF valid] by blast
    have ok1: "buffered_ok b1"
    proof (cases "br_pos b \<ge> br_cap b")
      case True
      obtain bs1 c1 where c1: "cursor_read (length (br_buf b)) (br_inner b) = (Inr bs1, c1)"
        by (simp add: cursor_read_all)
      have "length bs1 \<le> unat (cursor_pos c1)"
        using cursor_read_moves [OF c1] valid by (simp add: buf_reader_valid_def)
      moreover have "length bs1 \<le> length (br_buf b)" using c1 by (auto simp: cursor_read_all)
      ultimately show ?thesis
        using True fill v1 c1 short
        by (auto simp: buf_reader_fill_buf_def buffered_ok_def buf_reader_buffer_def Let_def)
    next
      case False
      with fill b show ?thesis by (simp add: buf_reader_fill_buf_def)
    qed
    from read False fill have b': "b' = buf_reader_consume (length bs) b1"
      by (auto simp: buf_reader_read_def slice_read_def Let_def)
    from ok1 v' read show ?thesis
      by (auto simp: b' buffered_ok_def buf_reader_buffer_def buf_reader_consume_def)
  qed
qed

end
