(* ===== verification/Core2_Error_Trait.thy ===== *)
theory Core2_Error_Trait
  imports P2P_Prelude
begin

section \<open>core2: the Error trait (patches/core2-0.4.0/src/error.rs)\<close>

text \<open>
  A trait object is a fat pointer: the object and the vtable of the type it was coerced from.
  \<open>type_id\<close> answers from the vtable, and the private \<open>Internal\<close> argument keeps implementations
  from overriding it; a downcast compares that answer and then reads the object as the wanted
  type. The read is unsafe: on an object of another type its value is \<open>Undefined\<close>. The
  identifiers \<open>TypeId::of\<close> are an argument \<open>tid\<close>.
\<close>

subsection \<open>Types, values, trait objects\<close>

text \<open>
  The types that implement \<open>Error\<close>: a named type of some crate, the private \<open>StringError\<close>, and
  \<open>Box<T>\<close> of an error type. The values of named types are opaque.
\<close>

datatype err_type = Named string | StringErrorType | BoxOf err_type

datatype 'v err_value = Plain string 'v | StringError string | BoxedErr "'v err_value"

fun type_of :: "'v err_value \<Rightarrow> err_type" where
  "type_of (Plain n v) = Named n"
| "type_of (StringError s) = StringErrorType"
| "type_of (BoxedErr e) = BoxOf (type_of e)"

text \<open>The auto traits of the object type: \<open>dyn Error\<close>, \<open>+ Send\<close>, \<open>+ Send + Sync\<close>.\<close>

datatype markers = Bare | WithSend | WithSendSync

record 'v dyn_error =
  object :: "'v err_value"
  vtable :: err_type
  marks :: markers

datatype 'a access = Defined 'a | Undefined

text \<open>Unsizing \<open>Box<E>\<close> to a trait object; forgetting or reapplying the markers.\<close>

definition unsize :: "markers \<Rightarrow> 'v err_value \<Rightarrow> 'v dyn_error" where
  "unsize m e = \<lparr>object = e, vtable = type_of e, marks = m\<rparr>"

definition with_marks :: "markers \<Rightarrow> 'v dyn_error \<Rightarrow> 'v dyn_error" where
  "with_marks m d = d\<lparr>marks := m\<rparr>"

subsection \<open>The trait's methods\<close>

text \<open>
  \<open>source\<close> is a method of the value's type. \<open>sources\<close> gives the implementation of a named type
  that has one; the others, and \<open>StringError\<close>, use the trait's default. A box asks its content.
\<close>

definition default_source :: "'v err_value \<Rightarrow> 'v dyn_error option" where
  "default_source e = None"

fun err_source ::
    "(string \<Rightarrow> ('v \<Rightarrow> 'v dyn_error option) option) \<Rightarrow> 'v err_value \<Rightarrow> 'v dyn_error option" where
  "err_source sources (Plain n v) =
     (case sources n of Some f \<Rightarrow> f v | None \<Rightarrow> default_source (Plain n v))"
| "err_source sources (StringError s) = default_source (StringError s :: 'v err_value)"
| "err_source sources (BoxedErr e) = err_source sources e"

fun err_display :: "(string \<Rightarrow> 'v \<Rightarrow> string) \<Rightarrow> 'v err_value \<Rightarrow> string" where
  "err_display shows (Plain n v) = shows n v"
| "err_display shows (StringError s) = s"
| "err_display shows (BoxedErr e) = err_display shows e"

definition dyn_type_id :: "(err_type \<Rightarrow> 'i) \<Rightarrow> 'v dyn_error \<Rightarrow> 'i" where
  "dyn_type_id tid d = tid (vtable d)"

subsection \<open>Conversions into boxes\<close>

definition box_from_error :: "'v err_value \<Rightarrow> 'v dyn_error" where
  "box_from_error e = unsize Bare e"

definition box_send_sync_from_error :: "'v err_value \<Rightarrow> 'v dyn_error" where
  "box_send_sync_from_error e = unsize WithSendSync e"

definition box_send_sync_from_string :: "string \<Rightarrow> 'v dyn_error" where
  "box_send_sync_from_string s = unsize WithSendSync (StringError s)"

definition box_from_string :: "string \<Rightarrow> 'v dyn_error" where
  "box_from_string s = (let err1 = box_send_sync_from_string s; err2 = with_marks Bare err1 in err2)"

definition box_send_sync_from_str :: "string \<Rightarrow> 'v dyn_error" where
  "box_send_sync_from_str s = box_send_sync_from_string s"

definition box_from_str :: "string \<Rightarrow> 'v dyn_error" where
  "box_from_str s = box_from_string s"

datatype cow = Borrowed string | Owned string

fun string_from_cow :: "cow \<Rightarrow> string" where
  "string_from_cow (Borrowed s) = s"
| "string_from_cow (Owned s) = s"

definition box_send_sync_from_cow :: "cow \<Rightarrow> 'v dyn_error" where
  "box_send_sync_from_cow c = box_send_sync_from_string (string_from_cow c)"

definition box_from_cow :: "cow \<Rightarrow> 'v dyn_error" where
  "box_from_cow c = box_from_string (string_from_cow c)"

subsection \<open>Downcasts\<close>

definition is_type :: "(err_type \<Rightarrow> 'i) \<Rightarrow> err_type \<Rightarrow> 'v dyn_error \<Rightarrow> bool" where
  "is_type tid T d = (let t = tid T; boxed = dyn_type_id tid d in t = boxed)"

text \<open>The pointer cast and its dereference.\<close>

definition read_as :: "err_type \<Rightarrow> 'v dyn_error \<Rightarrow> 'v err_value access" where
  "read_as T d = (if type_of (object d) = T then Defined (object d) else Undefined)"

definition downcast_ref ::
    "(err_type \<Rightarrow> 'i) \<Rightarrow> err_type \<Rightarrow> 'v dyn_error \<Rightarrow> 'v err_value option access" where
  "downcast_ref tid T d =
     (if is_type tid T d
      then (case read_as T d of Defined e \<Rightarrow> Defined (Some e) | Undefined \<Rightarrow> Undefined)
      else Defined None)"

text \<open>The reference of \<open>downcast_mut\<close>, with the write \<open>f\<close> of its holder through it.\<close>

definition downcast_mut ::
    "(err_type \<Rightarrow> 'i) \<Rightarrow> err_type \<Rightarrow> ('v err_value \<Rightarrow> 'v err_value) \<Rightarrow> 'v dyn_error
      \<Rightarrow> 'v dyn_error option access" where
  "downcast_mut tid T f d =
     (if is_type tid T d
      then (case read_as T d of Defined e \<Rightarrow> Defined (Some (d\<lparr>object := f e\<rparr>)) | Undefined \<Rightarrow> Undefined)
      else Defined None)"

definition downcast ::
    "(err_type \<Rightarrow> 'i) \<Rightarrow> err_type \<Rightarrow> 'v dyn_error \<Rightarrow> ('v dyn_error + 'v err_value) access" where
  "downcast tid T d =
     (if is_type tid T d
      then (case read_as T d of Defined e \<Rightarrow> Defined (Inr e) | Undefined \<Rightarrow> Undefined)
      else Defined (Inl d))"

text \<open>
  The methods of marked objects forward to those of the bare one; a write through the reference
  is a write to the marked object.
\<close>

definition send_is_type :: "(err_type \<Rightarrow> 'i) \<Rightarrow> err_type \<Rightarrow> 'v dyn_error \<Rightarrow> bool" where
  "send_is_type tid T d = is_type tid T (with_marks Bare d)"

definition send_downcast_ref ::
    "(err_type \<Rightarrow> 'i) \<Rightarrow> err_type \<Rightarrow> 'v dyn_error \<Rightarrow> 'v err_value option access" where
  "send_downcast_ref tid T d = downcast_ref tid T (with_marks Bare d)"

definition send_downcast_mut ::
    "(err_type \<Rightarrow> 'i) \<Rightarrow> err_type \<Rightarrow> ('v err_value \<Rightarrow> 'v err_value) \<Rightarrow> 'v dyn_error
      \<Rightarrow> 'v dyn_error option access" where
  "send_downcast_mut tid T f d =
     (case downcast_mut tid T f (with_marks Bare d) of
        Defined (Some d') \<Rightarrow> Defined (Some (with_marks WithSend d'))
      | r \<Rightarrow> r)"

definition send_sync_is_type :: "(err_type \<Rightarrow> 'i) \<Rightarrow> err_type \<Rightarrow> 'v dyn_error \<Rightarrow> bool" where
  "send_sync_is_type tid T d = is_type tid T (with_marks Bare d)"

definition send_sync_downcast_ref ::
    "(err_type \<Rightarrow> 'i) \<Rightarrow> err_type \<Rightarrow> 'v dyn_error \<Rightarrow> 'v err_value option access" where
  "send_sync_downcast_ref tid T d = downcast_ref tid T (with_marks Bare d)"

definition send_sync_downcast_mut ::
    "(err_type \<Rightarrow> 'i) \<Rightarrow> err_type \<Rightarrow> ('v err_value \<Rightarrow> 'v err_value) \<Rightarrow> 'v dyn_error
      \<Rightarrow> 'v dyn_error option access" where
  "send_sync_downcast_mut tid T f d =
     (case downcast_mut tid T f (with_marks Bare d) of
        Defined (Some d') \<Rightarrow> Defined (Some (with_marks WithSendSync d'))
      | r \<Rightarrow> r)"

text \<open>The variants that take the box reapply the markers to the box they give back.\<close>

definition reapply :: "markers \<Rightarrow> ('v dyn_error + 'v err_value) access \<Rightarrow> ('v dyn_error + 'v err_value) access" where
  "reapply m r =
     (case r of
        Defined (Inl s) \<Rightarrow> Defined (Inl (with_marks m s))
      | Defined (Inr e) \<Rightarrow> Defined (Inr e)
      | Undefined \<Rightarrow> Undefined)"

definition downcast_send ::
    "(err_type \<Rightarrow> 'i) \<Rightarrow> err_type \<Rightarrow> 'v dyn_error \<Rightarrow> ('v dyn_error + 'v err_value) access" where
  "downcast_send tid T d = (let err = with_marks Bare d in reapply WithSend (downcast tid T err))"

definition downcast_send_sync ::
    "(err_type \<Rightarrow> 'i) \<Rightarrow> err_type \<Rightarrow> 'v dyn_error \<Rightarrow> ('v dyn_error + 'v err_value) access" where
  "downcast_send_sync tid T d = (let err = with_marks Bare d in reapply WithSendSync (downcast tid T err))"

text \<open>The method that a call on an object with given markers resolves to.\<close>

definition is_type_of :: "(err_type \<Rightarrow> 'i) \<Rightarrow> err_type \<Rightarrow> 'v dyn_error \<Rightarrow> bool" where
  "is_type_of tid T d =
     (case marks d of
        Bare \<Rightarrow> is_type tid T d
      | WithSend \<Rightarrow> send_is_type tid T d
      | WithSendSync \<Rightarrow> send_sync_is_type tid T d)"

definition downcast_ref_of ::
    "(err_type \<Rightarrow> 'i) \<Rightarrow> err_type \<Rightarrow> 'v dyn_error \<Rightarrow> 'v err_value option access" where
  "downcast_ref_of tid T d =
     (case marks d of
        Bare \<Rightarrow> downcast_ref tid T d
      | WithSend \<Rightarrow> send_downcast_ref tid T d
      | WithSendSync \<Rightarrow> send_sync_downcast_ref tid T d)"

definition downcast_mut_of ::
    "(err_type \<Rightarrow> 'i) \<Rightarrow> err_type \<Rightarrow> ('v err_value \<Rightarrow> 'v err_value) \<Rightarrow> 'v dyn_error
      \<Rightarrow> 'v dyn_error option access" where
  "downcast_mut_of tid T f d =
     (case marks d of
        Bare \<Rightarrow> downcast_mut tid T f d
      | WithSend \<Rightarrow> send_downcast_mut tid T f d
      | WithSendSync \<Rightarrow> send_sync_downcast_mut tid T f d)"

definition downcast_of ::
    "(err_type \<Rightarrow> 'i) \<Rightarrow> err_type \<Rightarrow> 'v dyn_error \<Rightarrow> ('v dyn_error + 'v err_value) access" where
  "downcast_of tid T d =
     (case marks d of
        Bare \<Rightarrow> downcast tid T d
      | WithSend \<Rightarrow> downcast_send tid T d
      | WithSendSync \<Rightarrow> downcast_send_sync tid T d)"

subsection \<open>Boxes that safe code can make\<close>

text \<open>
  Unsizing a box of an error, dropping markers, the object a failed downcast gives back, and a
  write through the reference of \<open>downcast_mut\<close>, which the type system keeps at its type.
\<close>

inductive safe_box :: "(err_type \<Rightarrow> 'i) \<Rightarrow> 'v dyn_error \<Rightarrow> bool"
  for tid where
  unsized: "safe_box tid (unsize m e)"
| from_text: "d \<in> {box_from_string s, box_from_str s, box_send_sync_from_string s,
      box_send_sync_from_str s, box_from_cow c, box_send_sync_from_cow c} \<Longrightarrow> safe_box tid d"
| unmarked: "safe_box tid d \<Longrightarrow> safe_box tid (with_marks Bare d)"
| given_back: "safe_box tid d \<Longrightarrow> downcast_of tid T d = Defined (Inl d') \<Longrightarrow> safe_box tid d'"
| written: "safe_box tid d \<Longrightarrow> (\<And>e. type_of e = T \<Longrightarrow> type_of (f e) = T) \<Longrightarrow>
     downcast_mut_of tid T f d = Defined (Some d') \<Longrightarrow> safe_box tid d'"

lemmas box_defs =
  box_from_error_def box_send_sync_from_error_def box_send_sync_from_string_def box_from_string_def
  box_send_sync_from_str_def box_from_str_def box_send_sync_from_cow_def box_from_cow_def
  unsize_def with_marks_def Let_def

lemmas downcast_defs =
  downcast_of_def downcast_def downcast_send_def downcast_send_sync_def reapply_def is_type_def
  dyn_type_id_def read_as_def with_marks_def Let_def

lemmas reference_defs =
  is_type_of_def send_is_type_def send_sync_is_type_def downcast_ref_of_def downcast_ref_def
  send_downcast_ref_def send_sync_downcast_ref_def downcast_mut_of_def downcast_mut_def
  send_downcast_mut_def send_sync_downcast_mut_def

text \<open>The vtable of such a box is that of its object's type.\<close>

lemma safe_box_vtable: "safe_box tid d \<Longrightarrow> vtable d = type_of (object d)"
proof (induction rule: safe_box.induct)
  case (from_text d s c)
  then show ?case by (auto simp: box_defs)
next
  case (given_back d T d')
  then show ?case by (auto simp: downcast_defs split: markers.splits if_splits)
next
  case (written d T f d')
  then show ?case by (cases "marks d") (auto simp: reference_defs downcast_defs split: if_splits)
qed (simp_all add: box_defs)

lemma downcast_exact:
  assumes inj: "inj tid" and vt: "vtable d = type_of (object d)"
  shows "downcast_of tid T d = Defined (if type_of (object d) = T then Inr (object d) else Inl d)"
    "is_type_of tid T d \<longleftrightarrow> type_of (object d) = T"
    "downcast_ref_of tid T d = Defined (if type_of (object d) = T then Some (object d) else None)"
    "downcast_mut_of tid T f d =
       Defined (if type_of (object d) = T then Some (d\<lparr>object := f (object d)\<rparr>) else None)"
  using inj_eq [OF inj, of T "type_of (object d)"] vt
  by (cases "marks d"; auto simp: downcast_defs reference_defs)+

text \<open>A text converted to a box prints as itself, has no source, and is not bare exactly when the
  target type carries markers.\<close>

lemma text_boxes:
  assumes "d \<in> {box_from_string s, box_from_str s, box_from_cow (Borrowed s), box_from_cow (Owned s)}"
    and "d' \<in> {box_send_sync_from_string s, box_send_sync_from_str s, box_send_sync_from_cow (Borrowed s),
      box_send_sync_from_cow (Owned s)}"
  shows "err_display shows (object d) = s" "err_source sources (object d) = None"
    "marks d = Bare" "d' = with_marks WithSendSync d"
  using assms by (auto simp: box_defs default_source_def)

lemma type_of_boxed: "type_of (BoxedErr e) \<noteq> type_of e"
proof -
  have "BoxOf T \<noteq> T" for T by (induction T) auto
  then show ?thesis by simp
qed

text \<open>C39. A downcast of a box made by safe code never reads the object at a wrong type: it gives the
  object exactly if its type is the wanted one, and otherwise the box itself with its markers.
  The reference variants agree, and a write through the mutable one leaves a box that downcasts in
  the same way. An error that was boxed before the conversion is found under the type of its
  box only, not under its own, although its source is forwarded.\<close>

theorem downcast_sound:
  assumes inj: "inj tid" and safe: "safe_box tid d"
  shows "downcast_of tid T d = Defined (if type_of (object d) = T then Inr (object d) else Inl d) \<and>
    (is_type_of tid T d \<longleftrightarrow> type_of (object d) = T) \<and>
    downcast_ref_of tid T d = Defined (if type_of (object d) = T then Some (object d) else None) \<and>
    downcast_mut_of tid T f d =
      Defined (if type_of (object d) = T then Some (d\<lparr>object := f (object d)\<rparr>) else None) \<and>
    (\<forall>e. object d = BoxedErr e \<longrightarrow> downcast_of tid (type_of e) d = Defined (Inl d) \<and>
       err_source sources (object d) = err_source sources e)"
proof -
  note vt = safe_box_vtable [OF safe]
  have "downcast_of tid (type_of e) d = Defined (Inl d)" if "object d = BoxedErr e" for e
    using downcast_exact(1) [OF inj vt, of "type_of e"] type_of_boxed [of e] that by simp
  then show ?thesis
    using downcast_exact [OF inj vt] by simp
qed

theorem downcast_sound_witness:
  "downcast_of id StringErrorType (box_from_string ''gone'' :: nat dyn_error) =
     Defined (Inr (StringError ''gone'')) \<and>
   downcast_of id (Named ''io'') (box_send_sync_from_string ''gone'' :: nat dyn_error) =
     Defined (Inl (box_send_sync_from_string ''gone''))"
proof -
  have safe: "safe_box id (box_from_string ''gone'' :: nat dyn_error)"
    "safe_box id (box_send_sync_from_string ''gone'' :: nat dyn_error)"
    by (auto intro: safe_box.from_text [where s = "''gone''"])
  show ?thesis
    using downcast_sound [OF inj_on_id safe(1), of StringErrorType id "\<lambda>n. None"]
      downcast_sound [OF inj_on_id safe(2), of "Named ''io''" id "\<lambda>n. None"]
    by (simp add: box_defs)
qed

end
