(* ===== verification/Core2_Uninit.thy ===== *)
theory Core2_Uninit
  imports Core2_Readers
begin

section \<open>core2: reading into uninitialised memory (io/traits.rs)\<close>

text \<open>
  \<open>Core2_Io\<close> models a read by the bytes it puts at the start of the buffer. Here the memory is
  explicit: \<open>read_to_end\<close> sets the length of a \<open>Vec\<close> to its capacity before the new part is
  written, hands that part to the reader, and relies on \<open>Guard\<close> to cut the vector back whenever
  it leaves, on a panic as well. A reader may claim to have read more than it did; the code
  trusts the claim up to an assertion, and trusts \<open>Initializer::nop\<close> entirely.
\<close>

subsection \<open>Memory\<close>

datatype cell = Uninit | Byte u8

fun is_byte :: "cell \<Rightarrow> bool" where
  "is_byte (Byte b) \<longleftrightarrow> True"
| "is_byte Uninit \<longleftrightarrow> False"

text \<open>A \<open>Vec<u8>\<close>: the cells of its allocation, and its length.\<close>

record vec_mem =
  cells :: "cell list"
  vec_len :: nat

definition vec_ok :: "vec_mem \<Rightarrow> bool" where
  "vec_ok v \<longleftrightarrow> vec_len v \<le> length (cells v) \<and> list_all is_byte (take (vec_len v) (cells v))"

definition vec_of_bytes :: "u8 list \<Rightarrow> vec_mem" where
  "vec_of_bytes bs = \<lparr>cells = map Byte bs, vec_len = length bs\<rparr>"

text \<open>\<open>Vec::reserve\<close> is the allocator's; it keeps the contents and makes room.\<close>

definition reserve_law :: "(nat \<Rightarrow> vec_mem \<Rightarrow> vec_mem) \<Rightarrow> bool" where
  "reserve_law reserve \<longleftrightarrow>
     (\<forall>k v. vec_len v \<le> length (cells v) \<longrightarrow>
        vec_len (reserve k v) = vec_len v \<and> vec_len v + k \<le> length (cells (reserve k v)) \<and>
        take (vec_len v) (cells (reserve k v)) = take (vec_len v) (cells v))"

definition set_len :: "nat \<Rightarrow> vec_mem \<Rightarrow> vec_mem" where
  "set_len n v = v\<lparr>vec_len := n\<rparr>"

subsection \<open>Initializer\<close>

datatype initializer = Initializer bool

definition zeroing :: initializer where
  "zeroing = Initializer True"

definition nop :: initializer where
  "nop = Initializer False"

fun should_initialize :: "initializer \<Rightarrow> bool" where
  "should_initialize (Initializer b) = b"

definition initialize :: "initializer \<Rightarrow> cell list \<Rightarrow> cell list" where
  "initialize i buf = (if should_initialize i then replicate (length buf) (Byte 0) else buf)"

subsection \<open>Readers on memory\<close>

datatype read_outcome = ReadOk nat | ReadErr core_error | ReadPanic

type_synonym 's mem_reader = "cell list \<Rightarrow> 's \<Rightarrow> read_outcome \<times> cell list \<times> 's"

text \<open>
  Safe code given a buffer of bytes keeps its length and leaves bytes in it, whatever it claims to
  have read; nothing is known of it on uninitialised memory. A reader entitled to \<open>nop\<close>
  promises for every buffer that it only writes, and that what it says it read it has written.
\<close>

definition safe_reader :: "'s mem_reader \<Rightarrow> bool" where
  "safe_reader rd \<longleftrightarrow>
     (\<forall>buf s out buf' s'. rd buf s = (out, buf', s') \<longrightarrow> list_all is_byte buf \<longrightarrow>
        length buf' = length buf \<and> list_all is_byte buf')"

definition trusted_reader :: "'s mem_reader \<Rightarrow> bool" where
  "trusted_reader rd \<longleftrightarrow>
     (\<forall>buf s out buf' s'. rd buf s = (out, buf', s') \<longrightarrow>
        length buf' = length buf \<and> list_all2 (\<lambda>c c'. is_byte c \<longrightarrow> is_byte c') buf buf' \<and>
        (\<forall>n. out = ReadOk n \<longrightarrow> n \<le> length buf \<and> list_all is_byte (take n buf')))"

definition initializer_sound :: "initializer \<Rightarrow> 's mem_reader \<Rightarrow> bool" where
  "initializer_sound i rd \<longleftrightarrow> (if should_initialize i then safe_reader rd else trusted_reader rd)"

text \<open>Every reader of \<open>Core2_Io\<close>, on memory.\<close>

definition on_memory :: "'s reader \<Rightarrow> 's mem_reader" where
  "on_memory rd buf s =
     (case rd (length buf) s of
        (Inl e, s') \<Rightarrow> (ReadErr e, buf, s')
      | (Inr bs, s') \<Rightarrow> (ReadOk (length bs), map Byte bs @ drop (length bs) buf, s'))"

subsection \<open>read_to_end_with_reservation\<close>

datatype read_result = Returned nat | Failed core_error | Panicked

text \<open>\<open>Guard::drop\<close>, which runs on every way out.\<close>

definition guard_drop :: "nat \<Rightarrow> vec_mem \<Rightarrow> vec_mem" where
  "guard_drop g_len v = set_len g_len v"

text \<open>The unsafe block: reserve, stretch the length over the capacity, initialise the new part.\<close>

definition stretch :: "initializer \<Rightarrow> (nat \<Rightarrow> vec_mem \<Rightarrow> vec_mem) \<Rightarrow> nat \<Rightarrow> nat \<Rightarrow> vec_mem \<Rightarrow> vec_mem" where
  "stretch i reserve k g_len v =
     (let v1 = reserve k v; v2 = set_len (length (cells v1)) v1
      in v2\<lparr>cells := take g_len (cells v2) @ initialize i (drop g_len (cells v2))\<rparr>)"

text \<open>One turn of the loop: it leaves, the guard running, or goes on with a longer filled part.\<close>

datatype 's mem_turn = Leaves read_result vec_mem 's | Again nat vec_mem 's

definition read_to_end_turn ::
    "'s mem_reader \<Rightarrow> initializer \<Rightarrow> ('s \<Rightarrow> nat) \<Rightarrow> (nat \<Rightarrow> vec_mem \<Rightarrow> vec_mem) \<Rightarrow> nat \<Rightarrow> nat \<Rightarrow> vec_mem \<Rightarrow> 's
      \<Rightarrow> 's mem_turn" where
  "read_to_end_turn rd i reservation reserve start_len g_len v s =
     (let v1 = (if g_len = vec_len v then stretch i reserve (reservation s) g_len v else v)
      in case rd (drop g_len (take (vec_len v1) (cells v1))) s of
           (out, buf', s') \<Rightarrow>
             (let v2 = v1\<lparr>cells := take g_len (cells v1) @ buf' @ drop (vec_len v1) (cells v1)\<rparr>
              in case out of
                   ReadOk n \<Rightarrow>
                     (if n = 0 then Leaves (Returned (g_len - start_len)) (guard_drop g_len v2) s'
                      else if n \<le> length buf' then Again (g_len + n) v2 s'
                      else Leaves Panicked (guard_drop g_len v2) s')
                 | ReadErr e \<Rightarrow>
                     (if error_kind_of e = EkInterrupted then Again g_len v2 s'
                      else Leaves (Failed e) (guard_drop g_len v2) s')
                 | ReadPanic \<Rightarrow> Leaves Panicked (guard_drop g_len v2) s'))"

partial_function (option) read_to_end_mem_loop ::
    "'s mem_reader \<Rightarrow> initializer \<Rightarrow> ('s \<Rightarrow> nat) \<Rightarrow> (nat \<Rightarrow> vec_mem \<Rightarrow> vec_mem) \<Rightarrow> nat \<Rightarrow> nat \<Rightarrow> vec_mem \<Rightarrow> 's
      \<Rightarrow> (read_result \<times> vec_mem \<times> 's) option" where
  "read_to_end_mem_loop rd i reservation reserve start_len g_len v s =
     (case read_to_end_turn rd i reservation reserve start_len g_len v s of
        Leaves r v' s' \<Rightarrow> Some (r, v', s')
      | Again g_len' v' s' \<Rightarrow> read_to_end_mem_loop rd i reservation reserve start_len g_len' v' s')"

definition read_to_end_mem ::
    "'s mem_reader \<Rightarrow> initializer \<Rightarrow> ('s \<Rightarrow> nat) \<Rightarrow> (nat \<Rightarrow> vec_mem \<Rightarrow> vec_mem) \<Rightarrow> vec_mem \<Rightarrow> 's
      \<Rightarrow> (read_result \<times> vec_mem \<times> 's) option" where
  "read_to_end_mem rd i reservation reserve v s =
     read_to_end_mem_loop rd i reservation reserve (vec_len v) (vec_len v) v s"

subsection \<open>The adapters on memory\<close>

text \<open>\<open>Take\<close> hands the front of the buffer on; its limit wraps below zero.\<close>

definition take_read_mem :: "'s mem_reader \<Rightarrow> 's take_reader mem_reader" where
  "take_read_mem rd buf t =
     (if take_limit t = 0 then (ReadOk 0, buf, t)
      else (let m = min (length buf) (unat (take_limit t))
            in case rd (take m buf) (take_inner t) of
                 (out, front, s') \<Rightarrow>
                   (out, front @ drop m buf,
                    \<lparr>take_inner = s',
                     take_limit = (case out of ReadOk n \<Rightarrow> take_limit t - of_nat n | _ \<Rightarrow> take_limit t)\<rparr>)))"

definition chain_second_mem :: "'t mem_reader \<Rightarrow> ('s, 't) chain_reader mem_reader" where
  "chain_second_mem rd2 buf c =
     (case rd2 buf (chain_second c) of (out, buf', s') \<Rightarrow> (out, buf', c\<lparr>chain_second := s'\<rparr>))"

definition chain_read_mem :: "'s mem_reader \<Rightarrow> 't mem_reader \<Rightarrow> ('s, 't) chain_reader mem_reader" where
  "chain_read_mem rd1 rd2 buf c =
     (if done_first c then chain_second_mem rd2 buf c
      else case rd1 buf (chain_first c) of
             (out, buf', s') \<Rightarrow>
               (if out = ReadOk 0 \<and> buf' \<noteq> []
                then chain_second_mem rd2 buf' (c\<lparr>chain_first := s', done_first := True\<rparr>)
                else (out, buf', c\<lparr>chain_first := s'\<rparr>)))"

definition chain_initializer :: "initializer \<Rightarrow> initializer \<Rightarrow> initializer" where
  "chain_initializer first second = (if should_initialize first then first else second)"

subsection \<open>The adapters keep what their initializer promises\<close>

lemma bytes_kept:
  "list_all2 (\<lambda>c c'. is_byte c \<longrightarrow> is_byte c') buf buf' \<Longrightarrow> list_all is_byte buf \<Longrightarrow> list_all is_byte buf'"
  by (induction rule: list_all2_induct) auto

lemma safe_readerD:
  "safe_reader rd \<Longrightarrow> rd buf s = (out, buf', s') \<Longrightarrow> list_all is_byte buf \<Longrightarrow>
     length buf' = length buf \<and> list_all is_byte buf'"
  unfolding safe_reader_def by blast

lemma trusted_readerD:
  assumes "trusted_reader rd" "rd buf s = (out, buf', s')"
  shows "length buf' = length buf" "list_all2 (\<lambda>c c'. is_byte c \<longrightarrow> is_byte c') buf buf'"
    "out = ReadOk n \<Longrightarrow> n \<le> length buf \<and> list_all is_byte (take n buf')"
  using assms unfolding trusted_reader_def by blast+

lemma trusted_safe: "trusted_reader rd \<Longrightarrow> safe_reader rd"
  unfolding safe_reader_def using trusted_readerD(1,2) bytes_kept by metis

lemma take_safe: "safe_reader rd \<Longrightarrow> safe_reader (take_read_mem rd)"
  unfolding safe_reader_def [of "take_read_mem rd"]
proof (intro allI impI)
  fix buf t out buf' t'
  assume rd: "safe_reader rd" and tk: "take_read_mem rd buf t = (out, buf', t')" and b: "list_all is_byte buf"
  define m where "m = min (length buf) (unat (take_limit t))"
  obtain out1 front s1 where r: "rd (take m buf) (take_inner t) = (out1, front, s1)"
    by (cases "rd (take m buf) (take_inner t)") auto
  have parts: "list_all is_byte (take m buf)" "list_all is_byte (drop m buf)"
    using b by (simp_all add: list_all_length)
  from safe_readerD [OF rd r parts(1)] parts(2) tk r b show "length buf' = length buf \<and> list_all is_byte buf'"
    by (auto simp: take_read_mem_def Let_def m_def [symmetric] split: if_splits)
qed

lemma take_trusted: "trusted_reader rd \<Longrightarrow> trusted_reader (take_read_mem rd)"
  unfolding trusted_reader_def [of "take_read_mem rd"]
proof (intro allI impI)
  fix buf t out buf' t'
  assume rd: "trusted_reader rd" and tk: "take_read_mem rd buf t = (out, buf', t')"
  define m where "m = min (length buf) (unat (take_limit t))"
  let ?keeps = "\<lambda>c c'. is_byte c \<longrightarrow> is_byte c'"
  have refl: "list_all2 ?keeps cs cs" for cs by (simp add: list_all2_conv_all_nth)
  show "length buf' = length buf \<and> list_all2 ?keeps buf buf' \<and>
      (\<forall>n. out = ReadOk n \<longrightarrow> n \<le> length buf \<and> list_all is_byte (take n buf'))"
  proof (cases "take_limit t = 0")
    case True
    with tk refl show ?thesis by (auto simp: take_read_mem_def)
  next
    case False
    obtain out1 front s1 where r: "rd (take m buf) (take_inner t) = (out1, front, s1)"
      by (cases "rd (take m buf) (take_inner t)") auto
    have res: "out = out1" "buf' = front @ drop m buf"
      using tk r False by (auto simp: take_read_mem_def Let_def m_def [symmetric])
    note tr = trusted_readerD [OF rd r]
    have "list_all2 ?keeps (take m buf @ drop m buf) (front @ drop m buf)"
      using tr(2) refl by (rule list_all2_appendI)
    moreover have len: "length front = m" using tr(1) by (simp add: m_def)
    moreover have "n \<le> m \<and> list_all is_byte (take n buf')" if "out = ReadOk n" for n
      using tr(3) [of n] that res len by (simp add: m_def)
    ultimately show ?thesis by (auto simp: res m_def)
  qed
qed

lemma chain_second_safe:
  "safe_reader rd2 \<Longrightarrow> chain_second_mem rd2 buf c = (out, buf', c') \<Longrightarrow> list_all is_byte buf \<Longrightarrow>
     length buf' = length buf \<and> list_all is_byte buf'"
  by (auto simp: chain_second_mem_def dest: safe_readerD split: prod.splits)

lemma chain_safe:
  assumes "safe_reader rd1" "safe_reader rd2"
  shows "safe_reader (chain_read_mem rd1 rd2)"
  unfolding safe_reader_def [of "chain_read_mem rd1 rd2"]
proof (intro allI impI)
  fix buf c out buf' c'
  assume ch: "chain_read_mem rd1 rd2 buf c = (out, buf', c')" and b: "list_all is_byte buf"
  obtain out1 buf1 s1 where r: "rd1 buf (chain_first c) = (out1, buf1, s1)"
    by (cases "rd1 buf (chain_first c)") auto
  note first = safe_readerD [OF assms(1) r b]
  from ch b first r show "length buf' = length buf \<and> list_all is_byte buf'"
    by (auto simp: chain_read_mem_def dest!: chain_second_safe [OF assms(2)] split: if_splits)
qed

lemma chain_second_trusted:
  assumes "trusted_reader rd2" "chain_second_mem rd2 buf c = (out, buf', c')"
  shows "length buf' = length buf" "list_all2 (\<lambda>c c'. is_byte c \<longrightarrow> is_byte c') buf buf'"
    "out = ReadOk n \<Longrightarrow> n \<le> length buf \<and> list_all is_byte (take n buf')"
proof -
  obtain out1 buf1 s1 where r: "rd2 buf (chain_second c) = (out1, buf1, s1)"
    by (cases "rd2 buf (chain_second c)") auto
  with assms(2) have "out = out1" "buf' = buf1" by (simp_all add: chain_second_mem_def)
  with trusted_readerD [OF assms(1) r] show "length buf' = length buf"
    "list_all2 (\<lambda>c c'. is_byte c \<longrightarrow> is_byte c') buf buf'"
    "out = ReadOk n \<Longrightarrow> n \<le> length buf \<and> list_all is_byte (take n buf')" by simp_all
qed

lemma chain_trusted:
  assumes "trusted_reader rd1" "trusted_reader rd2"
  shows "trusted_reader (chain_read_mem rd1 rd2)"
  unfolding trusted_reader_def [of "chain_read_mem rd1 rd2"]
proof (intro allI impI)
  fix buf c out buf' c'
  let ?keeps = "\<lambda>c c'. is_byte c \<longrightarrow> is_byte c'"
  assume ch: "chain_read_mem rd1 rd2 buf c = (out, buf', c')"
  obtain out1 buf1 s1 where r: "rd1 buf (chain_first c) = (out1, buf1, s1)"
    by (cases "rd1 buf (chain_first c)") auto
  note first = trusted_readerD [OF assms(1) r]
  consider (one) "out = out1" "buf' = buf1"
    | (two) d where "chain_second_mem rd2 buf d = (out, buf', c')"
    | (both) d where "chain_second_mem rd2 buf1 d = (out, buf', c')"
    using ch r by (auto simp: chain_read_mem_def split: if_splits)
  then show "length buf' = length buf \<and> list_all2 ?keeps buf buf' \<and>
      (\<forall>n. out = ReadOk n \<longrightarrow> n \<le> length buf \<and> list_all is_byte (take n buf'))"
  proof cases
    case one
    with first show ?thesis by simp
  next
    case two
    from chain_second_trusted [OF assms(2) two] show ?thesis by simp
  next
    case both
    note second = chain_second_trusted [OF assms(2) both]
    have "list_all2 ?keeps buf buf'"
      by (rule list_all2_trans [OF _ first(2) second(2)]) blast
    with second first(1) show ?thesis by simp
  qed
qed

text \<open>\<open>Take\<close> passes its reader's initializer on; \<open>Chain\<close> leaves memory alone only if both do.\<close>

lemma take_initializer_sound:
  "initializer_sound i rd \<Longrightarrow> initializer_sound i (take_read_mem rd)"
  by (simp add: initializer_sound_def take_safe take_trusted split: if_splits)

lemma initializer_sound_safe: "initializer_sound i rd \<Longrightarrow> safe_reader rd"
  by (auto simp: initializer_sound_def trusted_safe split: if_splits)

lemma chain_initializer_sound:
  assumes "initializer_sound i rd1" "initializer_sound j rd2"
  shows "initializer_sound (chain_initializer i j) (chain_read_mem rd1 rd2)"
proof (cases "should_initialize (chain_initializer i j)")
  case True
  with assms show ?thesis
    by (simp add: initializer_sound_def [of "chain_initializer i j"] chain_safe initializer_sound_safe)
next
  case False
  then have "\<not> should_initialize i" "\<not> should_initialize j"
    by (auto simp: chain_initializer_def split: if_splits)
  with assms False show ?thesis by (simp add: initializer_sound_def chain_trusted)
qed

subsection \<open>No uninitialised byte leaves the loop\<close>

text \<open>
  Between turns the vector's length reaches over memory that need not be initialised; what is
  known is that the filled part holds bytes, behind what the vector held before, and that with a
  zeroing initializer the whole length does.
\<close>

definition fill_inv :: "initializer \<Rightarrow> cell list \<Rightarrow> nat \<Rightarrow> vec_mem \<Rightarrow> bool" where
  "fill_inv i old g v \<longleftrightarrow>
     g \<le> vec_len v \<and> vec_len v \<le> length (cells v) \<and> length old \<le> g \<and>
     take (length old) (cells v) = old \<and> list_all is_byte (take g (cells v)) \<and>
     (should_initialize i \<longrightarrow> list_all is_byte (take (vec_len v) (cells v)))"

lemma list_all_take: "list_all P (take n xs) \<Longrightarrow> m \<le> n \<Longrightarrow> list_all P (take m xs)"
  by (auto simp: list_all_length)

lemma list_all_drop: "list_all P xs \<Longrightarrow> list_all P (drop n xs)"
  by (metis append_take_drop_id list_all_append)

lemma list_all_zeros: "list_all is_byte (replicate n (Byte b))"
  by (induction n) auto

lemma stretch_inv:
  assumes inv: "fill_inv i old g v" and full: "g = vec_len v" and law: "reserve_law reserve"
  shows "fill_inv i old g (stretch i reserve k g v)"
proof -
  from inv full law have res: "vec_len (reserve k v) = g" "g + k \<le> length (cells (reserve k v))"
    "take g (cells (reserve k v)) = take g (cells v)"
    by (simp_all add: reserve_law_def fill_inv_def)
  let ?C = "cells (reserve k v)"
  have "take (length old) ?C = old"
    using inv arg_cong [OF res(3), of "take (length old)"] by (simp add: fill_inv_def min_def)
  moreover have "list_all is_byte (take g ?C)" using inv by (simp add: res(3) fill_inv_def)
  ultimately show ?thesis
    using inv res(2)
    by (auto simp: stretch_def set_len_def initialize_def fill_inv_def Let_def min_def list_all_zeros)
qed

lemma turn_step:
  assumes inv: "fill_inv i old g v" and law: "reserve_law reserve" and rd: "initializer_sound i rd"
    and start: "start = length old"
  shows "case read_to_end_turn rd i reservation reserve start g v s of
      Leaves r v' s' \<Rightarrow> fill_inv i old (vec_len v') v' \<and> g = vec_len v' \<and>
        (\<forall>k. r = Returned k \<longrightarrow> vec_len v' = start + k)
    | Again g' v' s' \<Rightarrow> fill_inv i old g' v'"
proof -
  define v1 where "v1 = (if g = vec_len v then stretch i reserve (reservation s) g v else v)"
  have inv1: "fill_inv i old g v1" using inv stretch_inv [OF inv _ law] by (simp add: v1_def)
  define buf where "buf = drop g (take (vec_len v1) (cells v1))"
  obtain out buf' s' where r: "rd buf s = (out, buf', s')" by (cases "rd buf s") auto
  let ?C = "take g (cells v1) @ buf' @ drop (vec_len v1) (cells v1)"
  define v2 where "v2 = v1\<lparr>cells := ?C\<rparr>"
  have zero: "list_all is_byte buf" if "should_initialize i"
    using inv1 that by (simp add: fill_inv_def buf_def list_all_drop)
  have len: "length buf' = length buf" and filled: "should_initialize i \<Longrightarrow> list_all is_byte buf'"
    and claim: "out = ReadOk n \<Longrightarrow> n \<le> length buf' \<Longrightarrow> list_all is_byte (take n buf')" for n
  proof -
    consider (safe) "should_initialize i" "safe_reader rd" | (trusted) "\<not> should_initialize i" "trusted_reader rd"
      using rd by (auto simp: initializer_sound_def split: if_splits)
    then have "length buf' = length buf \<and> (should_initialize i \<longrightarrow> list_all is_byte buf') \<and>
        (out = ReadOk n \<longrightarrow> n \<le> length buf' \<longrightarrow> list_all is_byte (take n buf'))" for n
    proof cases
      case safe
      from safe_readerD [OF safe(2) r zero [OF safe(1)]] show ?thesis
        by (auto simp: list_all_length)
    next
      case trusted
      with trusted_readerD [OF trusted(2) r] show ?thesis by simp
    qed
    then show "length buf' = length buf" "should_initialize i \<Longrightarrow> list_all is_byte buf'"
      "out = ReadOk n \<Longrightarrow> n \<le> length buf' \<Longrightarrow> list_all is_byte (take n buf')" for n by blast+
  qed
  have sizes: "g \<le> vec_len v1" "vec_len v1 \<le> length (cells v1)" "length buf' = vec_len v1 - g"
    using inv1 len by (simp_all add: fill_inv_def buf_def)
  have front: "take g ?C = take g (cells v1)" "take (length old) ?C = old"
    using inv1 sizes by (simp_all add: fill_inv_def min_def)
  have more: "fill_inv i old (g + n) v2" if "n \<le> length buf'" "list_all is_byte (take n buf')" for n
    using inv1 sizes front that filled
    by (auto simp: fill_inv_def v2_def take_append min_def list_all_append)
  have turn: "read_to_end_turn rd i reservation reserve start g v s =
      (case out of
         ReadOk n \<Rightarrow>
           (if n = 0 then Leaves (Returned (g - start)) (guard_drop g v2) s'
            else if n \<le> length buf' then Again (g + n) v2 s'
            else Leaves Panicked (guard_drop g v2) s')
       | ReadErr e \<Rightarrow>
           (if error_kind_of e = EkInterrupted then Again g v2 s'
            else Leaves (Failed e) (guard_drop g v2) s')
       | ReadPanic \<Rightarrow> Leaves Panicked (guard_drop g v2) s')"
    unfolding read_to_end_turn_def v1_def [symmetric] Let_def buf_def [symmetric] r prod.case v2_def ..
  have inv2: "fill_inv i old g v2" using more [of 0] by simp
  then have cut: "fill_inv i old (vec_len (guard_drop g v2)) (guard_drop g v2)" "vec_len (guard_drop g v2) = g"
    by (auto simp: fill_inv_def guard_drop_def set_len_def list_all_length)
  have "start \<le> g" using inv start by (simp add: fill_inv_def)
  with cut inv2 more claim show ?thesis
    unfolding turn by (cases out) auto
qed

lemma loop_fills:
  assumes result: "read_to_end_mem_loop rd i reservation reserve start g v s = Some (r, v', s')"
    and law: "reserve_law reserve" and rd: "initializer_sound i rd" and start: "start = length old"
    and inv: "fill_inv i old g v"
  shows "fill_inv i old (vec_len v') v' \<and> (\<forall>k. r = Returned k \<longrightarrow> vec_len v' = start + k)"
proof -
  let ?P = "\<lambda>rd i reservation reserve start g v s y. case y of (r, v', s') \<Rightarrow>
    reserve_law reserve \<longrightarrow> initializer_sound i rd \<longrightarrow> start = length old \<longrightarrow> fill_inv i old g v \<longrightarrow>
    fill_inv i old (vec_len v') v' \<and> (\<forall>k. r = Returned k \<longrightarrow> vec_len v' = start + k)"
  have "?P rd i reservation reserve start g v s (r, v', s')"
  proof (rule read_to_end_mem_loop.raw_induct [where P = ?P, OF _ result])
    fix loop and rd :: "'a mem_reader" and i reservation reserve start g v s y
    assume IH: "\<And>rd i reservation reserve start g v s y.
        loop rd i reservation reserve start g v s = Some y \<Longrightarrow> ?P rd i reservation reserve start g v s y"
      and y: "(case read_to_end_turn rd i reservation reserve start g v s of
          Leaves r v' s' \<Rightarrow> Some (r, v', s')
        | Again g' v' s' \<Rightarrow> loop rd i reservation reserve start g' v' s') = Some y"
    show "?P rd i reservation reserve start g v s y"
    proof (cases "read_to_end_turn rd i reservation reserve start g v s")
      case (Leaves r v' s')
      with turn_step [of i old g v reserve rd start reservation s] y show ?thesis by auto
    next
      case (Again g' v' s')
      with y have "loop rd i reservation reserve start g' v' s' = Some y" by simp
      from IH [OF this] turn_step [of i old g v reserve rd start reservation s] Again show ?thesis
        by auto
    qed
  qed
  with assms show ?thesis by simp
qed

subsection \<open>The loop on memory refines the loop on bytes\<close>

definition within :: "'s reader \<Rightarrow> bool" where
  "within rd \<longleftrightarrow> (\<forall>n s bs s'. rd n s = (Inr bs, s') \<longrightarrow> length bs \<le> n)"

lemma list_all_bytes: "list_all is_byte (map Byte bs)"
  by (induction bs) auto

lemma on_memory_trusted:
  assumes "within rd"
  shows "trusted_reader (on_memory rd)"
  unfolding trusted_reader_def
proof (intro allI impI)
  fix buf s out buf' s'
  let ?keeps = "\<lambda>c c'. is_byte c \<longrightarrow> is_byte c'"
  assume r: "on_memory rd buf s = (out, buf', s')"
  have refl: "list_all2 ?keeps cs cs" for cs by (simp add: list_all2_conv_all_nth)
  obtain res s1 where rd: "rd (length buf) s = (res, s1)" by fastforce
  show "length buf' = length buf \<and> list_all2 ?keeps buf buf' \<and>
      (\<forall>n. out = ReadOk n \<longrightarrow> n \<le> length buf \<and> list_all is_byte (take n buf'))"
  proof (cases res)
    case (Inl e)
    with r rd refl show ?thesis by (auto simp: on_memory_def)
  next
    case (Inr bs)
    with rd assms have len: "length bs \<le> length buf" by (auto simp: within_def)
    have "list_all2 ?keeps (take (length bs) buf @ drop (length bs) buf) (map Byte bs @ drop (length bs) buf)"
      using len refl by (intro list_all2_appendI) (simp_all add: list_all2_conv_all_nth)
    with r rd Inr len show ?thesis by (auto simp: on_memory_def list_all_bytes)
  qed
qed

lemma on_memory_sound: "within rd \<Longrightarrow> initializer_sound i (on_memory rd)"
  by (simp add: initializer_sound_def on_memory_trusted trusted_safe)

text \<open>The vector holds \<open>acc\<close> in its filled part; \<open>grow\<close> is what its allocator does.\<close>

definition holds :: "u8 list \<Rightarrow> vec_mem \<Rightarrow> bool" where
  "holds acc v \<longleftrightarrow> length acc \<le> vec_len v \<and> vec_len v \<le> length (cells v) \<and>
     take (length acc) (cells v) = map Byte acc"

definition allocates :: "(nat \<Rightarrow> nat \<Rightarrow> nat) \<Rightarrow> (nat \<Rightarrow> vec_mem \<Rightarrow> vec_mem) \<Rightarrow> bool" where
  "allocates grow reserve \<longleftrightarrow> reserve_law reserve \<and>
     (\<forall>k v. vec_len v \<le> length (cells v) \<longrightarrow> length (cells (reserve k v)) = grow (vec_len v) k)"

lemma stretch_holds:
  assumes "holds acc v" "length acc = vec_len v" "allocates grow reserve"
  shows "holds acc (stretch i reserve k (length acc) v)"
    "vec_len (stretch i reserve k (length acc) v) = grow (length acc) k"
proof -
  from assms have res: "length acc + k \<le> length (cells (reserve k v))"
    "take (length acc) (cells (reserve k v)) = map Byte acc"
    "length (cells (reserve k v)) = grow (length acc) k"
    unfolding allocates_def reserve_law_def holds_def by metis+
  from res(1) have "length acc \<le> length (cells (reserve k v))" by simp
  with res(2,3) show "holds acc (stretch i reserve k (length acc) v)"
    "vec_len (stretch i reserve k (length acc) v) = grow (length acc) k"
    by (auto simp: stretch_def set_len_def initialize_def holds_def Let_def min_def)
qed

lemma turn_on_memory:
  assumes holds: "holds acc v" and alloc: "allocates grow reserve" and within: "within rd"
    and avail: "avail = (if length acc = vec_len v then grow (length acc) (reservation s) else vec_len v)"
    and rd: "rd (avail - length acc) s = (res, s')"
  shows "\<exists>v'. vec_len v' = avail \<and>
    (case res of
       Inl e \<Rightarrow> holds acc v' \<and>
         read_to_end_turn (on_memory rd) i reservation reserve start (length acc) v s =
           (if error_kind_of e = EkInterrupted then Again (length acc) v' s'
            else Leaves (Failed e) (guard_drop (length acc) v') s')
     | Inr bs \<Rightarrow> holds (acc @ bs) v' \<and>
         read_to_end_turn (on_memory rd) i reservation reserve start (length acc) v s =
           (if bs = [] then Leaves (Returned (length acc - start)) (guard_drop (length acc) v') s'
            else Again (length (acc @ bs)) v' s'))"
proof -
  let ?g = "length acc"
  define v1 where "v1 = (if ?g = vec_len v then stretch i reserve (reservation s) ?g v else v)"
  have v1: "holds acc v1" "vec_len v1 = avail"
    using stretch_holds [OF holds _ alloc] holds avail by (auto simp: v1_def)
  define buf where "buf = drop ?g (take (vec_len v1) (cells v1))"
  have size: "?g \<le> avail" "avail \<le> length (cells v1)" "length buf = avail - ?g"
    "take ?g (cells v1) = map Byte acc"
    using v1 by (simp_all add: holds_def buf_def)
  have split: "cells v1 = map Byte acc @ buf @ drop avail (cells v1)"
  proof -
    have "cells v1 = take ?g (take avail (cells v1)) @ drop ?g (take avail (cells v1)) @ drop avail (cells v1)"
      by (metis append.assoc append_take_drop_id)
    then show ?thesis using size(1,4) by (simp add: buf_def v1(2) min_def)
  qed
  show ?thesis
  proof (cases res)
    case (Inl e)
    have "on_memory rd buf s = (ReadErr e, buf, s')" using rd Inl by (simp add: on_memory_def size(3))
    moreover have "v1\<lparr>cells := take ?g (cells v1) @ buf @ drop (vec_len v1) (cells v1)\<rparr> = v1"
      using split by (simp add: size(4) v1(2))
    ultimately have "read_to_end_turn (on_memory rd) i reservation reserve start ?g v s =
        (if error_kind_of e = EkInterrupted then Again ?g v1 s' else Leaves (Failed e) (guard_drop ?g v1) s')"
      unfolding read_to_end_turn_def v1_def [symmetric] Let_def buf_def [symmetric] by simp
    with v1 Inl show ?thesis by (intro exI [of _ v1]) simp
  next
    case (Inr bs)
    with rd within have len: "length bs \<le> avail - ?g" unfolding within_def by blast
    let ?buf' = "map Byte bs @ drop (length bs) buf"
    define v2 where "v2 = v1\<lparr>cells := take ?g (cells v1) @ ?buf' @ drop (vec_len v1) (cells v1)\<rparr>"
    have "on_memory rd buf s = (ReadOk (length bs), ?buf', s')"
      using rd Inr by (simp add: on_memory_def size(3))
    then have turn: "read_to_end_turn (on_memory rd) i reservation reserve start ?g v s =
        (if length bs = 0 then Leaves (Returned (?g - start)) (guard_drop ?g v2) s'
         else if length bs \<le> length ?buf' then Again (?g + length bs) v2 s'
         else Leaves Panicked (guard_drop ?g v2) s')"
      unfolding read_to_end_turn_def v1_def [symmetric] Let_def buf_def [symmetric] v2_def by simp
    have "holds (acc @ bs) v2" "vec_len v2 = avail"
      using size len v1(2) by (simp_all add: holds_def v2_def)
    with turn Inr len size(3) show ?thesis by (intro exI [of _ v2]) simp
  qed
qed

definition mem_result :: "nat \<Rightarrow> core_error + unit \<Rightarrow> u8 list \<Rightarrow> read_result" where
  "mem_result start r acc = (case r of Inl e \<Rightarrow> Failed e | Inr _ \<Rightarrow> Returned (length acc - start))"

lemma guard_holds:
  "holds acc v \<Longrightarrow> holds acc (guard_drop (length acc) v) \<and> vec_len (guard_drop (length acc) v) = length acc"
  by (simp add: holds_def guard_drop_def set_len_def)

text \<open>One turn of the loop on memory, beside the read it makes.\<close>

lemma mem_loop_step:
  fixes i :: initializer and start :: nat
  assumes holds: "holds acc v" and alloc: "allocates grow reserve" and within: "within rd"
    and avail: "avail = (if length acc = vec_len v then grow (length acc) (reservation s) else vec_len v)"
    and rd: "rd (avail - length acc) s = (res, s')"
  defines "loop \<equiv> read_to_end_mem_loop (on_memory rd) i reservation reserve start"
  shows "case res of
      Inl e \<Rightarrow>
        if error_kind_of e = EkInterrupted
        then \<exists>v'. holds acc v' \<and> vec_len v' = avail \<and> loop (length acc) v s = loop (length acc) v' s'
        else \<exists>v'. holds acc v' \<and> vec_len v' = length acc \<and> loop (length acc) v s = Some (Failed e, v', s')
    | Inr bs \<Rightarrow>
        if bs = []
        then \<exists>v'. holds acc v' \<and> vec_len v' = length acc \<and>
          loop (length acc) v s = Some (Returned (length acc - start), v', s')
        else \<exists>v'. holds (acc @ bs) v' \<and> vec_len v' = avail \<and>
          loop (length acc) v s = loop (length (acc @ bs)) v' s'"
proof -
  note unfold = read_to_end_mem_loop.simps [of "on_memory rd" i reservation reserve start "length acc" v s]
  note turn = turn_on_memory [where reservation = reservation and s = s and avail = avail and
      i = i and start = start, OF holds alloc within avail rd]
  show ?thesis
  proof (cases res)
    case (Inl e)
    with turn obtain v1 where "vec_len v1 = avail" "holds acc v1"
      "read_to_end_turn (on_memory rd) i reservation reserve start (length acc) v s =
        (if error_kind_of e = EkInterrupted then Again (length acc) v1 s'
         else Leaves (Failed e) (guard_drop (length acc) v1) s')" by auto
    with guard_holds show ?thesis unfolding loop_def unfold by (auto simp: Inl)
  next
    case (Inr bs)
    with turn obtain v1 where "vec_len v1 = avail" "holds (acc @ bs) v1"
      "read_to_end_turn (on_memory rd) i reservation reserve start (length acc) v s =
        (if bs = [] then Leaves (Returned (length acc - start)) (guard_drop (length acc) v1) s'
         else Again (length (acc @ bs)) v1 s')" by auto
    with guard_holds [of acc v1] show ?thesis unfolding loop_def unfold by (auto simp: Inr)
  qed
qed

lemma loop_on_memory:
  assumes result: "read_to_end_loop rd reservation grow used avail acc s = Some (r, acc', s')"
    and within: "within rd" and alloc: "allocates grow reserve"
    and v: "holds acc v" "used = length acc" "avail = vec_len v"
  shows "\<exists>v'. read_to_end_mem_loop (on_memory rd) i reservation reserve start used v s =
      Some (mem_result start r acc', v', s') \<and> holds acc' v' \<and> vec_len v' = length acc'"
proof -
  let ?P = "\<lambda>rd reservation grow used avail acc s y. case y of (r, acc', s') \<Rightarrow>
    within rd \<longrightarrow> allocates grow reserve \<longrightarrow> used = length acc \<longrightarrow>
    (\<forall>v. holds acc v \<longrightarrow> avail = vec_len v \<longrightarrow>
      (\<exists>v'. read_to_end_mem_loop (on_memory rd) i reservation reserve start used v s =
        Some (mem_result start r acc', v', s') \<and> holds acc' v' \<and> vec_len v' = length acc'))"
  have "?P rd reservation grow used avail acc s (r, acc', s')"
  proof (rule read_to_end_loop.raw_induct [where P = ?P, OF _ result], unfold split_paired_all prod.case,
      intro impI allI)
    fix loop and rd :: "'a reader" and reservation grow used avail acc s r acc' s' v
    assume IH: "\<And>rd reservation grow used avail acc s r acc' s'.
        loop rd reservation grow used avail acc s = Some (r, acc', s') \<Longrightarrow>
        within rd \<longrightarrow> allocates grow reserve \<longrightarrow> used = length acc \<longrightarrow>
        (\<forall>v. holds acc v \<longrightarrow> avail = vec_len v \<longrightarrow>
          (\<exists>v'. read_to_end_mem_loop (on_memory rd) i reservation reserve start used v s =
            Some (mem_result start r acc', v', s') \<and> holds acc' v' \<and> vec_len v' = length acc'))"
      and y: "(let avail' = if used = avail then grow used (reservation s) else avail
        in case rd (avail' - used) s of
             (Inl e, s') \<Rightarrow>
               if error_kind_of e = EkInterrupted
               then loop rd reservation grow used avail' acc s'
               else Some (Inl e, acc, s')
           | (Inr bs, s') \<Rightarrow>
               if bs = [] then Some (Inr (), acc, s')
               else loop rd reservation grow (used + length bs) avail' (acc @ bs) s') = Some (r, acc', s')"
      and within: "within rd" and alloc: "allocates grow reserve" and used: "used = length acc"
      and v: "holds acc v" "avail = vec_len v"
    define avail' where "avail' = (if length acc = vec_len v then grow (length acc) (reservation s) else vec_len v)"
    obtain res s1 where rd: "rd (avail' - length acc) s = (res, s1)" by fastforce
    note step = mem_loop_step [where reservation = reservation and s = s and avail = avail' and
        i = i and start = start, OF v(1) alloc within avail'_def rd]
    have y': "(case res of
        Inl e \<Rightarrow> if error_kind_of e = EkInterrupted then loop rd reservation grow (length acc) avail' acc s1
          else Some (Inl e, acc, s1)
      | Inr bs \<Rightarrow> if bs = [] then Some (Inr (), acc, s1)
          else loop rd reservation grow (length (acc @ bs)) avail' (acc @ bs) s1) = Some (r, acc', s')"
      using y unfolding Let_def used v(2) avail'_def [symmetric] rd prod.case length_append .
    show "\<exists>v'. read_to_end_mem_loop (on_memory rd) i reservation reserve start used v s =
        Some (mem_result start r acc', v', s') \<and> holds acc' v' \<and> vec_len v' = length acc'"
      using step y' IH [rule_format, OF _ within alloc refl] unfolding used
      by (cases res) (force simp: mem_result_def split: if_splits)+
  qed
  with within alloc v show ?thesis by simp
qed

text \<open>What \<open>read_to_end\<close> of \<open>Core2_Io\<close> returns is what the vector holds in memory.\<close>

lemma read_to_end_on_memory:
  assumes "read_to_end rd reservation grow buf s = Some (r, buf', s')" "within rd" "allocates grow reserve"
    and "holds buf v" "vec_len v = length buf"
  shows "\<exists>v'. read_to_end_mem (on_memory rd) i reservation reserve v s =
      Some (case r of Inl e \<Rightarrow> Failed e | Inr n \<Rightarrow> Returned n, v', s') \<and>
    holds buf' v' \<and> vec_len v' = length buf'"
proof -
  from assms(1) obtain r0 where loop: "read_to_end_loop rd reservation grow (length buf) (length buf) buf s =
      Some (r0, buf', s')" and r: "r = (case r0 of Inl e \<Rightarrow> Inl e | Inr _ \<Rightarrow> Inr (length buf' - length buf))"
    by (auto simp: read_to_end_def split: option.splits prod.splits sum.splits)
  from loop_on_memory [OF loop assms(2,3,4) refl] assms(5) show ?thesis
    by (cases r0) (auto simp: read_to_end_mem_def mem_result_def r)
qed

text \<open>C37. \<open>read_to_end\<close> keeps uninitialised memory inside: however it ends, with a count, an error or
  a panic of the reader or of its own assertion, the vector it leaves holds what it held before
  followed by bytes only, within its allocation, and the count is what was added. This needs no
  honesty of a reader that is handed zeroed memory, and only the promise of \<open>nop\<close> of one that
  is not. \<open>Take\<close> around such a reader, and \<open>Chain\<close> of two, are such readers with the initializers
  they report.\<close>

theorem read_to_end_memory_safe:
  assumes "vec_ok v" "reserve_law reserve" "initializer_sound i rd"
    and "read_to_end_mem rd i reservation reserve v s = Some (r, v', s')" and "initializer_sound j rd2"
  shows "vec_ok v' \<and> take (vec_len v) (cells v') = take (vec_len v) (cells v) \<and> vec_len v \<le> vec_len v' \<and>
    (\<forall>k. r = Returned k \<longrightarrow> vec_len v' = vec_len v + k) \<and>
    initializer_sound i (take_read_mem rd) \<and>
    initializer_sound (chain_initializer i j) (chain_read_mem rd rd2)"
proof -
  let ?old = "take (vec_len v) (cells v)"
  have old: "length ?old = vec_len v" and inv: "fill_inv i ?old (vec_len v) v"
    using assms(1) by (simp_all add: vec_ok_def fill_inv_def)
  have "fill_inv i ?old (vec_len v') v' \<and> (\<forall>k. r = Returned k \<longrightarrow> vec_len v' = vec_len v + k)"
    by (rule loop_fills [OF assms(4) [unfolded read_to_end_mem_def] assms(2,3) old [symmetric] inv])
  moreover from this have "take (vec_len v) (cells v') = ?old" "vec_len v \<le> vec_len v'"
    by (simp_all only: fill_inv_def old)
  ultimately have "vec_ok v' \<and> take (vec_len v) (cells v') = ?old \<and> vec_len v \<le> vec_len v' \<and>
      (\<forall>k. r = Returned k \<longrightarrow> vec_len v' = vec_len v + k)"
    by (simp add: fill_inv_def vec_ok_def)
  with take_initializer_sound [OF assms(3)] chain_initializer_sound [OF assms(3,5)] show ?thesis by blast
qed

text \<open>An allocator that makes exactly the room it is asked for, and leaves it uninitialised.\<close>

definition exact_reserve :: "nat \<Rightarrow> vec_mem \<Rightarrow> vec_mem" where
  "exact_reserve k v = v\<lparr>cells := take (vec_len v) (cells v) @ replicate k Uninit\<rparr>"

lemma exact_reserve_allocates: "allocates (+) exact_reserve"
  by (simp add: allocates_def reserve_law_def exact_reserve_def)

theorem read_to_end_memory_safe_witness:
  "\<exists>v' s'. read_to_end_mem (on_memory slice_read) nop (\<lambda>s. 32) exact_reserve (vec_of_bytes [1]) [2, 3] =
     Some (Returned 2, v', s') \<and> vec_ok v' \<and> vec_len v' = 3 \<and> take 1 (cells v') = [Byte 1]"
proof -
  have within: "within slice_read" by (auto simp: within_def slice_read_def Let_def)
  have old: "vec_ok (vec_of_bytes [1])" "holds [1] (vec_of_bytes [1])" "vec_len (vec_of_bytes [1]) = length [1::u8]"
    by (simp_all add: vec_ok_def vec_of_bytes_def holds_def)
  have "grows (+)" by (simp add: grows_def)
  from slice_reader.read_to_end_result [OF this, where s = "[2, 3]" and buf = "[1]"
      and reservation = "\<lambda>s. 32"] obtain s' where
    "read_to_end slice_read (\<lambda>s. 32) (+) [1] [2, 3] = Some (Inr 2, [1, 2, 3], s')" by auto
  from read_to_end_on_memory [OF this within exact_reserve_allocates old(2,3), of nop] obtain v' where
    v': "read_to_end_mem (on_memory slice_read) nop (\<lambda>s. 32) exact_reserve (vec_of_bytes [1]) [2, 3] =
      Some (Returned 2, v', s')" by auto
  have "reserve_law exact_reserve" using exact_reserve_allocates by (simp add: allocates_def)
  from read_to_end_memory_safe [OF old(1) this on_memory_sound [OF within] v' on_memory_sound [OF within], of nop]
    v' show ?thesis by (simp add: vec_of_bytes_def)
qed

end
