(* ===== verification/Core2_Access.thy ===== *)
theory Core2_Access
  imports Core2_Format
begin

section \<open>core2: making, opening and converting (io/traits.rs, io/cursor.rs, io/error.rs, io/buffered.rs)\<close>

text \<open>
  The methods that build an adapter from a reader and take it apart again, the accessors, and the
  conversions between the error types. What they promise shows in use: a reader that was limited
  with \<open>take\<close> and taken back continues where the limit stopped, and an error keeps its kind and
  text on the way from the standard library.
\<close>

subsection \<open>Adapters\<close>

definition read_take :: "'s \<Rightarrow> u64 \<Rightarrow> 's take_reader" where
  "read_take s limit = \<lparr>take_inner = s, take_limit = limit\<rparr>"

definition take_get_limit :: "'s take_reader \<Rightarrow> u64" where
  "take_get_limit t = take_limit t"

definition take_set_limit :: "u64 \<Rightarrow> 's take_reader \<Rightarrow> 's take_reader" where
  "take_set_limit limit t = t\<lparr>take_limit := limit\<rparr>"

definition take_into_inner :: "'s take_reader \<Rightarrow> 's" where
  "take_into_inner t = take_inner t"

definition read_chain :: "'s \<Rightarrow> 't \<Rightarrow> ('s, 't) chain_reader" where
  "read_chain s next_reader = \<lparr>chain_first = s, chain_second = next_reader, done_first = False\<rparr>"

definition chain_into_inner :: "('s, 't) chain_reader \<Rightarrow> 's \<times> 't" where
  "chain_into_inner c = (chain_first c, chain_second c)"

definition cursor_into_inner :: "cursor \<Rightarrow> u8 list" where
  "cursor_into_inner c = cursor_inner c"

definition cursor_position :: "cursor \<Rightarrow> u64" where
  "cursor_position c = cursor_pos c"

definition buf_reader_capacity :: "'s buf_reader \<Rightarrow> nat" where
  "buf_reader_capacity b = length (br_buf b)"

definition buf_reader_into_inner :: "'s buf_reader \<Rightarrow> 's" where
  "buf_reader_into_inner b = br_inner b"

text \<open>
  While a limited reader is read, what lies beyond the limit stays: the contract of the limited
  reader holds with that as part of its state.
\<close>

context limited_reader
begin

lemma take_read_keeps_rest:
  assumes "valid (take_inner t)" "content (take_inner t) = take_content content t @ rest"
  shows "\<exists>bs t'. take_read rd n t = (Inr bs, t') \<and>
    (valid (take_inner t') \<and> content (take_inner t') = take_content content t' @ rest) \<and>
    length bs \<le> n \<and> take_content content t = bs @ take_content content t' \<and>
    (bs = [] \<longrightarrow> n = 0 \<or> take_content content t = [])"
proof -
  obtain bs t' where step: "take_read rd n t = (Inr bs, t')" "valid (take_inner t')" "length bs \<le> n"
    "take_content content t = bs @ take_content content t'"
    "bs = [] \<longrightarrow> n = 0 \<or> take_content content t = []"
    using take_read_prefix [OF assms(1), of n] by blast
  have "content (take_inner t) = bs @ content (take_inner t')"
  proof (cases "take_limit t = 0")
    case True
    with step(1) show ?thesis by (auto simp: take_read_def)
  next
    case False
    obtain bs0 s0 where "rd (min n (unat (take_limit t))) (take_inner t) = (Inr bs0, s0)"
      "content (take_inner t) = bs0 @ content s0"
      using inner.readE [OF assms(1), of "min n (unat (take_limit t))"] by blast
    with False step(1) show ?thesis by (auto simp: take_read_def)
  qed
  with assms(2) step(4) have "content (take_inner t') = take_content content t' @ rest" by simp
  with step show ?thesis by blast
qed

lemma read_to_end_keeps_rest:
  assumes "grows grow" "valid s"
  shows "\<exists>t'. read_to_end (take_read rd) take_reservation grow buf (read_take s limit) =
      Some (Inr (min (unat limit) (length (content s))), buf @ take (unat limit) (content s), t') \<and>
    content (take_into_inner t') = drop (unat limit) (content s)"
proof -
  define rest where "rest = drop (unat limit) (content s)"
  have reader: "byte_reader (take_read rd) (take_content content)
      (\<lambda>t. valid (take_inner t) \<and> content (take_inner t) = take_content content t @ rest)"
    by unfold_locales (rule take_read_keeps_rest; blast)
  have "0 < take_reservation t" if "take_content content t \<noteq> []" for t
    using that by (auto simp: take_content_def take_reservation_def unat_gt_0 min_def)
  moreover have "valid (take_inner (read_take s limit)) \<and> content (take_inner (read_take s limit)) =
      take_content content (read_take s limit) @ rest"
    using assms(2) by (simp add: read_take_def take_content_def rest_def)
  ultimately obtain t' where "read_to_end (take_read rd) take_reservation grow buf (read_take s limit) =
      Some (Inr (length (take_content content (read_take s limit))),
        buf @ take_content content (read_take s limit), t')"
    "content (take_inner t') = take_content content t' @ rest" "take_content content t' = []"
    using byte_reader.read_to_end_result [OF reader assms(1), of take_reservation "read_take s limit" buf]
    by blast
  then show ?thesis
    by (intro exI [of _ t'])
      (simp add: read_take_def rest_def take_into_inner_def, simp add: take_content_def min.commute)
qed

end

text \<open>For cursors: the limit's bytes are read, the cursor stands behind them.\<close>

lemma take_then_rest:
  assumes "grows grow" "cursor_valid c"
  shows "\<exists>t'. read_to_end (take_read cursor_read) take_reservation grow buf (read_take c limit) =
      Some (Inr (min (unat limit) (length (cursor_fill_buf c))), buf @ take (unat limit) (cursor_fill_buf c), t') \<and>
    cursor_fill_buf (take_into_inner t') = drop (unat limit) (cursor_fill_buf c)"
  by (rule limited_cursor.read_to_end_keeps_rest [OF assms])

text \<open>A chain starts with both contents; a new limit counts from the present position.\<close>

lemma read_chain_content:
  "chain_content content1 content2 (read_chain s t) = content1 s @ content2 t"
  "chain_into_inner (read_chain s t) = (s, t)"
  by (simp_all add: read_chain_def chain_content_def chain_into_inner_def)

lemma set_limit_content:
  "take_content content (take_set_limit limit t) = take (unat limit) (content (take_into_inner t))"
  "take_get_limit (take_set_limit limit t) = limit"
  by (simp_all add: take_set_limit_def take_content_def take_into_inner_def take_get_limit_def)

text \<open>What a buffered reader holds back is lost when it is taken apart, and nothing else.\<close>

lemma buf_reader_into_inner_content:
  "buf_reader_content content b = buf_reader_buffer b @ content (buf_reader_into_inner b)"
  by (simp add: buf_reader_content_def buf_reader_into_inner_def)

subsection \<open>Errors\<close>

definition error_new_raw :: "error_kind \<Rightarrow> string \<Rightarrow> core_error" where
  "error_new_raw k e = Custom k e"

definition error_new :: "error_kind \<Rightarrow> string \<Rightarrow> core_error" where
  "error_new k e = error_new_raw k e"

definition error_from_kind :: "error_kind \<Rightarrow> core_error" where
  "error_from_kind k = Simple k"

fun error_into_inner :: "core_error \<Rightarrow> string option" where
  "error_into_inner (Simple _) = None"
| "error_into_inner (Custom _ e) = Some e"

text \<open>\<open>std::io::ErrorKind\<close>: the kinds the conversion names, and the ones it does not.\<close>

datatype std_error_kind =
    StdNotFound | StdPermissionDenied | StdConnectionRefused | StdConnectionReset
  | StdConnectionAborted | StdNotConnected | StdAddrInUse | StdAddrNotAvailable | StdBrokenPipe
  | StdAlreadyExists | StdWouldBlock | StdInvalidInput | StdInvalidData | StdTimedOut | StdWriteZero
  | StdInterrupted | StdOther | StdUnexpectedEof | StdUnlisted nat

fun kind_from_std :: "std_error_kind \<Rightarrow> error_kind" where
  "kind_from_std StdNotFound = EkNotFound"
| "kind_from_std StdPermissionDenied = EkPermissionDenied"
| "kind_from_std StdConnectionRefused = EkConnectionRefused"
| "kind_from_std StdConnectionReset = EkConnectionReset"
| "kind_from_std StdConnectionAborted = EkConnectionAborted"
| "kind_from_std StdNotConnected = EkNotConnected"
| "kind_from_std StdAddrInUse = EkAddrInUse"
| "kind_from_std StdAddrNotAvailable = EkAddrNotAvailable"
| "kind_from_std StdBrokenPipe = EkBrokenPipe"
| "kind_from_std StdAlreadyExists = EkAlreadyExists"
| "kind_from_std StdWouldBlock = EkWouldBlock"
| "kind_from_std StdInvalidInput = EkInvalidInput"
| "kind_from_std StdInvalidData = EkInvalidData"
| "kind_from_std StdTimedOut = EkTimedOut"
| "kind_from_std StdWriteZero = EkWriteZero"
| "kind_from_std StdInterrupted = EkInterrupted"
| "kind_from_std StdOther = EkOther"
| "kind_from_std StdUnexpectedEof = EkUnexpectedEof"
| "kind_from_std (StdUnlisted _) = EkUncategorized"

definition error_from_std :: "std_error_kind \<Rightarrow> core_error" where
  "error_from_std k = error_from_kind (kind_from_std k)"

text \<open>No two listed kinds are confused, and only the unlisted ones become \<open>Uncategorized\<close>.\<close>

lemma kind_from_std_faithful:
  "kind_from_std k = kind_from_std k' \<Longrightarrow> k = k' \<or> (\<exists>i j. k = StdUnlisted i \<and> k' = StdUnlisted j)"
  by (cases k; cases k'; simp)

lemma kind_from_std_onto:
  assumes "e \<noteq> EkUncategorized"
  shows "e \<in> range kind_from_std"
proof (cases e)
  case EkUncategorized
  with assms show ?thesis by simp
qed (rule range_eqI, (simp, rule kind_from_std.simps(1-18) [symmetric]))+

text \<open>Kind, payload and text survive the constructors.\<close>

lemma error_round_trips:
  "error_kind_of (error_new k e) = k" "error_into_inner (error_new k e) = Some e"
  "error_display (error_new k e) = e" "error_kind_of (error_from_std s) = kind_from_std s"
  "error_into_inner x = error_get_ref x" "error_display (error_from_std s) = as_str (kind_from_std s)"
  by (simp_all add: error_new_def error_new_raw_def error_from_std_def error_from_kind_def)
    (cases x; simp)

text \<open>The error of a failed \<open>into_inner\<close> becomes the error it carries, and prints as it.\<close>

definition error_from_into_inner :: "'s into_inner_error \<Rightarrow> core_error" where
  "error_from_into_inner e = into_inner_error_error e"

definition into_inner_error_display :: "'s into_inner_error \<Rightarrow> string" where
  "into_inner_error_display e = error_display (into_inner_error_error e)"

subsection \<open>Accessors of the buffered writer, and the writers' remaining methods\<close>

definition buf_writer_buffer :: "'s buf_writer \<Rightarrow> u8 list" where
  "buf_writer_buffer b = bw_buf b"

definition buf_writer_capacity :: "'s buf_writer \<Rightarrow> nat" where
  "buf_writer_capacity b = length (bw_buf b)"

text \<open>
  \<open>buffer\<close> is documented as the data buffered so far; it is the whole array, so the space
  that its documentation computes from it is always nothing.
\<close>

lemma buf_writer_buffer_whole:
  "buf_writer_capacity b - length (buf_writer_buffer b) = 0"
  "buf_writer_buffer (buf_writer_new n s) = replicate n 0"
  by (simp_all add: buf_writer_capacity_def buf_writer_buffer_def buf_writer_new_def)

definition vec_write_all :: "u8 list \<Rightarrow> u8 list \<Rightarrow> (core_error + unit) \<times> u8 list" where
  "vec_write_all data v = (Inr (), v @ data)"

text \<open>The override of \<open>Vec\<close> does what the default loop does.\<close>

lemma vec_write_all_default: "write_all vec_write data v = Some (vec_write_all data v)"
  by (simp add: write_all_vec vec_write_all_def)

end
