(* ===== verification/Core2_Tests.thy ===== *)
theory Core2_Tests
  imports Core2_Access Core2_Buf_Read
begin

section \<open>The tests of core2 (patches/core2-0.4.0/tests/tests.rs, io/cursor.rs)\<close>

text \<open>
  The tests of the I/O crate that are not commented out, on the model. As in the Rust tests, a
  loop returns or the test does not pass; a comparison of two buffered readers is a loop too.
\<close>

definition byte_string :: "string \<Rightarrow> u8 list" where
  "byte_string text = map of_char text"

definition error_of :: "(core_error + 'a) \<times> 'b \<Rightarrow> error_kind option" where
  "error_of res = (case fst res of Inl e \<Rightarrow> Some (error_kind_of e) | Inr _ \<Rightarrow> None)"

subsection \<open>Reading exactly\<close>

text \<open>An empty cursor; then 123 chained with 456789, read four at a time.\<close>

type_synonym cursor_pair = "(cursor, cursor) chain_reader"

definition read_pair ::
    "cursor_pair \<Rightarrow> ((core_error + unit) \<times> u8 list \<times> cursor_pair) option" where
  "read_pair c = read_exact (chain_read cursor_read cursor_read) 4 c"

definition read_exact_test :: "bool option" where
  "read_exact_test =
     do {
       (r1, buf1, c1) \<leftarrow> read_pair (read_chain (cursor_new (byte_string ''123'')) (cursor_new (byte_string ''456789'')));
       (r2, buf2, c2) \<leftarrow> read_pair c1;
       (r3, buf3, c3) \<leftarrow> read_pair c2;
       Some (error_of (cursor_read_exact 4 (cursor_new [])) = Some EkUnexpectedEof \<and>
         r1 = Inr () \<and> buf1 = byte_string ''1234'' \<and> r2 = Inr () \<and> buf2 = byte_string ''5678'' \<and>
         error_of (r3, c3) = Some EkUnexpectedEof)
     }"

definition read_exact_slice_test :: bool where
  "read_exact_slice_test \<longleftrightarrow>
     error_of (slice_read_exact 4 []) = Some EkUnexpectedEof \<and>
     error_of (slice_read_exact 4 (byte_string ''123'')) = Some EkUnexpectedEof \<and>
     fst (slice_read_exact 4 (byte_string ''1234'')) = Inr (byte_string ''1234'') \<and>
     slice_read_exact 4 (byte_string ''56789'') = (Inr (byte_string ''5678''), byte_string ''9'')"

subsection \<open>Limits and chains\<close>

text \<open>The reader that always fails.\<close>

definition failing_read :: "unit reader" where
  "failing_read n s = (Inl (error_new EkOther ''''), s)"

definition failing_fill_buf :: "unit filler" where
  "failing_fill_buf s = (Inl (error_new EkOther ''''), s)"

definition take_eof :: bool where
  "take_eof \<longleftrightarrow>
     fst (take_read failing_read 1 (read_take () 0)) = Inr [] \<and>
     fst (take_fill_buf failing_fill_buf (read_take () 0)) = Inr []"

text \<open>
  \<open>cmp_bufread\<close>: what both readers show is compared and consumed until one shows nothing. \<open>None\<close>
  is a failed assertion, a failed read, or no return.
\<close>

partial_function (option) cmp_loop ::
    "'s filler \<Rightarrow> 's consumer \<Rightarrow> 't filler \<Rightarrow> 't consumer \<Rightarrow> u8 list \<Rightarrow> 's \<Rightarrow> 't
      \<Rightarrow> (u8 list \<times> 's \<times> 't) option" where
  "cmp_loop fb1 cons1 fb2 cons2 cat s t =
     (case (fb1 s, fb2 t) of
        ((Inr buf1, s'), (Inr buf2, t')) \<Rightarrow>
          (let minlen = min (length buf1) (length buf2)
           in if take minlen buf1 \<noteq> take minlen buf2 then None
              else if minlen = 0 then Some (cat, s', t')
              else cmp_loop fb1 cons1 fb2 cons2 (cat @ take minlen buf1) (cons1 minlen s') (cons2 minlen t'))
      | _ \<Rightarrow> None)"

definition cmp_bufread ::
    "'s filler \<Rightarrow> 's consumer \<Rightarrow> 't filler \<Rightarrow> 't consumer \<Rightarrow> 's \<Rightarrow> 't \<Rightarrow> u8 list \<Rightarrow> bool" where
  "cmp_bufread fb1 cons1 fb2 cons2 br1 br2 expected =
     (case cmp_loop fb1 cons1 fb2 cons2 [] br1 br2 of
        None \<Rightarrow> False
      | Some (cat, s, t) \<Rightarrow> fst (fb1 s) = Inr [] \<and> fst (fb2 t) = Inr [] \<and> cat = expected)"

text \<open>
  Two sources of the same bytes agree, however each of them cuts the bytes into buffers: the loop
  returns, with all the bytes, and leaves nothing in either.
\<close>

locale two_sources =
  one: buf_source fb1 cons1 content1 valid1 + two: buf_source fb2 cons2 content2 valid2
  for fb1 :: "'s filler" and cons1 :: "'s consumer" and content1 :: "'s \<Rightarrow> u8 list" and valid1 :: "'s \<Rightarrow> bool"
    and fb2 :: "'t filler" and cons2 :: "'t consumer" and content2 :: "'t \<Rightarrow> u8 list" and valid2 :: "'t \<Rightarrow> bool"
begin

lemma cmp_loop_result:
  "valid1 s \<Longrightarrow> valid2 t \<Longrightarrow> content1 s = content2 t \<Longrightarrow>
     \<exists>s' t'. cmp_loop fb1 cons1 fb2 cons2 cat s t = Some (cat @ content1 s, s', t') \<and>
       valid1 s' \<and> valid2 t' \<and> content1 s' = [] \<and> content2 t' = []"
proof (induction "length (content1 s)" arbitrary: cat s t rule: less_induct)
  case less
  obtain b1 s1 where s1: "fb1 s = (Inr b1, s1)" "valid1 s1" "content1 s1 = content1 s"
    "take (length b1) (content1 s) = b1" "b1 = [] \<Longrightarrow> content1 s = []"
    using one.fillE [OF less.prems(1)] by blast
  obtain b2 t1 where t1: "fb2 t = (Inr b2, t1)" "valid2 t1" "content2 t1 = content2 t"
    "take (length b2) (content2 t) = b2" "b2 = [] \<Longrightarrow> content2 t = []"
    using two.fillE [OF less.prems(2)] by blast
  define n where n: "n = min (length b1) (length b2)"
  have prefix: "take n b1 = take n (content1 s)" "take n b2 = take n (content1 s)"
    using s1(4) t1(4) less.prems(3) by (simp_all add: n) (metis take_take min.commute min.left_idem)+
  show ?case
  proof (cases "n = 0")
    case True
    then have "content1 s = []" using s1(5) t1(5) less.prems(3) by (auto simp: n min_def split: if_splits)
    with True s1 t1 prefix less.prems(3) show ?thesis
      by (intro exI [of _ s1] exI [of _ t1]) (subst cmp_loop.simps, simp add: n [symmetric])
  next
    case False
    have s2: "valid1 (cons1 n s1)" "content1 (cons1 n s1) = drop n (content1 s)"
      using one.consume_shown [OF less.prems(1) s1(1), of n] by (simp_all add: n)
    have t2: "valid2 (cons2 n t1)" "content2 (cons2 n t1) = drop n (content1 s)"
      using two.consume_shown [OF less.prems(2) t1(1), of n] less.prems(3) by (simp_all add: n)
    have "content1 s \<noteq> []" using False s1(4) by (auto simp: n)
    then have "length (content1 (cons1 n s1)) < length (content1 s)" using False s2 by simp
    from less.hyps [OF this s2(1) t2(1), of "cat @ take n b1"] s2(2) t2(2) obtain s' t' where
      "cmp_loop fb1 cons1 fb2 cons2 (cat @ take n b1) (cons1 n s1) (cons2 n t1) =
         Some ((cat @ take n b1) @ drop n (content1 s), s', t')"
      "valid1 s'" "valid2 t'" "content1 s' = []" "content2 t' = []" by auto
    moreover have "cmp_loop fb1 cons1 fb2 cons2 cat s t =
        cmp_loop fb1 cons1 fb2 cons2 (cat @ take n b1) (cons1 n s1) (cons2 n t1)"
      using False s1(1) t1(1) prefix by (subst cmp_loop.simps) (simp add: n [symmetric])
    ultimately show ?thesis by (intro exI [of _ s'] exI [of _ t']) (simp add: prefix)
  qed
qed

lemma same_content_agrees:
  assumes "valid1 s" "valid2 t" "content1 s = content2 t"
  shows "cmp_bufread fb1 cons1 fb2 cons2 s t (content1 s)"
proof -
  from cmp_loop_result [OF assms, of "[]"] obtain s' t' where
    loop: "cmp_loop fb1 cons1 fb2 cons2 [] s t = Some (content1 s, s', t')"
    and ends: "valid1 s'" "valid2 t'" "content1 s' = []" "content2 t' = []" by auto
  have "fst (fb1 s') = Inr []" using one.fillE [OF ends(1)] ends(3) by (metis fst_conv take_Nil)
  moreover have "fst (fb2 t') = Inr []" using two.fillE [OF ends(2)] ends(4) by (metis fst_conv take_Nil)
  ultimately show ?thesis using loop by (simp add: cmp_bufread_def)
qed

end

text \<open>The chains of the test, three and four slices long.\<close>

abbreviation slice_consume_shown :: "u8 list consumer" where
  "slice_consume_shown \<equiv> (\<lambda>k s. the (slice_consume k s))"

abbreviation fill2 :: "(u8 list, u8 list) chain_reader filler" where
  "fill2 \<equiv> chain_fill_buf slice_fill_buf slice_fill_buf"

abbreviation consume2 :: "(u8 list, u8 list) chain_reader consumer" where
  "consume2 \<equiv> chain_consume slice_consume_shown slice_consume_shown"

abbreviation fill3 :: "((u8 list, u8 list) chain_reader, u8 list) chain_reader filler" where
  "fill3 \<equiv> chain_fill_buf fill2 slice_fill_buf"

abbreviation consume3 :: "((u8 list, u8 list) chain_reader, u8 list) chain_reader consumer" where
  "consume3 \<equiv> chain_consume consume2 slice_consume_shown"

definition chain_bufread :: bool where
  "chain_bufread =
     (let testdata = byte_string ''ABCDEFGHIJKL'';
          chain1 = read_chain (read_chain (read_chain (take 3 testdata) (take 3 (drop 3 testdata)))
            (take 3 (drop 6 testdata))) (drop 9 testdata);
          chain2 = read_chain (read_chain (take 4 testdata) (take 4 (drop 4 testdata))) (drop 8 testdata)
      in cmp_bufread (chain_fill_buf fill3 slice_fill_buf) (chain_consume consume3 slice_consume_shown)
           fill3 consume3 chain1 chain2 testdata)"

subsection \<open>A writer of two bytes a call\<close>

record test_writer =
  tw_written :: "u8 list"
  tw_per_call :: nat

definition test_writer_new :: test_writer where
  "test_writer_new = \<lparr>tw_written = [], tw_per_call = 2\<rparr>"

definition test_write :: "test_writer writer" where
  "test_write buf w =
     (let n = min (tw_per_call w) (length buf)
      in (Inr n, w\<lparr>tw_written := tw_written w @ take n buf\<rparr>))"

definition test_writer_read_from_one_buf :: bool where
  "test_writer_read_from_one_buf =
     (let (r0, w) = test_write [] test_writer_new;
          (r1, w) = test_write [1, 1, 1] w;
          (r2, w) = test_write [2, 2, 2] w;
          (r3, w) = test_write [3] w
      in r0 = Inr 0 \<and> r1 = Inr 2 \<and> r2 = Inr 2 \<and> r3 = Inr 1 \<and> tw_written w = [1, 1, 2, 2, 3])"

subsection \<open>The tests pass\<close>

interpretation slices2: chained_sources
  slice_fill_buf slice_consume_shown "\<lambda>s. s" "\<lambda>s. True"
  slice_fill_buf slice_consume_shown "\<lambda>s. s" "\<lambda>s. True"
  by unfold_locales

interpretation slices3: chained_sources
  fill2 consume2 "chain_content (\<lambda>s. s) (\<lambda>s. s)" "chain_valid (\<lambda>s. True) (\<lambda>s. True)"
  slice_fill_buf slice_consume_shown "\<lambda>s. s" "\<lambda>s. True"
  by unfold_locales

interpretation slices4: chained_sources
  fill3 consume3 "chain_content (chain_content (\<lambda>s. s) (\<lambda>s. s)) (\<lambda>s. s)"
  "chain_valid (chain_valid (\<lambda>s. True) (\<lambda>s. True)) (\<lambda>s. True)"
  slice_fill_buf slice_consume_shown "\<lambda>s. s" "\<lambda>s. True"
  by unfold_locales

interpretation chains: two_sources
  "chain_fill_buf fill3 slice_fill_buf" "chain_consume consume3 slice_consume_shown"
  "chain_content (chain_content (chain_content (\<lambda>s. s) (\<lambda>s. s)) (\<lambda>s. s)) (\<lambda>s. s)"
  "chain_valid (chain_valid (chain_valid (\<lambda>s. True) (\<lambda>s. True)) (\<lambda>s. True)) (\<lambda>s. True)"
  fill3 consume3 "chain_content (chain_content (\<lambda>s. s) (\<lambda>s. s)) (\<lambda>s. s)"
  "chain_valid (chain_valid (\<lambda>s. True) (\<lambda>s. True)) (\<lambda>s. True)"
  by unfold_locales

interpretation cursors: chained_readers cursor_read cursor_fill_buf cursor_valid
  cursor_read cursor_fill_buf cursor_valid
  by unfold_locales

lemma chain_bufread_passes: "chain_bufread"
proof -
  let ?d = "byte_string ''ABCDEFGHIJKL''"
  have whole: "chain_content (chain_content (chain_content (\<lambda>s. s) (\<lambda>s. s)) (\<lambda>s. s)) (\<lambda>s. s)
      (read_chain (read_chain (read_chain (take 3 ?d) (take 3 (drop 3 ?d))) (take 3 (drop 6 ?d))) (drop 9 ?d)) = ?d"
    "chain_content (chain_content (\<lambda>s. s) (\<lambda>s. s)) (\<lambda>s. s)
      (read_chain (read_chain (take 4 ?d) (take 4 (drop 4 ?d))) (drop 8 ?d)) = ?d"
    by code_simp+
  show ?thesis unfolding chain_bufread_def Let_def
    by (rule chains.same_content_agrees [of
        "read_chain (read_chain (read_chain (take 3 ?d) (take 3 (drop 3 ?d))) (take 3 (drop 6 ?d))) (drop 9 ?d)"
        "read_chain (read_chain (take 4 ?d) (take 4 (drop 4 ?d))) (drop 8 ?d)", unfolded whole])
      (simp_all add: chain_valid_def)
qed

lemma read_exact_passes: "read_exact_test = Some True" "read_exact_slice_test"
proof -
  let ?c = "read_chain (cursor_new (byte_string ''123'')) (cursor_new (byte_string ''456789''))"
  have start: "chain_valid cursor_valid cursor_valid ?c"
    "chain_content cursor_fill_buf cursor_fill_buf ?c = byte_string ''123456789''"
    by (simp_all add: chain_valid_def cursor_valid_def read_chain_def cursor_new_def chain_content_def
        cursor_fill_buf_def byte_string_def)
  obtain c1 where c1: "chain_valid cursor_valid cursor_valid c1"
    "read_pair ?c = Some (Inr (), byte_string ''1234'', c1)"
    "chain_content cursor_fill_buf cursor_fill_buf c1 = byte_string ''56789''"
    using cursors.chained.read_exact_loop_result [OF start(1), of 4 "[]"] start(2)
    by (auto simp: read_pair_def read_exact_def byte_string_def)
  obtain c2 where c2: "chain_valid cursor_valid cursor_valid c2"
    "read_pair c1 = Some (Inr (), byte_string ''5678'', c2)"
    "chain_content cursor_fill_buf cursor_fill_buf c2 = byte_string ''9''"
    using cursors.chained.read_exact_loop_result [OF c1(1), of 4 "[]"] c1(3)
    by (auto simp: read_pair_def read_exact_def byte_string_def)
  obtain c3 where c3: "read_pair c2 = Some (Inl (Custom EkUnexpectedEof ''failed to fill whole buffer''),
      byte_string ''9'', c3)"
    using cursors.chained.read_exact_loop_result [OF c2(1), of 4 "[]"] c2(3)
    by (auto simp: read_pair_def read_exact_def byte_string_def)
  have "error_of (cursor_read_exact 4 (cursor_new [])) = Some EkUnexpectedEof" by code_simp
  then show "read_exact_test = Some True"
    by (simp add: read_exact_test_def c1(2) c2(2) c3 error_of_def)
  show "read_exact_slice_test" by code_simp
qed

lemma adapter_tests: "take_eof" "test_writer_read_from_one_buf"
  by code_simp+

end
