(* ===== verification/Unit_Tests.thy ===== *)
theory Unit_Tests
  imports Maintenance Reference_Environment
begin

section \<open>The unit tests of the repository\<close>

text \<open>
  The tests that stand beside the code under \<open>src\<close>, run on the model. Each definition is one
  test: its set-up, its calls in order, and the conjunction of its assertions. What the Rust
  test takes from chance or from the clock (a random peer, \<open>Instant::now()\<close>, the random part of a
  delay, the iteration order of a map) is an argument, so that a test holds here for every
  choice. A test in which something may panic returns an option, and passes with \<open>Some True\<close>.
\<close>

subsection \<open>Subnet limits (src/p2p/subnet.rs)\<close>

definition ip4_addr :: "u8 \<Rightarrow> u8 \<Rightarrow> u8 \<Rightarrow> u8 \<Rightarrow> unit multiaddr" where
  "ip4_addr a b c d = [Ip4 (Ipv4 a b c d), Tcp 4025]"

definition dns_addr :: "unit multiaddr" where
  "dns_addr = [OtherProtocol ''/dns/example.com'', Tcp 4025]"

definition below_cap_allowed :: bool where
  "below_cap_allowed =
     (let limits = subnet_limits_new 2;
          (v1, limits) = on_connection (ip4_addr 10 0 0 1) False limits;
          (v2, limits) = on_connection (ip4_addr 10 0 0 2) False limits
      in v1 = Allow \<and> v2 = Allow)"

definition over_cap_rejected :: bool where
  "over_cap_rejected =
     (let limits = subnet_limits_new 2;
          (v1, limits) = on_connection (ip4_addr 10 0 0 1) False limits;
          (v2, limits) = on_connection (ip4_addr 10 0 0 2) False limits;
          (v3, limits) = on_connection (ip4_addr 10 0 0 3) False limits
      in v1 = Allow \<and> v2 = Allow \<and> v3 = Reject)"

definition different_subnets_separate_counts :: bool where
  "different_subnets_separate_counts =
     (let limits = subnet_limits_new 1;
          (v1, limits) = on_connection (ip4_addr 10 0 0 1) False limits;
          (v2, limits) = on_connection (ip4_addr 10 0 1 1) False limits
      in v1 = Allow \<and> v2 = Allow)"

definition exempt_bypasses_cap_but_still_counts :: bool where
  "exempt_bypasses_cap_but_still_counts =
     (let limits = subnet_limits_new 1;
          (v1, limits) = on_connection (ip4_addr 192 168 1 1) False limits;
          (v2, limits) = on_connection (ip4_addr 192 168 1 2) True limits;
          (v3, limits) = on_connection (ip4_addr 192 168 1 3) False limits
      in v1 = Allow \<and> v2 = Allow \<and> v3 = Reject)"

definition disconnection_frees_slot :: bool where
  "disconnection_frees_slot =
     (let limits = subnet_limits_new 1;
          (v1, limits) = on_connection (ip4_addr 10 1 0 1) False limits;
          (v2, limits) = on_connection (ip4_addr 10 1 0 2) False limits;
          limits = on_disconnection (ip4_addr 10 1 0 2) limits;
          limits = on_disconnection (ip4_addr 10 1 0 1) limits;
          (v3, limits) = on_connection (ip4_addr 10 1 0 3) False limits
      in v1 = Allow \<and> v2 = Reject \<and> v3 = Allow)"

definition non_ipv4_always_allowed :: bool where
  "non_ipv4_always_allowed = (fst (on_connection dns_addr False (subnet_limits_new 0)) = Allow)"

definition reject_increments_count_keeps_balance :: bool where
  "reject_increments_count_keeps_balance =
     (let limits = subnet_limits_new 1;
          (v1, limits) = on_connection (ip4_addr 172 16 0 1) False limits;
          (v2, limits) = on_connection (ip4_addr 172 16 0 2) False limits;
          limits = on_disconnection (ip4_addr 172 16 0 2) limits;
          (v3, limits) = on_connection (ip4_addr 172 16 0 3) False limits
      in v1 = Allow \<and> v2 = Reject \<and> v3 = Reject)"

lemma subnet_tests:
  "below_cap_allowed" "over_cap_rejected" "different_subnets_separate_counts"
  "exempt_bypasses_cap_but_still_counts" "disconnection_frees_slot" "non_ipv4_always_allowed"
  "reject_increments_count_keeps_balance"
  by (simp_all add: below_cap_allowed_def over_cap_rejected_def different_subnets_separate_counts_def
      exempt_bypasses_cap_but_still_counts_def disconnection_frees_slot_def non_ipv4_always_allowed_def
      reject_increments_count_keeps_balance_def on_connection_def on_disconnection_def subnet_def
      ip4_addr_def dns_addr_def subnet_limits_new_def Let_def)

subsection \<open>Dial backoff (src/p2p/backoff.rs)\<close>

definition backoff_len :: "'p dial_backoff \<Rightarrow> nat" where
  "backoff_len b = card (dom (backoff_state b))"

definition unknown_peer_is_ready :: "'p \<Rightarrow> instant \<Rightarrow> bool" where
  "unknown_peer_is_ready peer now = ready peer now (backoff_new (from_secs 1) (from_secs 60))"

definition failure_delays_next_attempt :: "dyadic \<Rightarrow> 'p \<Rightarrow> instant \<Rightarrow> bool option" where
  "failure_delays_next_attempt rnd peer now =
     do {
       backoff \<leftarrow> record_failure rnd peer now (backoff_new (from_secs 10) (from_secs 3600));
       later \<leftarrow> instant_add now (from_secs 16);
       Some (\<not> ready peer now backoff \<and> ready peer later backoff)
     }"

text \<open>The loop of the next test: one failure for each random number, at the same instant.\<close>

fun record_failures :: "dyadic list \<Rightarrow> 'p \<Rightarrow> instant \<Rightarrow> 'p dial_backoff \<Rightarrow> 'p dial_backoff option" where
  "record_failures [] peer now b = Some b"
| "record_failures (rnd # rnds) peer now b =
     Option.bind (record_failure rnd peer now b) (record_failures rnds peer now)"

definition repeated_failures_grow_to_cap :: "dyadic list \<Rightarrow> 'p \<Rightarrow> instant \<Rightarrow> bool option" where
  "repeated_failures_grow_to_cap rnds peer now =
     do {
       backoff \<leftarrow> record_failures rnds peer now (backoff_new (from_secs 1) (from_secs 60));
       soon \<leftarrow> instant_add now (from_secs 29);
       later \<leftarrow> instant_add now (from_secs 91);
       Some (\<not> ready peer soon backoff \<and> ready peer later backoff)
     }"

definition success_resets_backoff :: "dyadic \<Rightarrow> 'p \<Rightarrow> instant \<Rightarrow> bool option" where
  "success_resets_backoff rnd peer now =
     do {
       backoff \<leftarrow> record_failure rnd peer now (backoff_new (from_secs 10) (from_secs 3600));
       Some (\<not> ready peer now backoff \<and> ready peer now (record_success peer backoff))
     }"

definition prune_removes_long_expired_entries :: "dyadic \<Rightarrow> 'p list \<Rightarrow> 'p \<Rightarrow> instant \<Rightarrow> bool option" where
  "prune_removes_long_expired_entries rnd ord peer now =
     do {
       let cap = from_secs 60;
       backoff \<leftarrow> record_failure rnd peer now (backoff_new (from_secs 1) cap);
       later \<leftarrow> instant_add now (cap * 3);
       pruned \<leftarrow> prune ord later backoff;
       Some (backoff_len backoff = 1 \<and> ready peer later pruned \<and> backoff_len pruned = 0)
     }"

text \<open>After \<open>n\<close> failures at \<open>now\<close>, the peer may be dialed at one half to three halves of the capped delay.\<close>

lemma record_failures_delay:
  assumes "rnds \<noteq> []" "\<forall>r \<in> set rnds. random_unit r" "c < 2 ^ 51" "now + 2 * from_secs c \<le> instant_max"
    "backoff_base b = from_secs base" "backoff_cap b = from_secs c"
    "unat (failures_of b p) + length rnds < 2 ^ 32"
  shows "\<exists>b' d n. record_failures rnds p now b = Some b' \<and>
    backoff_state b' = (backoff_state b)(p \<mapsto> \<lparr>failures = n, next_attempt = now + d\<rparr>) \<and>
    capped_secs base c (unat (failures_of b p) + length rnds) * nanos_per_sec \<le> 2 * d \<and>
    2 * d \<le> 3 * capped_secs base c (unat (failures_of b p) + length rnds) * nanos_per_sec"
  using assms
proof (induction rnds arbitrary: b)
  case (Cons r rnds)
  from Cons.prems obtain d where
    b1: "record_failure r p now b = Some (b\<lparr>backoff_state := (backoff_state b)
      (p \<mapsto> \<lparr>failures = failures_of b p + 1, next_attempt = now + d\<rparr>)\<rparr>)"
    and d: "capped_secs base c (unat (failures_of b p + 1)) * nanos_per_sec \<le> 2 * d"
      "2 * d \<le> 3 * capped_secs base c (unat (failures_of b p + 1)) * nanos_per_sec"
    using record_failure_delay [of b base c r now p] by auto
  let ?b = "b\<lparr>backoff_state := (backoff_state b)
    (p \<mapsto> \<lparr>failures = failures_of b p + 1, next_attempt = now + d\<rparr>)\<rparr>"
  have count: "unat (failures_of b p + 1) = Suc (unat (failures_of b p))"
    using Cons.prems(7) unat_add_lem [of "failures_of b p" 1] by simp
  have after: "failures_of ?b p = failures_of b p + 1" by (simp add: failures_of_def)
  show ?case
  proof (cases "rnds = []")
    case True
    with b1 d count show ?thesis
      by (intro exI [of _ ?b] exI [of _ d] exI [of _ "failures_of b p + 1"]) simp
  next
    case False
    have "\<forall>r \<in> set rnds. random_unit r" "backoff_base ?b = from_secs base" "backoff_cap ?b = from_secs c"
      "unat (failures_of ?b p) + length rnds < 2 ^ 32"
      using Cons.prems unfolding after count by simp_all
    from Cons.IH [OF False this(1) Cons.prems(3,4) this(2,3,4)] obtain b' e n where
      "record_failures rnds p now ?b = Some b'"
      "backoff_state b' = (backoff_state ?b)(p \<mapsto> \<lparr>failures = n, next_attempt = now + e\<rparr>)"
      "capped_secs base c (Suc (unat (failures_of b p)) + length rnds) * nanos_per_sec \<le> 2 * e"
      "2 * e \<le> 3 * capped_secs base c (Suc (unat (failures_of b p)) + length rnds) * nanos_per_sec"
      unfolding after count by blast
    with b1 show ?thesis by (intro exI [of _ b'] exI [of _ e] exI [of _ n]) simp
  qed
qed simp

text \<open>The backoff tests pass for every peer, every instant an hour or two before the end of the clock,
  and all random numbers.\<close>

lemma backoff_tests:
  assumes "random_unit rnd" and "\<forall>r \<in> set rnds. random_unit r" "length rnds = 20"
    and now: "now + from_secs 7200 \<le> instant_max"
  shows "unknown_peer_is_ready peer now"
    "failure_delays_next_attempt rnd peer now = Some True"
    "repeated_failures_grow_to_cap rnds peer now = Some True"
    "success_resets_backoff rnd peer now = Some True"
    "prune_removes_long_expired_entries rnd ord peer now = Some True"
proof -
  have one: "\<exists>b' d n. record_failure rnd peer now (backoff_new (from_secs base) (from_secs c)) = Some b' \<and>
    b' = \<lparr>backoff_base = from_secs base, backoff_cap = from_secs c,
      backoff_state = [peer \<mapsto> \<lparr>failures = n, next_attempt = now + d\<rparr>]\<rparr> \<and>
    min base c * nanos_per_sec \<le> 2 * d \<and> 2 * d \<le> 3 * (min base c * nanos_per_sec)"
    if "c \<le> 3600" for base c
  proof -
    have "now + 2 * from_secs c \<le> instant_max" using now that by (simp add: from_secs_def nanos_per_sec_def)
    from record_failure_delay [of "backoff_new (from_secs base) (from_secs c)" base c rnd now peer] this
      assms(1) that obtain d where "record_failure rnd peer now (backoff_new (from_secs base) (from_secs c)) =
        Some ((backoff_new (from_secs base) (from_secs c))\<lparr>backoff_state :=
          (backoff_state (backoff_new (from_secs base) (from_secs c)))(peer \<mapsto>
            \<lparr>failures = failures_of (backoff_new (from_secs base) (from_secs c)) peer + 1, next_attempt = now + d\<rparr>)\<rparr>)"
      "min base c * nanos_per_sec \<le> 2 * d" "2 * d \<le> 3 * (min base c * nanos_per_sec)"
      by (auto simp: backoff_new_def failures_of_def capped_secs_def saturating_pow_def)
    then show ?thesis by (auto simp: backoff_new_def)
  qed
  show "unknown_peer_is_ready peer now"
    by (simp add: unknown_peer_is_ready_def ready_def backoff_new_def)
  from one [of 3600 10] now show "failure_delays_next_attempt rnd peer now = Some True"
    "success_resets_backoff rnd peer now = Some True"
    by (auto simp: failure_delays_next_attempt_def success_resets_backoff_def ready_def record_success_def
        instant_add_def from_secs_def nanos_per_sec_def)
  from one [of 60 1] now show "prune_removes_long_expired_entries rnd ord peer now = Some True"
    by (auto simp: prune_removes_long_expired_entries_def ready_def prune_def backoff_len_def expired_def
        list_all_iff set_entries instant_add_def from_secs_def nanos_per_sec_def dom_def Let_def)
  have "rnds \<noteq> []" using assms(3) by auto
  with record_failures_delay [of rnds 60 now "backoff_new (from_secs 1) (from_secs 60)" 1 peer] assms
  obtain b' d n where "record_failures rnds peer now (backoff_new (from_secs 1) (from_secs 60)) = Some b'"
    "backoff_state b' = [peer \<mapsto> \<lparr>failures = n, next_attempt = now + d\<rparr>]"
    "60 * nanos_per_sec \<le> 2 * d" "2 * d \<le> 180 * nanos_per_sec"
    by (auto simp: backoff_new_def failures_of_def capped_secs_def saturating_pow_def from_secs_def nanos_per_sec_def)
  with now show "repeated_failures_grow_to_cap rnds peer now = Some True"
    by (auto simp: repeated_failures_grow_to_cap_def ready_def instant_add_def from_secs_def nanos_per_sec_def)
qed

subsection \<open>Peer store (src/p2p/peerstore.rs)\<close>

text \<open>
  The printers and parsers of ids and addresses and those of the store are arguments, and so is
  the order in which the map is visited. What the tests rely on of them: a printed id and a
  printed address parse back, a written store is read back, and the corrupt text is no store.
\<close>

definition peer_store_len :: "peer_store \<Rightarrow> nat" where
  "peer_store_len st = card (dom (peers st))"

definition peer_store_is_empty :: "peer_store \<Rightarrow> bool" where
  "peer_store_is_empty st \<longleftrightarrow> dom (peers st) = {}"

definition make_addr :: "u16 \<Rightarrow> 'p multiaddr" where
  "make_addr p = [Ip4 (Ipv4 127 0 0 1), Tcp p]"

record 'p texts =
  id_text :: "'p \<Rightarrow> string"
  addr_text :: "'p multiaddr \<Rightarrow> string"
  id_of_text :: "string \<Rightarrow> 'p option"
  addr_of_text :: "string \<Rightarrow> 'p multiaddr option"

definition recorded :: "'p texts \<Rightarrow> 'p \<Rightarrow> 'p multiaddr list \<Rightarrow> peer_store" where
  "recorded tx peer_id new_addrs =
     record_peer (id_text tx) (addr_text tx) peer_id new_addrs 1000 peer_store_default"

definition candidates :: "'p texts \<Rightarrow> string list \<Rightarrow> nat \<Rightarrow> nat \<Rightarrow> peer_store \<Rightarrow> ('p \<times> 'p multiaddr) list" where
  "candidates tx ord max_age_secs now st =
     dial_candidates (id_of_text tx) (addr_of_text tx) ord max_age_secs now st"

definition record_and_get_candidates :: "'p texts \<Rightarrow> string list \<Rightarrow> 'p \<Rightarrow> bool" where
  "record_and_get_candidates tx ord peer_id =
     (let store = recorded tx peer_id [make_addr 4025];
          found = candidates tx ord 3600 2000 store
      in length found = 1 \<and> fst (found ! 0) = peer_id \<and> snd (found ! 0) = make_addr 4025)"

definition stale_peers_are_not_candidates :: "'p texts \<Rightarrow> string list \<Rightarrow> 'p \<Rightarrow> bool" where
  "stale_peers_are_not_candidates tx ord peer_id =
     (let store = recorded tx peer_id [make_addr 4025]
      in candidates tx ord 3600 (1000 + 3601) store = [])"

definition save_and_load_roundtrip ::
    "'p texts \<Rightarrow> (peer_store \<Rightarrow> io_error + string) \<Rightarrow> (string \<Rightarrow> peer_store option) \<Rightarrow> string list \<Rightarrow> string
      \<Rightarrow> 'p \<Rightarrow> bool" where
  "save_and_load_roundtrip tx to_json from_json ord tmp_dir peer_id =
     (let p = (tmp_dir, Some ''peerstore.json'');
          store = recorded tx peer_id [make_addr 4025, make_addr 4026];
          (saved, fs) = save to_json None None p store Map.empty;
          loaded = load from_json (fs_read None p fs)
      in saved = Inr () \<and> peer_store_len loaded = 1 \<and>
         length (candidates tx ord (2 ^ 64 - 1) 1000 loaded) = 2)"

definition corrupt_file_loads_empty :: "(string \<Rightarrow> peer_store option) \<Rightarrow> string \<Rightarrow> bool" where
  "corrupt_file_loads_empty from_json tmp_dir =
     (let p = (tmp_dir, Some ''peerstore.json'');
          (written, fs) = fs_write None p ''not json'' Map.empty
      in written = Inr () \<and> peer_store_is_empty (load from_json (fs_read None p fs)))"

definition addrs_per_peer_are_capped :: "'p texts \<Rightarrow> string list \<Rightarrow> 'p \<Rightarrow> bool" where
  "addrs_per_peer_are_capped tx ord peer_id =
     (let store = recorded tx peer_id (map (\<lambda>i. make_addr (of_nat i)) [0..<20])
      in length (candidates tx ord (2 ^ 64 - 1) 1000 store) = max_addrs_per_peer)"

lemma fold_push_new_length:
  "distinct xs \<Longrightarrow> set xs \<inter> set known = {} \<Longrightarrow> length known \<le> max_addrs_per_peer \<Longrightarrow>
     length (fold push_addr xs known) = min max_addrs_per_peer (length known + length xs)"
proof (induction xs arbitrary: known)
  case (Cons x xs)
  have "set xs \<inter> set (push_addr x known) = {}"
    using Cons.prems push_addr_subset [of x known] by auto
  moreover have "length (push_addr x known) = min max_addrs_per_peer (Suc (length known))"
    using Cons.prems by (auto simp: push_addr_def Let_def)
  ultimately show ?case
    using Cons.IH [of "push_addr x known"] Cons.prems by auto
qed simp

lemma recorded_peers:
  "peers (recorded tx peer_id as) =
     [id_text tx peer_id \<mapsto> \<lparr>addrs = fold push_addr (map (addr_text tx) as) [], last_seen_unix = 1000\<rparr>]"
  by (simp add: recorded_def record_peer_def peer_store_default_def fold_map_fun Let_def)

lemma peerstore_tests:
  fixes tx :: "'p texts"
  assumes parse: "\<And>p. id_of_text tx (id_text tx p) = Some p" "\<And>a. addr_of_text tx (addr_text tx a) = Some a"
    and json: "\<And>st. \<exists>c. to_json st = Inr c \<and> from_json c = Some st" "from_json ''not json'' = None"
    and ord: "iterates {id_text tx peer_id} ord"
  shows "record_and_get_candidates tx ord peer_id" "stale_peers_are_not_candidates tx ord peer_id"
    "save_and_load_roundtrip tx to_json from_json ord tmp_dir peer_id"
    "corrupt_file_loads_empty from_json tmp_dir" "addrs_per_peer_are_capped tx ord peer_id"
proof -
  have ord_eq: "ord = [id_text tx peer_id]"
    using ord by (cases ord) (auto simp: iterates_def subset_singleton_iff)
  have inj: "addr_text tx a = addr_text tx b \<longleftrightarrow> a = b" for a b
    by (metis parse(2) option.inject)
  have found: "candidates tx ord age 1000 (recorded tx peer_id as) =
      map (Pair peer_id) (List.map_filter (addr_of_text tx) (fold push_addr (map (addr_text tx) as) []))"
    for age as
    by (simp add: candidates_def dial_candidates_def recorded_peers ord_eq entries_def parse)
  have printed: "List.map_filter (addr_of_text tx) (map (addr_text tx) as) = as" for as
    by (induction as) (simp_all add: parse List.map_filter_def)
  have parsed: "set ts \<subseteq> range (addr_text tx) \<Longrightarrow>
      length (List.map_filter (addr_of_text tx) ts) = length ts" for ts
    by (induction ts) (auto simp: parse List.map_filter_def)
  show "record_and_get_candidates tx ord peer_id" "stale_peers_are_not_candidates tx ord peer_id"
    by (simp_all add: record_and_get_candidates_def stale_peers_are_not_candidates_def candidates_def
        dial_candidates_def recorded_peers ord_eq entries_def parse push_addr_def max_addrs_per_peer_def
        List.map_filter_def Let_def)
  show "corrupt_file_loads_empty from_json tmp_dir"
    by (simp add: corrupt_file_loads_empty_def fs_write_def fs_read_def load_def json peer_store_default_def
        peer_store_is_empty_def)
  let ?st = "recorded tx peer_id [make_addr 4025, make_addr 4026]"
  have "fold push_addr (map (addr_text tx) [make_addr 4025, make_addr 4026]) [] =
      map (addr_text tx) [make_addr 4025, make_addr 4026]"
    by (simp add: push_addr_def max_addrs_per_peer_def inj make_addr_def)
  then have two: "length (candidates tx ord (2 ^ 64 - 1) 1000 ?st) = 2" "peer_store_len ?st = 1"
    by (simp_all only: found printed) (simp_all add: peer_store_len_def recorded_peers)
  from json(1) [of ?st] obtain c where c: "to_json ?st = Inr c" "from_json c = Some ?st" by blast
  from two c show "save_and_load_roundtrip tx to_json from_json ord tmp_dir peer_id"
    using tmp_path_neq [of tmp_dir "''peerstore.json''"]
    by (simp add: save_and_load_roundtrip_def save_def fs_write_def fs_rename_def fs_read_def load_def Let_def)
  let ?as = "map (\<lambda>i. make_addr (of_nat i) :: 'p multiaddr) [0..<20]"
  have "inj_on (\<lambda>i. make_addr (of_nat i) :: 'p multiaddr) {0..<20}"
  proof (rule inj_onI)
    fix i j :: nat
    assume "i \<in> {0..<20}" "j \<in> {0..<20}" "(make_addr (of_nat i) :: 'p multiaddr) = make_addr (of_nat j)"
    then show "i = j" by (simp add: make_addr_def word_of_nat_eq_iff take_bit_nat_eq_self)
  qed
  then have "distinct ?as" by (simp only: distinct_map set_upt distinct_upt simp_thms)
  then have "distinct (map (addr_text tx) ?as)"
    unfolding distinct_map [of "addr_text tx"] inj_on_def inj by blast
  then have "length (fold push_addr (map (addr_text tx) ?as) []) = max_addrs_per_peer"
    by (simp add: fold_push_new_length max_addrs_per_peer_def)
  moreover have "set (fold push_addr (map (addr_text tx) ?as) []) \<subseteq> range (addr_text tx)"
    using fold_push_subset [of "map (addr_text tx) ?as" "[]"] by auto
  ultimately have "length (List.map_filter (addr_of_text tx) (fold push_addr (map (addr_text tx) ?as) [])) =
      max_addrs_per_peer" by (simp only: parsed)
  then show "addrs_per_peer_are_capped tx ord peer_id"
    by (simp add: addrs_per_peer_are_capped_def found)
qed

subsection \<open>Addresses (src/p2p/maintenance.rs)\<close>

definition split_peer_multiaddr_extracts_id ::
    "(string \<Rightarrow> 'p multiaddr option) \<Rightarrow> ('p \<Rightarrow> string) \<Rightarrow> bool option" where
  "split_peer_multiaddr_extracts_id parse to_text =
     do {
       addr \<leftarrow> parse ''/dns/api2.aleph.im/tcp/4025/p2p/QmZkurbY2G2hWay59yiTgQNaQxHSNzKZFt2jbnwJhQcKgV'';
       (peer_id, dial_addr) \<leftarrow> split_peer_multiaddr addr;
       expected \<leftarrow> parse ''/dns/api2.aleph.im/tcp/4025'';
       Some (to_text peer_id = ''QmZkurbY2G2hWay59yiTgQNaQxHSNzKZFt2jbnwJhQcKgV'' \<and> dial_addr = expected)
     }"

definition split_peer_multiaddr_rejects_missing_p2p :: "(string \<Rightarrow> 'p multiaddr option) \<Rightarrow> bool option" where
  "split_peer_multiaddr_rejects_missing_p2p parse =
     do {
       addr \<leftarrow> parse ''/dns/api2.aleph.im/tcp/4025'';
       Some (split_peer_multiaddr addr = None)
     }"

definition is_undialable_classification :: bool where
  "is_undialable_classification =
     (is_undialable [Ip4 (Ipv4 127 0 0 1), Tcp 4025 :: unit protocol] \<and>
      is_undialable [Ip4 (Ipv4 0 0 0 0), Tcp 4025 :: unit protocol] \<and>
      \<not> is_undialable [Ip4 (Ipv4 10 0 0 1), Tcp 4025 :: unit protocol] \<and>
      \<not> is_undialable [OtherProtocol ''/dns/example.org'', Tcp 4025 :: unit protocol])"

lemma maintenance_tests:
  assumes "parse ''/dns/api2.aleph.im/tcp/4025/p2p/QmZkurbY2G2hWay59yiTgQNaQxHSNzKZFt2jbnwJhQcKgV'' =
      Some [OtherProtocol ''/dns/api2.aleph.im'', Tcp 4025, P2p api2]"
    and "parse ''/dns/api2.aleph.im/tcp/4025'' = Some [OtherProtocol ''/dns/api2.aleph.im'', Tcp 4025]"
    and "to_text api2 = ''QmZkurbY2G2hWay59yiTgQNaQxHSNzKZFt2jbnwJhQcKgV''"
  shows "split_peer_multiaddr_extracts_id parse to_text = Some True"
    "split_peer_multiaddr_rejects_missing_p2p parse = Some True" "is_undialable_classification"
  using assms
  by (simp_all add: split_peer_multiaddr_extracts_id_def split_peer_multiaddr_rejects_missing_p2p_def
      is_undialable_classification_def is_undialable_def split_peer_multiaddr_def multiaddr_pop_def)

subsection \<open>Local fan-out (src/subscriptions.rs)\<close>

text \<open>On the concrete bounded channel of \<open>Reference_Environment\<close>.\<close>

definition test_envelope :: "string \<Rightarrow> u8 list \<Rightarrow> envelope" where
  "test_envelope t bytes = \<lparr>topic = t, source_peer_id = ''QmPeer'', data = bytes, received_at_millis = 0\<rparr>"

definition received_data :: "recv_result \<Rightarrow> u8 list option" where
  "received_data res = (case res of Received env \<Rightarrow> Some (data env) | _ \<Rightarrow> None)"

definition ascii_bytes :: "string \<Rightarrow> u8 list" where
  "ascii_bytes text = map of_char text"

definition subscriber_receives_published_message :: bool where
  "subscriber_receives_published_message =
     (let subs = subscriptions_new 16;
          (rx, subs) = subscribe queue_channel_ops ''topic-a'' subs;
          (receivers, subs) = publish queue_channel_ops (test_envelope ''topic-a'' (ascii_bytes ''hello'')) subs;
          (res, subs) = receive queue_channel_ops ''topic-a'' rx subs
      in receivers = 1 \<and> received_data res = Some (ascii_bytes ''hello''))"

definition publish_without_subscriber_is_dropped :: bool where
  "publish_without_subscriber_is_dropped =
     (fst (publish queue_channel_ops (test_envelope ''topic-a'' (ascii_bytes ''hello''))
        (subscriptions_new 16)) = 0)"

definition topics_are_isolated :: bool where
  "topics_are_isolated =
     (let subs = subscriptions_new 16;
          (rx_a, subs) = subscribe queue_channel_ops ''topic-a'' subs;
          (rx_b, subs) = subscribe queue_channel_ops ''topic-b'' subs;
          subs = snd (publish queue_channel_ops (test_envelope ''topic-b'' (ascii_bytes ''for-b'')) subs);
          subs = snd (publish queue_channel_ops (test_envelope ''topic-a'' (ascii_bytes ''for-a'')) subs)
      in received_data (fst (receive queue_channel_ops ''topic-a'' rx_a subs)) = Some (ascii_bytes ''for-a''))"

definition slow_subscriber_drops_oldest :: bool where
  "slow_subscriber_drops_oldest =
     (let subs = subscriptions_new 2;
          (rx, subs) = subscribe queue_channel_ops ''topic-a'' subs;
          subs = fold (\<lambda>i subs. snd (publish queue_channel_ops (test_envelope ''topic-a'' [i]) subs)) [0, 1, 2, 3] subs;
          (res1, subs) = receive queue_channel_ops ''topic-a'' rx subs;
          (res2, subs) = receive queue_channel_ops ''topic-a'' rx subs;
          (res3, subs) = receive queue_channel_ops ''topic-a'' rx subs
      in res1 = Lagged 2 \<and> received_data res2 = Some [2] \<and> received_data res3 = Some [3])"

lemma fanout_tests:
  "subscriber_receives_published_message" "publish_without_subscriber_is_dropped" "topics_are_isolated"
  "slow_subscriber_drops_oldest"
  by code_simp+

end
