(* ===== verification/Integration_Tests.thy ===== *)
theory Integration_Tests
  imports Reference_Environment
begin

section \<open>The integration tests of the gRPC service (tests/grpc\_roundtrip.rs)\<close>

text \<open>
  The tests that call a running service, on the model: the handlers are called one after another
  on the event loop that \<open>start_service\<close> starts. The gRPC transport between client and handler
  is left out. What the network answers is an argument; the lemmas hold for every swarm that
  answers as the test expects of the real one: subscribing succeeds, publishing on a mesh of
  one node reports that no peer is subscribed, and a dial of the other node succeeds and is
  followed by its connection.
\<close>

definition test_settings :: network_settings where
  "test_settings = \<lparr>ns_low_water = 80, ns_high_water = 160, ns_per_subnet_cap = 4,
     ns_max_protected_share = F32 False (1, -1)\<rparr>"

text \<open>A call that the loop takes at once, followed by what the loop handles until it returns.\<close>

definition call_turn :: "sender \<Rightarrow> 'p list \<Rightarrow> 'p loop_input list \<Rightarrow> 'p turn" where
  "call_turn sd ord later =
     \<lparr>before = [], delivery = Handled, visit_order = ord, reply_to = sd, afterwards = later\<rparr>"

definition start_service ::
    "('w, 'p) swarm_ops \<Rightarrow> 'w \<Rightarrow> 'p reply \<times> ('w, 'p, queue_channel) event_loop" where
  "start_service ops w =
     client_start_listening ops queue_channel_ops (call_turn 0 [] [])
       [Ip4 (Ipv4 127 0 0 1), Tcp 0]
       (event_loop_new w (subscriptions_new 1024) metrics_new peer_store_default test_settings {})"

definition identify_returns_local_peer_id ::
    "'p wire \<Rightarrow> ('w, 'p) swarm_ops \<Rightarrow> 'p reading \<Rightarrow> 'w \<Rightarrow> bool" where
  "identify_returns_local_peer_id wr ops rd w =
     (let (listening, s) = start_service ops w;
          (res, s1) = grpc_identify wr ops queue_channel_ops rd (call_turn 1 [] []) s
      in case (listening, res) of
           (Inr _, Inr info) \<Rightarrow>
             ir_peer_id info = peer_to_string rd (sw_local_peer_id ops (swarm s)) \<and>
             ir_listen_multiaddrs info \<noteq> []
         | _ \<Rightarrow> False)"

text \<open>A subscription, a publication, and what the stream yields in two calls of \<open>recv\<close>.\<close>

definition subscribe_then_publish ::
    "'p wire \<Rightarrow> ('w, 'p) swarm_ops \<Rightarrow> 'p reading \<Rightarrow> u8 list \<Rightarrow> bool \<Rightarrow> 'w
      \<Rightarrow> (status + unit) \<times> pubsub_envelope list" where
  "subscribe_then_publish wr ops rd payload echo w =
     (let (listening, s) = start_service ops w;
          local = sw_local_peer_id ops (swarm s)
      in case grpc_subscribe wr ops queue_channel_ops (call_turn 1 [] []) ''test-topic'' s of
           (Inl e, s1) \<Rightarrow> (Inl e, [])
         | (Inr stream, s1) \<Rightarrow>
             (let (published, s2) = grpc_publish wr ops queue_channel_ops rd local (call_turn 2 [] [])
                    \<lparr>pr_topic = ''test-topic'', pr_payload = payload, pr_echo = echo\<rparr> s1
              in (published, fst (subscribe_stream queue_channel_ops ''test-topic'' stream 2 s2))))"

definition publish_with_echo_loops_back_to_subscriber ::
    "'p wire \<Rightarrow> ('w, 'p) swarm_ops \<Rightarrow> 'p reading \<Rightarrow> u8 list \<Rightarrow> 'w \<Rightarrow> bool" where
  "publish_with_echo_loops_back_to_subscriber wr ops rd payload w =
     (case subscribe_then_publish wr ops rd payload True w of
        (Inr _, [m]) \<Rightarrow>
          pe_payload m = payload \<and>
          pe_source_peer_id m = peer_to_string rd (sw_local_peer_id ops (swarm (snd (start_service ops w)))) \<and>
          pe_topic m = ''test-topic''
      | _ \<Rightarrow> False)"

definition publish_without_echo_does_not_loop_back ::
    "'p wire \<Rightarrow> ('w, 'p) swarm_ops \<Rightarrow> 'p reading \<Rightarrow> u8 list \<Rightarrow> 'w \<Rightarrow> bool" where
  "publish_without_echo_does_not_loop_back wr ops rd payload w =
     (subscribe_then_publish wr ops rd payload False w = (Inr (), []))"

text \<open>The code of a failed call, if it failed.\<close>

definition failure_code :: "status + 'b \<Rightarrow> status_code option" where
  "failure_code res = (case res of Inl st \<Rightarrow> Some (code st) | Inr _ \<Rightarrow> None)"

definition dial_with_invalid_peer_id_returns_invalid_argument ::
    "'p wire \<Rightarrow> ('w, 'p) swarm_ops \<Rightarrow> 'w \<Rightarrow> bool" where
  "dial_with_invalid_peer_id_returns_invalid_argument wr ops w =
     (failure_code (fst (grpc_dial wr ops queue_channel_ops (call_turn 1 [] [])
        \<lparr>dr_peer_id = ''not-a-peer-id'', dr_multiaddr = ''/ip4/127.0.0.1/tcp/1''\<rparr> (snd (start_service ops w)))) =
      Some InvalidArgument)"

definition publish_empty_topic_returns_invalid_argument ::
    "'p wire \<Rightarrow> ('w, 'p) swarm_ops \<Rightarrow> 'p reading \<Rightarrow> 'w \<Rightarrow> bool" where
  "publish_empty_topic_returns_invalid_argument wr ops rd w =
     (let s = snd (start_service ops w)
      in failure_code (fst (grpc_publish wr ops queue_channel_ops rd (sw_local_peer_id ops (swarm s))
           (call_turn 1 [] []) \<lparr>pr_topic = '''', pr_payload = map of_char ''hello'', pr_echo = False\<rparr> s)) =
         Some InvalidArgument)"

subsection \<open>Preferred peers\<close>

definition call_set_preferred ::
    "'p wire \<Rightarrow> ('w, 'p) swarm_ops \<Rightarrow> sender \<Rightarrow> 'p list \<Rightarrow> preferred_peer list
      \<Rightarrow> ('w, 'p, queue_channel) event_loop
      \<Rightarrow> (status + (u32 \<times> u32)) \<times> ('w, 'p, queue_channel) event_loop" where
  "call_set_preferred wr ops sd ord wanted s =
     grpc_set_preferred_peers wr ops queue_channel_ops (call_turn sd ord []) wanted s"

definition set_preferred_peers_accepts_and_reports_counts ::
    "'p wire \<Rightarrow> ('w, 'p) swarm_ops \<Rightarrow> string \<Rightarrow> 'w \<Rightarrow> bool" where
  "set_preferred_peers_accepts_and_reports_counts wr ops peer w =
     (fst (call_set_preferred wr ops 1 [] [\<lparr>pp_peer_id = peer, pp_multiaddrs = [''/ip4/127.0.0.1/tcp/4025'']\<rparr>]
        (snd (start_service ops w))) = Inr (1, 0))"

definition set_preferred_peers_skips_invalid_entries ::
    "'p wire \<Rightarrow> ('w, 'p) swarm_ops \<Rightarrow> string \<Rightarrow> 'w \<Rightarrow> bool" where
  "set_preferred_peers_skips_invalid_entries wr ops good w =
     (fst (call_set_preferred wr ops 1 []
        [\<lparr>pp_peer_id = ''not-a-peer-id'', pp_multiaddrs = []\<rparr>,
         \<lparr>pp_peer_id = good, pp_multiaddrs = [''garbage'', ''/ip4/10.0.0.1/tcp/4025'']\<rparr>]
        (snd (start_service ops w))) = Inr (1, 0))"

definition set_preferred_peers_truncates_over_the_protected_share_cap ::
    "'p wire \<Rightarrow> ('w, 'p) swarm_ops \<Rightarrow> string list \<Rightarrow> 'w \<Rightarrow> bool" where
  "set_preferred_peers_truncates_over_the_protected_share_cap wr ops wanted w =
     (fst (call_set_preferred wr ops 1 [] (map (\<lambda>p. \<lparr>pp_peer_id = p, pp_multiaddrs = []\<rparr>) wanted)
        (snd (start_service ops w))) = Inr (80, 5))"

text \<open>
  Node B prefers node A and dials it; the connection is established while the dial waits.
\<close>

definition prefer_and_dial ::
    "'p wire \<Rightarrow> ('w, 'p) swarm_ops \<Rightarrow> 'p reading \<Rightarrow> string \<Rightarrow> string \<Rightarrow> 'p swarm_event \<Rightarrow> 'w
      \<Rightarrow> (status + unit) \<times> ('w, 'p, queue_channel) event_loop" where
  "prefer_and_dial wr ops rd peer_id_a addr_a connection w =
     (let s = snd (call_set_preferred wr ops 1 [] [\<lparr>pp_peer_id = peer_id_a, pp_multiaddrs = []\<rparr>]
                (snd (start_service ops w)))
      in grpc_dial wr ops queue_channel_ops (call_turn 2 [] [SwarmInput rd connection])
           \<lparr>dr_peer_id = peer_id_a, dr_multiaddr = addr_a\<rparr> s)"

definition only_peer ::
    "'p wire \<Rightarrow> ('w, 'p) swarm_ops \<Rightarrow> 'p reading \<Rightarrow> sender \<Rightarrow> 'p list \<Rightarrow> ('w, 'p, queue_channel) event_loop
      \<Rightarrow> peer_info option" where
  "only_peer wr ops rd sd ord s =
     (case fst (grpc_get_peers wr ops queue_channel_ops rd (call_turn sd ord []) s) of
        Inr [p] \<Rightarrow> Some p
      | _ \<Rightarrow> None)"

definition get_peers_returns_connected_peers_with_preferred_flag ::
    "'p wire \<Rightarrow> ('w, 'p) swarm_ops \<Rightarrow> 'p reading \<Rightarrow> string \<Rightarrow> string \<Rightarrow> 'p \<Rightarrow> 'p swarm_event \<Rightarrow> 'w \<Rightarrow> bool" where
  "get_peers_returns_connected_peers_with_preferred_flag wr ops rd peer_id_a addr_a a connection w =
     (let (dialed, s) = prefer_and_dial wr ops rd peer_id_a addr_a connection w
      in dialed = Inr () \<and>
         (case only_peer wr ops rd 3 [a] s of
            Some p \<Rightarrow> pi_peer_id p = peer_id_a \<and> pi_preferred p \<and> pi_score p > 0
          | None \<Rightarrow> False))"

definition set_preferred_peers_replacement_drops_old_set ::
    "'p wire \<Rightarrow> ('w, 'p) swarm_ops \<Rightarrow> 'p reading \<Rightarrow> string \<Rightarrow> string \<Rightarrow> string \<Rightarrow> 'p \<Rightarrow> 'p swarm_event \<Rightarrow> 'w
      \<Rightarrow> bool" where
  "set_preferred_peers_replacement_drops_old_set wr ops rd peer_id_a addr_a other a connection w =
     (let (dialed, s) = prefer_and_dial wr ops rd peer_id_a addr_a connection w;
          s' = snd (call_set_preferred wr ops 4 [a] [\<lparr>pp_peer_id = other, pp_multiaddrs = []\<rparr>] s)
      in dialed = Inr () \<and>
         (case only_peer wr ops rd 3 [a] s of
            Some p \<Rightarrow> pi_peer_id p = peer_id_a \<and> pi_preferred p
          | None \<Rightarrow> False) \<and>
         (case only_peer wr ops rd 5 [a] s' of
            Some p \<Rightarrow> pi_peer_id p = peer_id_a \<and> \<not> pi_preferred p
          | None \<Rightarrow> False))"

subsection \<open>The tests pass\<close>

lemma test_cap: "protected_cap test_settings = 80"
  by (simp add: protected_cap_def test_settings_def f32_of_usize_def fl_of_nat_def fl_mult_def
      fl_round_exact floorlog_fits_iff dyadic_mult_def dyadic_floor_def usize_max_def)

text \<open>A call whose answer the loop gives at once.\<close>

lemma at_once:
  "sd \<notin> fst ` set (replies s) \<Longrightarrow> handle_command ops ord (cmd sd) s = answer sd r s' \<Longrightarrow>
     replies s' = replies s \<Longrightarrow>
     send_command_and_wait ops bops (call_turn sd ord []) cmd s = (r, answer sd r s')"
  using map_of_eq_None_iff [of "replies s" sd]
  by (simp add: send_command_and_wait_def call_turn_def answer_def map_add_def)

definition service_loop :: "'w \<Rightarrow> ('w, 'p, queue_channel) event_loop" where
  "service_loop w = answer 0 (Inr Done)
     (event_loop_new w (subscriptions_new 1024) metrics_new peer_store_default test_settings {})"

lemma start_service_listens:
  "sw_listen_on ops [Ip4 (Ipv4 127 0 0 1), Tcp 0] w = (Inr (), w') \<Longrightarrow>
     start_service ops w = (Inr Done, service_loop w')"
  by (simp add: start_service_def client_start_listening_def send_command_and_wait_def call_turn_def
      service_loop_def event_loop_new_def answer_def)

lemma service_loop_simps [simp]:
  "swarm (service_loop w) = w" "subscriptions (service_loop w) = subscriptions_new 1024"
  "replies (service_loop w) = [(0, Inr Done)]" "protected (service_loop w) = {}"
  "bootstrap_peers (service_loop w) = {}" "settings (service_loop w) = test_settings"
  "pending_dials (service_loop w) = Map.empty" "connected (service_loop w) = Map.empty"
  "dial_hints (service_loop w) = Map.empty"
  by (simp_all add: service_loop_def event_loop_new_def answer_def)

lemma single_node_tests:
  assumes listen: "sw_listen_on ops [Ip4 (Ipv4 127 0 0 1), Tcp 0] w = (Inr (), w')"
    and listeners: "sw_listeners ops w' \<noteq> []"
    and topic: "gs_subscribe ops ''test-topic'' w' = (Inr joined, w2)"
    and alone: "gs_publish ops ''test-topic'' payload w2 = (Inl NoPeersSubscribedToTopic, w3)"
    and bad_id: "peer_from_str wr ''not-a-peer-id'' = Inl e"
  shows "identify_returns_local_peer_id wr ops rd w"
    "publish_with_echo_loops_back_to_subscriber wr ops rd payload w"
    "publish_without_echo_does_not_loop_back wr ops rd payload w"
    "dial_with_invalid_peer_id_returns_invalid_argument wr ops w"
    "publish_empty_topic_returns_invalid_argument wr ops rd w"
proof -
  note start = start_service_listens [where ops = ops, OF listen]
  show "identify_returns_local_peer_id wr ops rd w"
    by (simp add: identify_returns_local_peer_id_def start grpc_identify_def client_identify_def
        at_once typed_reply_def listeners)
  have "subscribe_then_publish wr ops rd payload echo w =
      (Inr (), if echo then [envelope_message (echo_envelope rd (sw_local_peer_id ops w')
         \<lparr>pr_topic = ''test-topic'', pr_payload = payload, pr_echo = True\<rparr>)] else [])" for echo
    by (simp add: subscribe_then_publish_def start grpc_subscribe_def client_subscribe_def at_once topic
        subscribe_def subscriptions_new_def qc_new_def qc_subscribe_def grpc_publish_def client_publish_def
        alone count_event_def echo_envelope_def publish_def qc_send_def qc_active_def newest_def
        receive_def qc_recv_def numeral_2_eq_2 Let_def)
  then show "publish_with_echo_loops_back_to_subscriber wr ops rd payload w"
    "publish_without_echo_does_not_loop_back wr ops rd payload w"
    by (simp_all add: publish_with_echo_loops_back_to_subscriber_def start envelope_message_def
        echo_envelope_def publish_without_echo_does_not_loop_back_def)
  show "dial_with_invalid_peer_id_returns_invalid_argument wr ops w"
    by (simp add: dial_with_invalid_peer_id_returns_invalid_argument_def failure_code_def grpc_dial_def
        parse_peer_id_def bad_id invalid_argument_def)
  show "publish_empty_topic_returns_invalid_argument wr ops rd w"
    by (simp add: publish_empty_topic_returns_invalid_argument_def failure_code_def grpc_publish_def
        invalid_argument_def Let_def)
qed

lemma set_preferred_call:
  assumes "sd \<notin> fst ` set (replies s)"
  shows "call_set_preferred wr ops sd ord req s =
    (Inr (of_nat (length (take (protected_cap (settings s)) (lenient_peers wr {} req))),
          of_nat (length (lenient_peers wr {} req) - protected_cap (settings s))),
     handle_set_preferred ops ord (lenient_peers wr {} req) sd s)"
  using assms
  by (simp add: call_set_preferred_def grpc_set_preferred_peers_def client_set_preferred_peers_def
      handle_set_preferred_def at_once typed_reply_def Let_def)

lemma lenient_peers_length:
  assumes "\<forall>t \<in> set ts. peer_from_str wr t = Inr (f t)" "distinct (map f ts)" "f ` set ts \<inter> seen = {}"
  shows "length (lenient_peers wr seen (map (\<lambda>t. \<lparr>pp_peer_id = t, pp_multiaddrs = []\<rparr>) ts)) = length ts"
  using assms by (induction ts arbitrary: seen) auto

lemma preferred_tests:
  assumes listen: "sw_listen_on ops [Ip4 (Ipv4 127 0 0 1), Tcp 0] w = (Inr (), w')"
    and ids: "peer_from_str wr ''not-a-peer-id'' = Inl e" "peer_from_str wr good = Inr g"
    and many: "\<forall>t \<in> set wanted. peer_from_str wr t = Inr (f t)" "distinct (map f wanted)" "length wanted = 85"
  shows "set_preferred_peers_accepts_and_reports_counts wr ops good w"
    "set_preferred_peers_skips_invalid_entries wr ops good w"
    "set_preferred_peers_truncates_over_the_protected_share_cap wr ops wanted w"
proof -
  note start = start_service_listens [where ops = ops, OF listen]
  show "set_preferred_peers_accepts_and_reports_counts wr ops good w"
    "set_preferred_peers_skips_invalid_entries wr ops good w"
    by (simp_all add: set_preferred_peers_accepts_and_reports_counts_def
        set_preferred_peers_skips_invalid_entries_def start set_preferred_call test_cap ids)
  from lenient_peers_length [OF many(1,2), of "{}"] many(3)
  show "set_preferred_peers_truncates_over_the_protected_share_cap wr ops wanted w"
    by (simp add: set_preferred_peers_truncates_over_the_protected_share_cap_def start set_preferred_call test_cap)
qed

text \<open>
  The state of node B after it preferred A and dialed it: A is connected and protected, and its
  score was set on both occasions.
\<close>

lemma prefer_and_dial_state:
  fixes ops :: "('w, 'p) swarm_ops"
  assumes listen: "sw_listen_on ops [Ip4 (Ipv4 127 0 0 1), Tcp 0] w = (Inr (), w')"
    and a: "peer_from_str wr peer_id_a = Inr a" "addr_from_str wr addr_a = Inr addr"
    and dial: "sw_dial ops a [addr] (gs_set_application_score ops a 100 w') = (Inr (), w2)"
  shows "\<exists>s. prefer_and_dial wr ops rd peer_id_a addr_a
      (ConnectionEstablished a \<lparr>is_dialer = True, remote_address = addr\<rparr> i) w = (Inr (), s) \<and>
    settings s = test_settings \<and> connected s = [a \<mapsto> [addr]] \<and> protected s = {a} \<and>
    bootstrap_peers s = {} \<and> fst ` set (replies s) = {0, 1, 2} \<and>
    swarm s = gs_set_application_score ops a 100 w2"
proof -
  define s1 where "s1 = snd (call_set_preferred wr ops 1 [] [\<lparr>pp_peer_id = peer_id_a, pp_multiaddrs = []\<rparr>]
    (service_loop w') :: _ \<times> ('w, _, queue_channel) event_loop)"
  let ?s2 = "s1\<lparr>swarm := w2, pending_dials := [a \<mapsto> [2]]\<rparr>"
  let ?s3 = "handle_established ops rd a \<lparr>is_dialer = True, remote_address = addr\<rparr> i ?s2"
  have s1: "swarm s1 = gs_set_application_score ops a 100 w'" "pending_dials s1 = Map.empty"
    "connected s1 = Map.empty" "protected s1 = {a}" "bootstrap_peers s1 = {}" "settings s1 = test_settings"
    "dial_hints s1 = [a \<mapsto> []]" "fst ` set (replies s1) = {0, 1}"
    by (simp_all add: s1_def set_preferred_call a handle_set_preferred_def test_cap add_preferred_def answer_def
        valid_addrs_def List.map_filter_def preferred_peer_app_score_def insert_commute Let_def)
  have s3: "settings ?s3 = test_settings" "connected ?s3 = [a \<mapsto> [addr]]" "protected ?s3 = {a}"
    "bootstrap_peers ?s3 = {}" "replies ?s3 = replies s1 @ [(2, Inr Done)]"
    "swarm ?s3 = gs_set_application_score ops a 100 w2"
    by (simp_all add: handle_established_def complete_dial_def enforce_connection_limits_def on_connection_def
        answer_all_def s1 preferred_peer_app_score_def Let_def split: option.split)
  have "2 \<notin> fst ` set (replies s1)" by (simp add: s1)
  then have "map_of (replies ?s3) 2 = Some (Inr Done)"
    using map_of_eq_None_iff [of "replies s1" 2] by (simp add: s3 map_add_def)
  moreover have "handle_dial ops a [addr] 2 s1 = ?s2" by (simp add: handle_dial_def s1 dial)
  ultimately have "send_command_and_wait ops queue_channel_ops (call_turn 2 []
      [SwarmInput rd (ConnectionEstablished a \<lparr>is_dialer = True, remote_address = addr\<rparr> i)])
      (Dial a [addr]) s1 = (Inr Done, ?s3)"
    by (simp add: send_command_and_wait_def call_turn_def)
  then have "prefer_and_dial wr ops rd peer_id_a addr_a
      (ConnectionEstablished a \<lparr>is_dialer = True, remote_address = addr\<rparr> i) w = (Inr (), ?s3)"
    unfolding prefer_and_dial_def start_service_listens [where ops = ops, OF listen] snd_conv Let_def
      s1_def [symmetric]
    by (simp add: grpc_dial_def parse_peer_id_def parse_multiaddr_def a dial_and_wait_def)
  moreover have "fst ` set (replies ?s3) = {0, 1, 2}" unfolding s3(5) set_append image_Un s1(8) by auto
  ultimately show ?thesis using s3 by blast
qed

lemma two_node_tests:
  fixes ops :: "('w, 'p) swarm_ops" and i :: connection_id
  assumes listen: "sw_listen_on ops [Ip4 (Ipv4 127 0 0 1), Tcp 0] w = (Inr (), w')"
    and a: "peer_from_str wr peer_id_a = Inr a" "addr_from_str wr addr_a = Inr addr"
      "peer_to_string rd a = peer_id_a"
    and b: "peer_from_str wr other = Inr b" "b \<noteq> a"
    and dial: "sw_dial ops a [addr] (gs_set_application_score ops a 100 w') = (Inr (), w2)"
    and score: "gs_peer_score ops (gs_set_application_score ops a 100 w2) a = Some x" "0 < x"
  defines "connection \<equiv> ConnectionEstablished a \<lparr>is_dialer = True, remote_address = addr\<rparr> i"
  shows "get_peers_returns_connected_peers_with_preferred_flag wr ops rd peer_id_a addr_a a connection w"
    "set_preferred_peers_replacement_drops_old_set wr ops rd peer_id_a addr_a other a connection w"
proof -
  from prefer_and_dial_state [OF listen a(1,2) dial] obtain s where
    s: "prefer_and_dial wr ops rd peer_id_a addr_a connection w = (Inr (), s)" "settings s = test_settings"
      "connected s = [a \<mapsto> [addr]]" "protected s = {a}" "bootstrap_peers s = {}"
      "fst ` set (replies s) = {0, 1, 2}" "swarm s = gs_set_application_score ops a 100 w2"
    unfolding connection_def by blast
  have one: "only_peer wr ops rd sd [a] t = Some \<lparr>pi_peer_id = peer_id_a,
      pi_multiaddrs = [addr_to_string rd addr], pi_preferred = (a \<in> protected t),
      pi_score = (case gs_peer_score ops (swarm t) a of None \<Rightarrow> 0 | Some x \<Rightarrow> x)\<rparr>"
    if "sd \<notin> fst ` set (replies t)" "connected t = [a \<mapsto> [addr]]"
    for sd and t :: "('w, 'p, queue_channel) event_loop"
    using that by (simp add: only_peer_def grpc_get_peers_def client_get_peers_def at_once typed_reply_def
        peer_snapshots_def entries_def a(3))
  from one [of 3 s] show "get_peers_returns_connected_peers_with_preferred_flag wr ops rd peer_id_a addr_a a
      connection w"
    by (simp add: get_peers_returns_connected_peers_with_preferred_flag_def s score)
  let ?s' = "handle_set_preferred ops [a] [(b, [])] 4 s"
  have "call_set_preferred wr ops 4 [a] [\<lparr>pp_peer_id = other, pp_multiaddrs = []\<rparr>] s = (Inr (1, 0), ?s')"
    by (simp add: set_preferred_call s test_cap b valid_addrs_def List.map_filter_def)
  moreover have "connected ?s' = [a \<mapsto> [addr]]" "a \<notin> protected ?s'" "5 \<notin> fst ` set (replies ?s')"
    using b(2) by (simp_all add: handle_set_preferred_def s test_cap drop_preferred_def add_preferred_def
        answer_def)
  ultimately show "set_preferred_peers_replacement_drops_old_set wr ops rd peer_id_a addr_a other a connection w"
    using one [of 3 s] one [of 5 ?s'] by (simp add: set_preferred_peers_replacement_drops_old_set_def s)
qed

end
