(* ===== verification/Spec2Isabelle.thy ===== *)
theory Spec2Isabelle
  imports Connection_Properties Dialing_Properties Mesh_Properties Pubsub_Properties System_Properties Service_Properties Core2_Properties
    Core2_Error_Trait Core2_Uninit Core2_Access Core2_Tests Unit_Tests Integration_Tests
begin

text \<open>
  \<^bold>\<open>Aleph P2P service: verification development\<close>

  \<^bold>\<open>The program.\<close> The service is a libp2p node with a gRPC interface. One task, the event loop
  (\<open>src/p2p/network.rs\<close>), owns the swarm and all connection state; it handles the swarm's
  events and the commands that clients send it, one at a time. The gRPC handlers
  (\<open>src/grpc.rs\<close>), the mesh maintenance task (\<open>src/p2p/maintenance.rs\<close>) and the start-up
  code (\<open>src/main.rs\<close>) are clients. Pubsub messages go from the loop and from the gRPC
  \<open>Publish\<close> with echo to local subscribers through \<open>src/subscriptions.rs\<close>; addresses
  learned by the loop go to the peer store (\<open>src/p2p/peerstore.rs\<close>), which the maintenance
  task reads and the flusher writes to disk. The repository also pins a patched copy of the
  I/O crate \<open>core2\<close> under \<open>patches/core2-0.4.0\<close>.

  \<^bold>\<open>Theories and code.\<close>
  \<^item> \<open>Std_Text\<close>: lines, words, decimal numbers of \<open>str\<close>, with printing and parsing as inverses.
  \<^item> \<open>P2P_Prelude\<close>: word types, maps with an iteration order (\<open>HashMap\<close> iteration is an
    argument, constrained to enumerate the keys once), the locale \<open>invariant_system\<close>.
  \<^item> \<open>Multiaddr\<close>: addresses as lists of protocols, with \<open>std::net\<close>'s address tests.
  \<^item> \<open>Subnet_Limits\<close>: \<open>src/p2p/subnet.rs\<close>; refinement of a multiset of open subnets
    (locale \<open>connection_limiter\<close>), and runs of openings and closings.
  \<^item> \<open>Ieee_Float\<close>, \<open>Std_Time\<close>: \<open>f64\<close> and \<open>f32\<close> as dyadic numbers rounded to 53 and 24
    bits, \<open>Duration\<close> and \<open>Instant\<close> in nanoseconds with their overflow checks.
  \<^item> \<open>Dial_Backoff\<close>: \<open>src/p2p/backoff.rs\<close> (locale \<open>dial_gate\<close>).
  \<^item> \<open>Peer_Store\<close>: \<open>src/p2p/peerstore.rs\<close>, the file system as a map from paths to texts
    with faults (locale \<open>address_book\<close>).
  \<^item> \<open>Subscription_Fanout\<close>: \<open>src/subscriptions.rs\<close>; \<open>broadcast_ok\<close> states the documented
    behaviour of \<open>tokio::sync::broadcast\<close>.
  \<^item> \<open>Metrics\<close>, \<open>Http_Endpoints\<close>: \<open>src/metrics.rs\<close>, \<open>src/http\<close>.
  \<^item> \<open>Event_Loop\<close>: \<open>handle_event\<close>, \<open>handle_command\<close> and \<open>run\<close> of \<open>src/p2p/network.rs\<close>, one
    definition per branch; \<open>Event_Loop_Dials\<close>: senders and answers, frame lemmas;
    \<open>Event_Loop_Network\<close>: the loop beside its open connections, a step relation with its
    invariants as interpretations of \<open>invariant_system\<close>; \<open>Loop_Store\<close>: a run as a history of
    the address book; \<open>Network_Setup\<close>: \<open>make_gossipsub_config\<close> and \<open>network::new\<close>.
  \<^item> \<open>P2P_Client\<close>: the client's methods. What the loop handles before and after the command
    while a method waits is an argument, \<open>turn\<close>, so every interleaving is covered.
  \<^item> \<open>Grpc_Service\<close>: the handlers and the streaming loop of \<open>src/grpc.rs\<close>.
  \<^item> \<open>Grpc_Concurrent\<close>: the whole service as a step relation on one state (the loop, the channel
    of its commands, the handlers in flight, the streams, the metrics). A handler is cut at its
    await into the part that sends the command and the part that reads the answer; tasks are
    named by the number of their sender, commands are taken in any order, a client may
    cancel its call at any step. A field \<open>history\<close> that no step reads records what was published.
    \<open>System_Invariants\<close>: the invariants of the loop, of the senders, of the calls and of the
    counters; \<open>System_Streams\<close>: the place of each stream in the published messages and the
    lag counter; \<open>System_Runs\<close>: endless runs, with what the libraries promise of them (no
    command and no dial is left for ever), along which every call is answered;
    \<open>System_Properties\<close>: the properties, each with a run of the system.
  \<^item> \<open>Maintenance\<close>: \<open>src/p2p/maintenance.rs\<close>, a tick at a time; \<open>Mesh_System\<close>: the
    tick on the running event loop, its peer store and its dials, and lemmas that carry the facts
    about the tick on its own over to it.
  \<^item> \<open>Config\<close>, \<open>Service_Main\<close>: \<open>src/config.rs\<close>, and validation, start-up, supervision, the
    flusher and shutdown of \<open>src/main.rs\<close>; \<open>Service_Life\<close>: the loop and the flusher in any
    interleaving up to the exit, and a start on the store that the exit saved; \<open>Service_Boot\<close>:
    \<open>main\<close> as a whole, from the command line over logging, Sentry, start, tasks, supervision and
    the last flush to the status of the process, on a file system.
  \<^item> \<open>Core2_Io\<close>, \<open>Core2_Readers\<close>, \<open>Core2_Buffered\<close>, \<open>Core2_Buf_Read\<close>, \<open>Core2_Format\<close>: the readers,
    writers, adapters, formatting and default loops of \<open>core2\<close>; the locales \<open>byte_reader\<close> and \<open>buf_source\<close> are the
    contracts of \<open>Read\<close> and \<open>BufRead\<close>, and the adapters are sublocales of them.
  \<^item> \<open>Core2_Error_Trait\<close>: the \<open>Error\<close> trait of \<open>core2/src/error.rs\<close>, its trait objects, conversions
    and downcasts; \<open>Core2_Uninit\<close>: the code of \<open>core2\<close> that works on memory with cells that
    may not be initialised (\<open>Initializer\<close>, \<open>Guard\<close>, \<open>read_to_end\<close>), with the refinement to the
    loop on bytes of \<open>Core2_Io\<close>; \<open>Core2_Access\<close>: constructors, accessors, \<open>into_inner\<close> and the
    conversions of errors.
  \<^item> \<open>Unit_Tests\<close>, \<open>Integration_Tests\<close>, \<open>Core2_Tests\<close>: the repository's own tests as definitions on
    the model, and that they pass: the unit tests beside the code of \<open>src\<close>, those of
    \<open>tests/grpc_roundtrip.rs\<close>, and those of \<open>core2\<close>. Random peers, clocks and random delays
    are arguments, so a test holds for every choice of them. They validate the definitions against
    what the authors expect of the code.
  \<^item> \<open>Reference_Environment\<close>: a concrete broadcast channel that satisfies \<open>broadcast_ok\<close>, a
    swarm that records its calls, and sample states, for the witnesses.
  \<^item> \<open>Connection_Properties\<close>, \<open>Dialing_Properties\<close>, \<open>Mesh_Properties\<close>, \<open>Pubsub_Properties\<close>,
    \<open>Service_Properties\<close>, \<open>Core2_Properties\<close>: the properties, each with its witness.

  \<^bold>\<open>What the lemmas show.\<close> Connections: the table, the gauge, the subnet counts and the
  protected set agree with the open connections in every reachable state, and what the limits
  do to a new connection follows from that. Commands: every sender is answered exactly once or
  waits for a dial in flight, and what it is answered.
  Interleaved: in every reachable state of the whole service each call that waits has its sender
  in the channel or with the loop, in every run that leaves no command and no dial for ever each
  call is answered, and each stream yields every message once, in order, or counts it as lagged. Pubsub: what each subscriber receives.
  Dialing: which peers a tick attempts, in which order, how many, and how failures delay them;
  on the running loop, that preferred and remembered peers are dialed and nothing else is.
  Persistence: saving and loading, the file after faults in any interleaving, and that a restart
  knows what the exit knew. Start-up, with the calls the swarm and gossipsub have answered by then, and shutdown, with the
  status of the process and the files it leaves. I/O crate:
  what the loops return over readers with a known content, that \<open>read_to_end\<close> never exposes a cell
  that was not written, that a downcast gives back what was boxed, and that the buffered writer
  fails.

  \<^bold>\<open>Parameters.\<close> The swarm and gossipsub (\<open>swarm_ops\<close>), the broadcast channel, \<open>serde_json\<close>,
  the printing and parsing of ids and addresses (\<open>wire\<close>, \<open>reading\<close>), random numbers, clocks
  and the iteration order of hash maps are arguments of the definitions.

  \<^bold>\<open>Bounds.\<close> \<open>subscribe_stream\<close> runs a given number of \<open>recv\<close> calls, since the task has no
  end; the properties hold for every number, and a stream with fewer calls than messages has
  yielded a prefix. The refill budget is a natural number: that the low watermark plus two fits
  \<open>usize\<close> is taken for granted, and so is a broadcast capacity of at least one, which tokio
  demands and \<open>main\<close> provides. The maintenance task and the flusher are functions of the list of their
  ticks. The loops of \<open>core2\<close> that retry after \<open>Interrupted\<close> are partial functions, whose
  value is \<open>None\<close> when they do not return; their properties state that they return.

  \<^bold>\<open>Not modelled.\<close> The building of the swarm from its settings, the hash function of
  \<open>DefaultHasher\<close>, the loggers, Sentry's client, clap, the parsing of YAML and of keys, and the HTTP
  and gRPC transports are calls of libraries: arguments where the code acts on their results,
  left out otherwise. Log lines are left out everywhere. Lock poisoning cannot happen, as no code
  panics while it holds a lock. The
  interleaved system runs while the loop lives; what the end of the loop does to the
  service is in \<open>Service_Main\<close>. Of \<open>core2\<close>, the \<open>Debug\<close> printers, the accessors that only lend
  a reference (\<open>get_ref\<close>, \<open>get_mut\<close>) and the buffer of \<open>copy\<close> before it is
  filled are left out, and a reader that returns more bytes than it was given room for is
  outside the contracts of the locales. The build script and the module lists
  have no behaviour of the service in them. Of the tests, those that run two real libp2p nodes
  against each other and the one of YAML parsing test libraries and are left out.
\<close>

end
